(* ===== verification/Prelude.thy ===== *)
theory Prelude
  imports Main "HOL-Library.Word" "HOL-Library.Sublist" "HOL-Library.Multiset" "HOL-Library.Char_ord"
begin

text \<open>
  The shared vocabulary of the development: bytes, UTF-8 strings as character
  lists, the parts of Rust's standard library the crates use on strings and
  integers (\<^verbatim>\<open>str::find\<close>, \<^verbatim>\<open>split\<close>, \<^verbatim>\<open>strip_prefix\<close>, \<^verbatim>\<open>trim_start_matches\<close>,
  \<^verbatim>\<open>parse\<close>, \<^verbatim>\<open>to_string\<close>), and generic lemmas on lists and options that the
  component theories use.

  A Rust \<^verbatim>\<open>&str\<close> or \<^verbatim>\<open>String\<close> is the list of its UTF-8 bytes, each written as
  an Isabelle character; every pattern the crates search for is ASCII, so
  searching bytes and searching characters give the same positions.
\<close>

named_theorems str_simps \<open>evaluation and algebra of the string helpers\<close>

type_synonym byte = "8 word"
type_synonym bytes = "byte list"

definition as_bytes :: "string \<Rightarrow> bytes" where
  "as_bytes s = List.map of_char s"

definition of_bytes :: "bytes \<Rightarrow> string" where
  "of_bytes bs = List.map (\<lambda>b. char_of (unat b)) bs"

section \<open>Case\<close>

definition ascii_lower :: "char \<Rightarrow> char" where
  "ascii_lower c = (let n = of_char c :: nat in if 65 \<le> n \<and> n \<le> 90 then char_of (n + 32) else c)"

definition to_ascii_lowercase :: "string \<Rightarrow> string" where
  "to_ascii_lowercase s = map ascii_lower s"

section \<open>Searching\<close>

fun strip_prefix :: "'a list \<Rightarrow> 'a list \<Rightarrow> 'a list option" where
  "strip_prefix [] ys = Some ys"
| "strip_prefix (x # xs) [] = None"
| "strip_prefix (x # xs) (y # ys) = (if x = y then strip_prefix xs ys else None)"

definition starts_with :: "'a list \<Rightarrow> 'a list \<Rightarrow> bool" where
  "starts_with p s = (strip_prefix p s \<noteq> None)"

definition strip_suffix :: "'a list \<Rightarrow> 'a list \<Rightarrow> 'a list option" where
  "strip_suffix p s = map_option rev (strip_prefix (rev p) (rev s))"

definition ends_with :: "'a list \<Rightarrow> 'a list \<Rightarrow> bool" where
  "ends_with p s = (strip_suffix p s \<noteq> None)"

fun find_idx :: "('a \<Rightarrow> bool) \<Rightarrow> 'a list \<Rightarrow> nat option" where
  "find_idx P [] = None"
| "find_idx P (x # xs) = (if P x then Some 0 else map_option Suc (find_idx P xs))"

definition rfind_idx :: "('a \<Rightarrow> bool) \<Rightarrow> 'a list \<Rightarrow> nat option" where
  "rfind_idx P xs = map_option (\<lambda>i. length xs - 1 - i) (find_idx P (rev xs))"

fun find_sub :: "'a list \<Rightarrow> 'a list \<Rightarrow> nat option" where
  "find_sub p [] = (if p = [] then Some 0 else None)"
| "find_sub p (x # xs) =
     (if starts_with p (x # xs) then Some 0 else map_option Suc (find_sub p xs))"

definition contains_sub :: "'a list \<Rightarrow> 'a list \<Rightarrow> bool" where
  "contains_sub p s = (find_sub p s \<noteq> None)"

definition split_once :: "'a list \<Rightarrow> 'a list \<Rightarrow> ('a list \<times> 'a list) option" where
  "split_once p s =
     map_option (\<lambda>i. (take i s, drop (i + length p) s)) (find_sub p s)"

definition rsplit_once :: "'a \<Rightarrow> 'a list \<Rightarrow> ('a list \<times> 'a list) option" where
  "rsplit_once c s =
     map_option (\<lambda>i. (take i s, drop (Suc i) s)) (rfind_idx ((=) c) s)"

lemma strip_prefix_Some_iff: "strip_prefix p s = Some r \<longleftrightarrow> s = p @ r"
  by (induction p s rule: strip_prefix.induct) auto

lemma strip_prefix_append [simp]: "strip_prefix p (p @ r) = Some r"
  by (simp add: strip_prefix_Some_iff)

lemma strip_prefix_None_iff: "strip_prefix p s = None \<longleftrightarrow> \<not> prefix p s"
  by (metis option.exhaust_sel option.simps(3) prefixE prefixI strip_prefix_Some_iff)

lemma starts_with_prefix [str_simps]: "starts_with p s \<longleftrightarrow> prefix p s"
  by (auto simp: starts_with_def strip_prefix_None_iff)

lemma strip_suffix_Some_iff: "strip_suffix p s = Some r \<longleftrightarrow> s = r @ p"
  by (auto simp: strip_suffix_def strip_prefix_Some_iff)
     (metis rev_append rev_rev_ident)

lemma ends_with_suffix [str_simps]: "ends_with p s \<longleftrightarrow> suffix p s"
  unfolding ends_with_def
  by (metis not_Some_eq strip_suffix_Some_iff suffix_def)

lemma find_idx_None_iff: "find_idx P xs = None \<longleftrightarrow> (\<forall>x\<in>set xs. \<not> P x)"
  by (induction xs) auto

lemma find_idx_SomeD:
  "find_idx P xs = Some i \<Longrightarrow> i < length xs \<and> P (xs ! i) \<and> (\<forall>x\<in>set (take i xs). \<not> P x)"
proof (induction xs arbitrary: i)
  case (Cons x xs)
  then show ?case by (cases "P x") auto
qed simp

lemma find_idx_append:
  "find_idx P (xs @ ys) =
    (case find_idx P xs of Some i \<Rightarrow> Some i | None \<Rightarrow> map_option ((+) (length xs)) (find_idx P ys))"
  by (induction xs) (auto split: option.splits simp: option.map_comp comp_def,
    (cases "find_idx P ys"; simp)+)

lemma rfind_idx_SomeD:
  assumes "rfind_idx P xs = Some i"
  shows "i < length xs \<and> P (xs ! i) \<and> (\<forall>x\<in>set (drop (Suc i) xs). \<not> P x)"
proof -
  obtain j where j: "find_idx P (rev xs) = Some j" "i = length xs - 1 - j"
    using assms by (auto simp: rfind_idx_def)
  have "j < length xs" "P (rev xs ! j)" "\<forall>x\<in>set (take j (rev xs)). \<not> P x"
    using find_idx_SomeD [OF j(1)] by auto
  moreover have "set (take j (rev xs)) = set (drop (Suc i) xs)"
    using j(2) \<open>j < length xs\<close> by (simp add: take_rev Suc_diff_Suc)
  ultimately show ?thesis
    using j(2) by (auto simp: rev_nth)
qed

lemma rfind_idx_None_iff: "rfind_idx P xs = None \<longleftrightarrow> (\<forall>x\<in>set xs. \<not> P x)"
  by (simp add: rfind_idx_def find_idx_None_iff)

lemma find_sub_SomeD:
  "find_sub p s = Some i \<Longrightarrow> i + length p \<le> length s \<and> s = take i s @ p @ drop (i + length p) s"
proof (induction s arbitrary: i)
  case (Cons x xs)
  show ?case
  proof (cases "prefix p (x # xs)")
    case True
    then obtain r where "x # xs = p @ r" by (auto simp: prefix_def)
    moreover have "i = 0" using Cons(2) True by (simp add: starts_with_prefix)
    ultimately show ?thesis by (metis add_0 append_Nil append_eq_conv_conj le_add1 length_append take0)
  next
    case False
    then show ?thesis using Cons by (auto simp: starts_with_prefix)
  qed
qed (auto split: if_splits)

lemma find_sub_None_iff: "find_sub p s = None \<longleftrightarrow> \<not> sublist p s"
proof (induction s)
  case (Cons x xs)
  then show ?case
    by (auto simp: starts_with_prefix sublist_Cons_right)
qed auto

lemma contains_sub_sublist [str_simps]: "contains_sub p s \<longleftrightarrow> sublist p s"
  by (simp add: contains_sub_def find_sub_None_iff)

lemma split_once_SomeD: "split_once p s = Some (a, b) \<Longrightarrow> s = a @ p @ b"
  by (auto simp: split_once_def dest: find_sub_SomeD)

section \<open>Splitting and trimming\<close>

function split_on :: "'a list \<Rightarrow> 'a list \<Rightarrow> 'a list list" where
  "split_on p s =
     (if p = [] then [s]
      else case find_sub p s of
             None \<Rightarrow> [s]
           | Some i \<Rightarrow> take i s # split_on p (drop (i + length p) s))"
  by pat_completeness auto
termination
proof (relation "measure (\<lambda>(p, s). length s)", goal_cases)
  case (2 p s i)
  from find_sub_SomeD [OF 2(2)] 2(1) show ?case by (cases p) auto
qed simp

declare split_on.simps [simp del]

fun join_with :: "'a list \<Rightarrow> 'a list list \<Rightarrow> 'a list" where
  "join_with p [] = []"
| "join_with p [x] = x"
| "join_with p (x # y # ys) = x @ p @ join_with p (y # ys)"

lemma split_on_not_Nil [simp]: "split_on p s \<noteq> []"
  by (subst split_on.simps) (simp split: option.splits)

lemma join_with_Cons: "ys \<noteq> [] \<Longrightarrow> join_with p (x # ys) = x @ p @ join_with p ys"
  by (cases ys) auto

lemma join_split_on [simp]: "join_with p (split_on p s) = s"
proof (induction p s rule: split_on.induct)
  case (1 p s)
  show ?case
  proof (cases "p = [] \<or> find_sub p s = None")
    case True
    then show ?thesis by (subst split_on.simps) auto
  next
    case False
    then obtain i where i: "p \<noteq> []" "find_sub p s = Some i" by auto
    then have "join_with p (split_on p s) = take i s @ p @ drop (i + length p) s"
      using 1 by (subst split_on.simps) (simp add: join_with_Cons)
    with find_sub_SomeD [OF i(2)] show ?thesis by simp
  qed
qed

lemma split_on_parts_le: "x \<in> set (split_on p s) \<Longrightarrow> length x \<le> length s"
proof (induction p s rule: split_on.induct)
  case (1 p s)
  from 1(2) show ?case
    by (subst (asm) split_on.simps)
       (auto split: if_splits option.splits dest!: 1(1) dest: find_sub_SomeD)
qed

definition trim_start_matches :: "('a \<Rightarrow> bool) \<Rightarrow> 'a list \<Rightarrow> 'a list" where
  "trim_start_matches = dropWhile"

definition trim_end_matches :: "('a \<Rightarrow> bool) \<Rightarrow> 'a list \<Rightarrow> 'a list" where
  "trim_end_matches P s = rev (dropWhile P (rev s))"

definition trim_matches :: "('a \<Rightarrow> bool) \<Rightarrow> 'a list \<Rightarrow> 'a list" where
  "trim_matches P s = trim_end_matches P (trim_start_matches P s)"

definition ascii_ws :: "char \<Rightarrow> bool" where
  "ascii_ws c = (let n = of_char c :: nat in n = 32 \<or> (9 \<le> n \<and> n \<le> 13))"

end
