(* ===== verification/Numbers.thy ===== *)
theory Numbers
  imports Prelude
begin

text \<open>
  Printing and parsing of integers as Rust's \<^verbatim>\<open>to_string\<close>, \<^verbatim>\<open>str::parse\<close> and
  \<^verbatim>\<open>from_str_radix\<close> do it: an optional leading sign, at least one digit, and
  failure (never wrap-around) when the value does not fit the width.
\<close>

definition digit_char :: "nat \<Rightarrow> char" where
  "digit_char d = char_of (if d < 10 then 48 + d else 87 + d)"

definition to_digit :: "nat \<Rightarrow> char \<Rightarrow> nat option" where
  "to_digit radix c =
     (let n = of_char c :: nat;
          d = (if 48 \<le> n \<and> n \<le> 57 then n - 48
               else if 97 \<le> n \<and> n \<le> 122 then n - 87
               else if 65 \<le> n \<and> n \<le> 90 then n - 55
               else radix)
      in if d < radix then Some d else None)"

definition is_ascii_digit :: "char \<Rightarrow> bool" where
  "is_ascii_digit c = (let n = of_char c :: nat in 48 \<le> n \<and> n \<le> 57)"

definition is_ascii_alphabetic :: "char \<Rightarrow> bool" where
  "is_ascii_alphabetic c =
     (let n = of_char c :: nat in (65 \<le> n \<and> n \<le> 90) \<or> (97 \<le> n \<and> n \<le> 122))"

fun show_radix :: "nat \<Rightarrow> nat \<Rightarrow> string" where
  "show_radix r n =
     (if r < 2 \<or> n < r then [digit_char n]
      else show_radix r (n div r) @ [digit_char (n mod r)])"

declare show_radix.simps [simp del]

definition show_nat :: "nat \<Rightarrow> string" where
  "show_nat n = show_radix 10 n"

definition show_int :: "int \<Rightarrow> string" where
  "show_int i = (if i < 0 then CHR ''-'' # show_nat (nat (- i)) else show_nat (nat i))"

definition pad_left :: "char \<Rightarrow> nat \<Rightarrow> string \<Rightarrow> string" where
  "pad_left c w s = replicate (w - length s) c @ s"

fun digits_value :: "nat \<Rightarrow> nat \<Rightarrow> string \<Rightarrow> nat option" where
  "digits_value r acc [] = Some acc"
| "digits_value r acc (c # cs) =
     (case to_digit r c of None \<Rightarrow> None | Some d \<Rightarrow> digits_value r (acc * r + d) cs)"

definition parse_digits :: "nat \<Rightarrow> string \<Rightarrow> nat option" where
  "parse_digits r s = (if s = [] then None else digits_value r 0 s)"

text \<open>\<^verbatim>\<open>u<w>::from_str_radix\<close>: a single leading plus sign is accepted.\<close>
definition parse_uint :: "nat \<Rightarrow> nat \<Rightarrow> string \<Rightarrow> nat option" where
  "parse_uint w r s =
     (let body = (case s of c # cs \<Rightarrow> if c = CHR ''+'' then cs else s | [] \<Rightarrow> s)
      in case parse_digits r body of
           None \<Rightarrow> None
         | Some n \<Rightarrow> if n < 2 ^ w then Some n else None)"

text \<open>\<^verbatim>\<open>i<w>::from_str\<close>: a single leading plus or minus sign.\<close>
definition parse_int :: "nat \<Rightarrow> string \<Rightarrow> int option" where
  "parse_int w s =
     (case s of
        c # cs \<Rightarrow>
          if c = CHR ''-'' then
            (case parse_digits 10 cs of
               None \<Rightarrow> None
             | Some n \<Rightarrow> if n \<le> 2 ^ (w - 1) then Some (- int n) else None)
          else
            (case parse_digits 10 (if c = CHR ''+'' then cs else s) of
               None \<Rightarrow> None
             | Some n \<Rightarrow> if n < 2 ^ (w - 1) then Some (int n) else None)
      | [] \<Rightarrow> None)"

section \<open>Facts\<close>

lemma of_char_digit_char:
  "d < 36 \<Longrightarrow> (of_char (digit_char d) :: nat) = (if d < 10 then 48 + d else 87 + d)"
  by (simp add: digit_char_def)

lemma to_digit_digit_char: "d < r \<Longrightarrow> r \<le> 36 \<Longrightarrow> to_digit r (digit_char d) = Some d"
  by (auto simp: to_digit_def of_char_digit_char Let_def)

lemma digits_value_append:
  "digits_value r acc (xs @ ys) =
     (case digits_value r acc xs of None \<Rightarrow> None | Some a \<Rightarrow> digits_value r a ys)"
  by (induction xs arbitrary: acc) (auto split: option.splits)

lemma show_radix_not_Nil [simp]: "show_radix r n \<noteq> []"
  by (subst show_radix.simps) simp

lemma digits_value_show_radix:
  "2 \<le> r \<Longrightarrow> r \<le> 36 \<Longrightarrow> digits_value r 0 (show_radix r n) = Some n"
proof (induction r n rule: show_radix.induct)
  case (1 r n)
  show ?case
  proof (cases "n < r")
    case True
    then show ?thesis using 1 by (subst show_radix.simps) (simp add: to_digit_digit_char)
  next
    case False
    then show ?thesis using 1
      by (subst show_radix.simps) (simp add: to_digit_digit_char digits_value_append)
  qed
qed

lemma parse_digits_show_nat [simp]: "parse_digits 10 (show_nat n) = Some n"
  by (simp add: parse_digits_def show_nat_def digits_value_show_radix)

lemma digits_value_zeros:
  "digits_value 10 0 (replicate k CHR ''0'' @ s) = digits_value 10 0 s"
  by (induction k) (auto simp: to_digit_def)

lemma parse_digits_pad_zero [simp]:
  "parse_digits 10 (pad_left CHR ''0'' w (show_nat n)) = Some n"
  by (simp add: parse_digits_def pad_left_def digits_value_zeros show_nat_def
      digits_value_show_radix)

lemma digit_char_not_sign:
  "d < 36 \<Longrightarrow> digit_char d \<noteq> CHR ''+'' \<and> digit_char d \<noteq> CHR ''-''"
  using of_char_digit_char [of d] by (auto split: if_splits)

lemma show_radix_hd: "2 \<le> r \<Longrightarrow> \<exists>d < r. hd (show_radix r n) = digit_char d"
proof (induction r n rule: show_radix.induct)
  case (1 r n)
  then show ?case
    by (subst show_radix.simps) (auto simp: hd_append)
qed

lemma show_nat_hd_not_sign: "hd (show_nat n) \<noteq> CHR ''+'' \<and> hd (show_nat n) \<noteq> CHR ''-''"
  using show_radix_hd [of 10 n] digit_char_not_sign by (fastforce simp: show_nat_def)

lemma show_nat_not_Nil [simp]: "show_nat n \<noteq> []"
  by (simp add: show_nat_def)

lemma parse_uint_show_nat: "n < 2 ^ w \<Longrightarrow> parse_uint w 10 (show_nat n) = Some n"
  using show_nat_hd_not_sign [of n] parse_digits_show_nat [of n]
  by (cases "show_nat n") (auto simp: parse_uint_def)

lemma parse_int_show_int:
  assumes "- (2 ^ (w - 1)) \<le> i" "i < 2 ^ (w - 1)"
  shows "parse_int w (show_int i) = Some i"
proof (cases "i < 0")
  case True
  then have "nat (- i) \<le> 2 ^ (w - 1)" using assms by (simp add: nat_le_iff)
  then show ?thesis using True by (simp add: parse_int_def show_int_def)
next
  case False
  then have *: "nat i < 2 ^ (w - 1)" using assms by (simp add: nat_less_iff)
  then show ?thesis using False show_nat_hd_not_sign [of "nat i"] parse_digits_show_nat [of "nat i"]
    by (cases "show_nat (nat i)") (auto simp: parse_int_def show_int_def)
qed

lemma parse_digits_bound: "parse_digits r [] = None"
  by (simp add: parse_digits_def)

lemma digits_value_is_digit:
  "digits_value 10 acc s = Some n \<Longrightarrow> \<forall>c\<in>set s. is_ascii_digit c"
proof (induction s arbitrary: acc)
  case (Cons c s)
  then show ?case
    by (auto split: option.splits)
       (auto simp: to_digit_def is_ascii_digit_def Let_def split: if_splits)
qed simp

lemma show_nat_digits: "\<forall>c\<in>set (show_nat n). is_ascii_digit c"
  using digits_value_is_digit [OF digits_value_show_radix [of 10 n]] by (simp add: show_nat_def)

lemma show_radix_length_mono:
  "2 \<le> r \<Longrightarrow> a \<le> b \<Longrightarrow> length (show_radix r a) \<le> length (show_radix r b)"
proof (induction r b arbitrary: a rule: show_radix.induct)
  case (1 r b)
  show ?case
  proof (cases "b < r")
    case True
    then show ?thesis using 1 by (simp add: show_radix.simps [of r])
  next
    case False
    then have "a \<ge> r \<Longrightarrow> length (show_radix r (a div r)) \<le> length (show_radix r (b div r))"
      using 1 by (simp add: div_le_mono)
    with False 1 show ?thesis
      by (subst (1 2) show_radix.simps) auto
  qed
qed

lemma show_nat_length_mono: "a \<le> b \<Longrightarrow> length (show_nat a) \<le> length (show_nat b)"
  by (simp add: show_nat_def show_radix_length_mono)

lemma show_nat_inj: "show_nat a = show_nat b \<longleftrightarrow> a = b"
  by (metis option.inject parse_digits_show_nat)

lemma digit_chars:
  "digit_char 0 = CHR ''0''" "digit_char (Suc 0) = CHR ''1''" "digit_char 1 = CHR ''1''"
  "digit_char 2 = CHR ''2''" "digit_char 3 = CHR ''3''" "digit_char 4 = CHR ''4''"
  "digit_char 5 = CHR ''5''" "digit_char 6 = CHR ''6''" "digit_char 7 = CHR ''7''"
  "digit_char 8 = CHR ''8''" "digit_char 9 = CHR ''9''"
  by code_simp+

lemmas show_nat_eval = show_nat_def show_radix.simps digit_chars

end
