(* ===== verification/Errors.thy ===== *)
theory Errors
  imports Numbers
begin

text \<open>
  \<^verbatim>\<open>webdataset-core/src/error.rs\<close> and \<^verbatim>\<open>handlers.rs\<close>: the error type every
  crate shares, the actions a handler may choose, and how a stage turns the
  chosen action into what it does next.

  An error keeps the payload the source gives it; a message that the source
  builds with a format string keeps its static text only.  \<open>Panic\<close> has no
  counterpart in \<^verbatim>\<open>error.rs\<close>: it is the outcome of a Rust panic (arithmetic
  overflow under the checked profile, a slice bound, \<^verbatim>\<open>expect\<close>), so that every
  way an operation can end is a value.
\<close>

datatype error =
    Io string
  | Json string
  | Utf8 nat
  | Decode string string
  | Encode string string
  | MissingKey "string list" "string list"
  | DuplicateKey string string
  | Security string
  | Subprocess string
  | Format string
  | Unsupported string
  | Value string
  | Empty string
  | Context string error
  | Panic string

type_synonym 'a res = "error + 'a"

definition with_context :: "string \<Rightarrow> 'a res \<Rightarrow> 'a res" where
  "with_context c r = (case r of Inl e \<Rightarrow> Inl (Context c e) | Inr x \<Rightarrow> Inr x)"

text \<open>The \<^verbatim>\<open>?\<close> operator.\<close>
definition and_then :: "'a res \<Rightarrow> ('a \<Rightarrow> 'b res) \<Rightarrow> 'b res" where
  "and_then r f = (case r of Inl e \<Rightarrow> Inl e | Inr x \<Rightarrow> f x)"

definition map_res :: "('a \<Rightarrow> 'b) \<Rightarrow> 'a res \<Rightarrow> 'b res" where
  "map_res f r = (case r of Inl e \<Rightarrow> Inl e | Inr x \<Rightarrow> Inr (f x))"

definition ok_or :: "error \<Rightarrow> 'a option \<Rightarrow> 'a res" where
  "ok_or e x = (case x of None \<Rightarrow> Inl e | Some y \<Rightarrow> Inr y)"

text \<open>\<^verbatim>\<open>iter.map(f).collect::<Result<Vec<_>>>()\<close>: the first failure wins.\<close>
fun collect_res :: "('a \<Rightarrow> 'b res) \<Rightarrow> 'a list \<Rightarrow> 'b list res" where
  "collect_res f [] = Inr []"
| "collect_res f (x # xs) =
     (case f x of
        Inl e \<Rightarrow> Inl e
      | Inr y \<Rightarrow> (case collect_res f xs of Inl e \<Rightarrow> Inl e | Inr ys \<Rightarrow> Inr (y # ys)))"

lemma and_then_simps [simp]:
  "and_then (Inl e) f = Inl e" "and_then (Inr x) f = f x"
  by (simp_all add: and_then_def)

lemma and_then_Inr_iff: "and_then r f = Inr y \<longleftrightarrow> (\<exists>x. r = Inr x \<and> f x = Inr y)"
  by (cases r) auto

lemma and_then_Inl_iff: "and_then r f = Inl e \<longleftrightarrow> r = Inl e \<or> (\<exists>x. r = Inr x \<and> f x = Inl e)"
  by (cases r) auto

lemma and_then_cong [fundef_cong]:
  "r = r' \<Longrightarrow> (\<And>x. r' = Inr x \<Longrightarrow> f x = g x) \<Longrightarrow> and_then r f = and_then r' g"
  by (cases r') auto

lemma map_res_simps [simp]:
  "map_res f (Inl e) = Inl e" "map_res f (Inr x) = Inr (f x)"
  by (simp_all add: map_res_def)

lemma map_res_Inr_iff: "map_res f r = Inr y \<longleftrightarrow> (\<exists>x. r = Inr x \<and> y = f x)"
  by (cases r) auto

lemma ok_or_simps [simp]: "ok_or e None = Inl e" "ok_or e (Some x) = Inr x"
  by (simp_all add: ok_or_def)

lemma ok_or_Inr_iff: "ok_or e r = Inr x \<longleftrightarrow> r = Some x"
  by (cases r) auto

lemma collect_res_cong [fundef_cong]:
  "xs = ys \<Longrightarrow> (\<And>x. x \<in> set ys \<Longrightarrow> f x = g x) \<Longrightarrow> collect_res f xs = collect_res g ys"
  by (induction ys arbitrary: xs) (auto split: sum.splits)

lemma collect_res_Inr_iff:
  "collect_res f xs = Inr ys \<longleftrightarrow> list_all2 (\<lambda>x y. f x = Inr y) xs ys"
proof (induction xs arbitrary: ys)
  case (Cons x xs)
  show ?case
  proof (cases "f x")
    case (Inr y)
    then show ?thesis using Cons [of "tl ys"]
      by (cases "collect_res f xs"; cases ys) auto
  qed (auto simp: list_all2_Cons1)
qed auto

lemma collect_res_all_Inr:
  "(\<And>x. x \<in> set xs \<Longrightarrow> f x = Inr (g x)) \<Longrightarrow> collect_res f xs = Inr (map g xs)"
  by (induction xs) auto

section \<open>Handlers\<close>

datatype action = Continue | Stop | Reraise

type_synonym handler = "error \<Rightarrow> action"

definition reraise_exception :: handler where "reraise_exception = (\<lambda>e. Reraise)"
definition ignore_and_continue :: handler where "ignore_and_continue = (\<lambda>e. Continue)"
definition warn_and_continue :: handler where "warn_and_continue = (\<lambda>e. Continue)"
definition ignore_and_stop :: handler where "ignore_and_stop = (\<lambda>e. Stop)"
definition warn_and_stop :: handler where "warn_and_stop = (\<lambda>e. Stop)"

datatype dispatch = Skip | StopStream | Yield error

definition dispatch :: "handler \<Rightarrow> error \<Rightarrow> dispatch" where
  "dispatch h e = (case h e of Continue \<Rightarrow> Skip | Stop \<Rightarrow> StopStream | Reraise \<Rightarrow> Yield e)"

lemma dispatch_Yield_iff: "dispatch h e = Yield e' \<longleftrightarrow> h e = Reraise \<and> e' = e"
  by (auto simp: dispatch_def split: action.splits)

lemma dispatch_Skip_iff: "dispatch h e = Skip \<longleftrightarrow> h e = Continue"
  by (auto simp: dispatch_def split: action.splits)

lemma dispatch_StopStream_iff: "dispatch h e = StopStream \<longleftrightarrow> h e = Stop"
  by (auto simp: dispatch_def split: action.splits)

lemmas dispatch_iffs = dispatch_Yield_iff dispatch_Skip_iff dispatch_StopStream_iff

lemma handler_simps [simp]:
  "reraise_exception e = Reraise" "ignore_and_continue e = Continue"
  "warn_and_continue e = Continue" "ignore_and_stop e = Stop" "warn_and_stop e = Stop"
  by (simp_all add: reraise_exception_def ignore_and_continue_def warn_and_continue_def
      ignore_and_stop_def warn_and_stop_def)

end
