(* ===== verification/Brace.thy ===== *)
theory Brace
  imports Errors
begin

text \<open>
  \<^verbatim>\<open>webdataset-core/src/braceexpand.rs\<close>: bash-style brace expansion.  The
  scanning loops keep the source's cursor variables (\<open>items\<close>, \<open>start\<close>, \<open>pos\<close>,
  \<open>depth\<close>); the mutual recursion of \<open>braceexpand\<close>, \<open>parse_expression\<close> and
  \<open>parse_sequence\<close> goes through a fuel argument that is the nesting depth, and
  \<open>braceexpand\<close> starts it above the length of the pattern, which is enough because
  every arm is shorter than the group it comes from.  The range loops are partial
  functions: \<open>None\<close> means that the loop does not return.
\<close>

type_synonym 'a run = "'a res option"

abbreviation backslash :: char where "backslash \<equiv> CHR 0x5C"

definition slice :: "'a list \<Rightarrow> nat \<Rightarrow> nat \<Rightarrow> 'a list" where
  "slice xs a b = take (b - a) (drop a xs)"

fun unescape :: "string \<Rightarrow> string" where
  "unescape [] = []"
| "unescape [c] = [c]"
| "unescape (c # d # cs) = (if c = backslash then d # unescape cs else c # unescape (d # cs))"

definition is_int :: "string \<Rightarrow> bool" where
  "is_int s =
     (let body = (case strip_prefix ''-'' s of Some b \<Rightarrow> b | None \<Rightarrow> s)
      in body \<noteq> [] \<and> list_all is_ascii_digit body)"

definition single_letter :: "string \<Rightarrow> char option" where
  "single_letter s =
     (case s of [c] \<Rightarrow> if is_ascii_alphabetic c then Some c else None | _ \<Rightarrow> None)"

definition split_range :: "string \<Rightarrow> (string \<times> string \<times> string option) option" where
  "split_range s =
     (case split_on ''..'' s of
        [l, r] \<Rightarrow> Some (l, r, None)
      | [l, r, t] \<Rightarrow> Some (l, r, Some t)
      | _ \<Rightarrow> None)"

definition fits :: "nat \<Rightarrow> int \<Rightarrow> bool" where
  "fits w x = (- (2 ^ (w - 1)) \<le> x \<and> x < 2 ^ (w - 1))"

definition as_i32 :: "nat \<Rightarrow> int" where
  "as_i32 n = (let m = n mod 2 ^ 32 in if m < 2 ^ 31 then int m else int m - 2 ^ 32)"

text \<open>UTF-8 of a scalar value; \<^verbatim>\<open>char::from_u32\<close> fails on surrogates and beyond the range.\<close>
definition utf8_encode :: "nat \<Rightarrow> string" where
  "utf8_encode n =
     (if n < 0x80 then [char_of n]
      else if n < 0x800 then [char_of (0xC0 + n div 64), char_of (0x80 + n mod 64)]
      else if n < 0x10000 then
        [char_of (0xE0 + n div 4096), char_of (0x80 + n div 64 mod 64), char_of (0x80 + n mod 64)]
      else [char_of (0xF0 + n div 262144), char_of (0x80 + n div 4096 mod 64),
            char_of (0x80 + n div 64 mod 64), char_of (0x80 + n mod 64)])"

definition char_at :: "int \<Rightarrow> string" where
  "char_at code =
     (let n = nat (code mod 2 ^ 32) in
      if n \<le> 0x10FFFF \<and> \<not> (0xD800 \<le> n \<and> n \<le> 0xDFFF) then utf8_encode n else [])"

definition pad :: "nat \<Rightarrow> int \<Rightarrow> string res" where
  "pad width v =
     (if width = 0 then Inr (show_int v)
      else if v < 0 then
        (if fits 64 (- v) then Inr (CHR ''-'' # pad_left CHR ''0'' (width - 1) (show_nat (nat (- v))))
         else Inl (Panic ''attempt to negate with overflow''))
      else Inr (pad_left CHR ''0'' width (show_nat (nat v))))"

partial_function (option) loop_up ::
  "nat \<Rightarrow> (int \<Rightarrow> string res) \<Rightarrow> int \<Rightarrow> int \<Rightarrow> int \<Rightarrow> string list run" where
  "loop_up w f i e s =
     (if i \<le> e then
        (case f i of
           Inl x \<Rightarrow> Some (Inl x)
         | Inr y \<Rightarrow>
             if fits w (i + s)
             then Option.bind (loop_up w f (i + s) e s) (\<lambda>r. Some (map_res ((#) y) r))
             else Some (Inl (Panic ''attempt to add with overflow'')))
      else Some (Inr []))"

partial_function (option) loop_down ::
  "nat \<Rightarrow> (int \<Rightarrow> string res) \<Rightarrow> int \<Rightarrow> int \<Rightarrow> int \<Rightarrow> string list run" where
  "loop_down w f i e s =
     (if e \<le> i then
        (case f i of
           Inl x \<Rightarrow> Some (Inl x)
         | Inr y \<Rightarrow>
             if fits w (i - s)
             then Option.bind (loop_down w f (i - s) e s) (\<lambda>r. Some (map_res ((#) y) r))
             else Some (Inl (Panic ''attempt to subtract with overflow'')))
      else Some (Inr []))"

declare loop_up.simps [code] loop_down.simps [code]

definition minus_char :: "char \<Rightarrow> bool" where "minus_char c = (c = CHR ''-'')"

definition int_step :: "string option \<Rightarrow> int res" where
  "int_step step =
     (case step of
        None \<Rightarrow> Inr 1
      | Some s \<Rightarrow>
          (case parse_int 64 (trim_start_matches minus_char s) of
             None \<Rightarrow> Inl (Format ''bad step'')
           | Some k \<Rightarrow> Inr (if k = 0 then 1 else k)))"

definition zero_padded :: "string \<Rightarrow> bool" where
  "zero_padded s =
     (s \<noteq> ''0'' \<and> s \<noteq> ''-0'' \<and> (starts_with ''0'' s \<or> starts_with ''-0'' s))"

definition parse_int_range :: "string \<Rightarrow> string list option run" where
  "parse_int_range expr =
     (case split_range expr of
        None \<Rightarrow> Some (Inr None)
      | Some (left, right, step) \<Rightarrow>
          if \<not> is_int left \<or> \<not> is_int right then Some (Inr None)
          else
            (case int_step step of
               Inl e \<Rightarrow> Some (Inl e)
             | Inr k \<Rightarrow>
                 (let width = (if zero_padded left \<or> zero_padded right
                               then max (length left) (length right) else 0)
                  in case parse_int 64 left of
                       None \<Rightarrow> Some (Inl (Format ''bad range start''))
                     | Some a \<Rightarrow>
                         (case parse_int 64 right of
                            None \<Rightarrow> Some (Inl (Format ''bad range end''))
                          | Some b \<Rightarrow>
                              map_option (map_res Some)
                                (if a \<le> b then loop_up 64 (pad width) a b k
                                 else loop_down 64 (pad width) a b k)))))"

definition char_step :: "string option \<Rightarrow> nat res" where
  "char_step step =
     (case step of
        None \<Rightarrow> Inr 1
      | Some s \<Rightarrow>
          (case parse_uint 64 10 (trim_start_matches minus_char s) of
             None \<Rightarrow> Inl (Format ''bad step'')
           | Some k \<Rightarrow> Inr (if k = 0 then 1 else k)))"

definition parse_char_range :: "string \<Rightarrow> string list option run" where
  "parse_char_range expr =
     (case split_range expr of
        None \<Rightarrow> Some (Inr None)
      | Some (left, right, step) \<Rightarrow>
          (case (single_letter left, single_letter right) of
             (Some lc, Some rc) \<Rightarrow>
               (case char_step step of
                  Inl e \<Rightarrow> Some (Inl e)
                | Inr k \<Rightarrow>
                    (let i = int (of_char lc :: nat); e = int (of_char rc :: nat); s = as_i32 k
                     in map_option (map_res Some)
                          (if i \<le> e then loop_up 32 (\<lambda>c. Inr (char_at c)) i e s
                           else loop_down 32 (\<lambda>c. Inr (char_at c)) i e s)))
           | _ \<Rightarrow> Some (Inr None)))"

text \<open>The loop of \<^verbatim>\<open>parse_sequence\<close>: the parts found, the start of the last one, the depth.\<close>
function sequence_loop ::
  "string \<Rightarrow> string list \<Rightarrow> nat \<Rightarrow> nat \<Rightarrow> int \<Rightarrow> string list \<times> nat \<times> int" where
  "sequence_loop seq parts start pos depth =
     (if pos < length seq then
        (let c = seq ! pos in
         if c = backslash then sequence_loop seq parts start (pos + 2) depth
         else if c = CHR ''{'' then sequence_loop seq parts start (pos + 1) (depth + 1)
         else if c = CHR ''}'' then sequence_loop seq parts start (pos + 1) (depth - 1)
         else if c = CHR '','' \<and> depth = 0 then
           sequence_loop seq (parts @ [slice seq start pos]) (pos + 1) (pos + 1) depth
         else sequence_loop seq parts start (pos + 1) depth)
      else (parts, start, depth))"
  by pat_completeness auto
termination
  by (relation "measure (\<lambda>(seq, parts, start, pos, depth). length seq - pos)") auto

declare sequence_loop.simps [simp del]

definition unbalanced :: error where "unbalanced = Format ''unbalanced braces''"

text \<open>Expand the parts in turn and concatenate; the first failure ends the loop.\<close>
fun expand_parts :: "(string \<Rightarrow> string list run) \<Rightarrow> string list \<Rightarrow> string list run" where
  "expand_parts be [] = Some (Inr [])"
| "expand_parts be (p # ps) =
     (case be p of
        None \<Rightarrow> None
      | Some (Inl e) \<Rightarrow> Some (Inl e)
      | Some (Inr xs) \<Rightarrow> map_option (map_res ((@) xs)) (expand_parts be ps))"

definition parse_sequence :: "(string \<Rightarrow> string list run) \<Rightarrow> string \<Rightarrow> string list option run" where
  "parse_sequence be seq =
     (case sequence_loop seq [] 0 0 0 of
        (parts, start, depth) \<Rightarrow>
          if depth \<noteq> 0 then Some (Inl unbalanced)
          else if parts = [] then Some (Inr None)
          else map_option (map_res Some) (expand_parts be (parts @ [drop start seq])))"

definition parse_expression :: "(string \<Rightarrow> string list run) \<Rightarrow> string \<Rightarrow> string list option run" where
  "parse_expression be expr =
     (case parse_int_range expr of
        Some (Inr None) \<Rightarrow>
          (case parse_char_range expr of
             Some (Inr None) \<Rightarrow> parse_sequence be expr
           | r \<Rightarrow> r)
      | r \<Rightarrow> r)"

function pattern_loop ::
  "(string \<Rightarrow> string list option run) \<Rightarrow> string \<Rightarrow> string list list \<Rightarrow> nat \<Rightarrow> nat \<Rightarrow> nat
    \<Rightarrow> string list list run" where
  "pattern_loop pe p items start pos depth =
     (if pos < length p then
        (let c = p ! pos in
         if c = backslash then pattern_loop pe p items start (pos + 2) depth
         else if c = CHR ''{'' then
           (if depth = 0 \<and> start < pos
            then pattern_loop pe p (items @ [[unescape (slice p start pos)]]) pos (pos + 1) (depth + 1)
            else pattern_loop pe p items start (pos + 1) (depth + 1))
         else if c = CHR ''}'' then
           (if depth = 0 then Some (Inl unbalanced)
            else if depth = 1 then
              (case pe (slice p (start + 1) pos) of
                 None \<Rightarrow> None
               | Some (Inl e) \<Rightarrow> Some (Inl e)
               | Some (Inr (Some expansion)) \<Rightarrow>
                   pattern_loop pe p (items @ [expansion]) (pos + 1) (pos + 1) 0
               | Some (Inr None) \<Rightarrow> pattern_loop pe p items start (pos + 1) 0)
            else pattern_loop pe p items start (pos + 1) (depth - 1))
         else pattern_loop pe p items start (pos + 1) depth)
      else if depth \<noteq> 0 then Some (Inl unbalanced)
      else
        (let items = (if start < length p then items @ [[unescape (drop start p)]] else items)
         in Some (Inr (if items = [] then [[[]]] else items))))"
  by pat_completeness auto
termination
  by (relation "measure (\<lambda>(pe, p, items, start, pos, depth). length p - pos)") auto

declare pattern_loop.simps [simp del]

definition parse_pattern :: "(string \<Rightarrow> string list run) \<Rightarrow> string \<Rightarrow> string list list run" where
  "parse_pattern be p = pattern_loop (parse_expression be) p [] 0 0 0"

definition combine :: "string list list \<Rightarrow> string list" where
  "combine groups =
     foldl (\<lambda>out group. concat (map (\<lambda>prefix. map (\<lambda>item. prefix @ item) group) out)) [[]] groups"

fun braceexpand_n :: "nat \<Rightarrow> string \<Rightarrow> string list run" where
  "braceexpand_n 0 p = None"
| "braceexpand_n (Suc n) p =
     map_option (map_res combine) (parse_pattern (braceexpand_n n) p)"

definition braceexpand :: "string \<Rightarrow> string list run" where
  "braceexpand p = braceexpand_n (Suc (length p)) p"

definition braceexpand_all :: "string list \<Rightarrow> string list run" where
  "braceexpand_all ps = expand_parts braceexpand ps"

section \<open>The loops return\<close>

lemma loop_up_returns: "0 < s \<Longrightarrow> \<exists>r. loop_up w f i e s = Some r"
proof (induction "nat (e - i + 1)" arbitrary: i rule: less_induct)
  case less
  show ?case
  proof (cases "i \<le> e \<and> fits w (i + s)")
    case True
    then obtain r where "loop_up w f (i + s) e s = Some r"
      using less.hyps [of "i + s"] less.prems by auto
    with True show ?thesis
      by (subst loop_up.simps) (auto split: sum.splits)
  next
    case False
    then show ?thesis
      by (subst loop_up.simps) (auto split: sum.splits)
  qed
qed

lemma loop_down_returns: "0 < s \<Longrightarrow> \<exists>r. loop_down w f i e s = Some r"
proof (induction "nat (i - e + 1)" arbitrary: i rule: less_induct)
  case less
  show ?case
  proof (cases "e \<le> i \<and> fits w (i - s)")
    case True
    then obtain r where "loop_down w f (i - s) e s = Some r"
      using less.hyps [of "i - s"] less.prems by auto
    with True show ?thesis
      by (subst loop_down.simps) (auto split: sum.splits)
  next
    case False
    then show ?thesis
      by (subst loop_down.simps) (auto split: sum.splits)
  qed
qed

lemma loop_up_zero_Some:
  assumes "loop_up w f i e s = Some r"
  shows "(\<forall>c. \<exists>y. f c = Inr y) \<longrightarrow> s = 0 \<longrightarrow> i \<le> e \<longrightarrow> \<not> fits w i"
proof (rule loop_up.raw_induct [OF _ assms], goal_cases)
  case (1 loop w f i e s r)
  show ?case
  proof (intro impI)
    assume *: "\<forall>c. \<exists>y. f c = Inr y" "s = 0" "i \<le> e"
    then obtain y where "f i = Inr y" by blast
    with 1 * show "\<not> fits w i"
      by (auto simp: bind_eq_Some_conv split: if_splits)
  qed
qed

lemma loop_up_zero_diverges:
  "(\<And>c. \<exists>y. f c = Inr y) \<Longrightarrow> i \<le> e \<Longrightarrow> fits w i \<Longrightarrow> loop_up w f i e 0 = None"
  using loop_up_zero_Some by (metis option.exhaust)

lemma loop_up_ones:
  assumes "\<And>i. a \<le> i \<Longrightarrow> i \<le> b \<Longrightarrow> f i = Inr (g i)"
    and "\<And>i. a \<le> i \<Longrightarrow> i \<le> b \<Longrightarrow> fits w (i + 1)"
  shows "loop_up w f a b 1 = Some (Inr (map g [a..b]))"
  using assms
proof (induction "nat (b - a + 1)" arbitrary: a rule: less_induct)
  case less
  show ?case
  proof (cases "a \<le> b")
    case True
    have "loop_up w f (a + 1) b 1 = Some (Inr (map g [a + 1..b]))"
      using True less.prems by (intro less.hyps) auto
    with True less.prems show ?thesis
      by (subst loop_up.simps) (simp add: upto.simps [of a])
  next
    case False
    then show ?thesis by (subst loop_up.simps) simp
  qed
qed

lemma int_step_pos: "int_step st = Inr k \<Longrightarrow> k \<noteq> 0"
  by (auto simp: int_step_def split: option.splits if_splits)

lemma trim_start_matches_hd: "trim_start_matches P s = c # cs \<Longrightarrow> \<not> P c"
  unfolding trim_start_matches_def by (metis hd_dropWhile list.sel(1) list.simps(3))

lemma int_step_nonneg: "int_step st = Inr k \<Longrightarrow> 0 < k"
proof -
  assume *: "int_step st = Inr k"
  have "0 \<le> n" if "parse_int 64 (trim_start_matches minus_char s) = Some n" for s n
    using that trim_start_matches_hd [of minus_char s]
    by (cases "trim_start_matches minus_char s")
       (auto simp: parse_int_def minus_char_def split: if_splits option.splits)
  then have "0 \<le> k"
    using * by (fastforce simp: int_step_def split: option.splits if_splits)
  with int_step_pos [OF *] show ?thesis by simp
qed

text \<open>Integer ranges always return, whatever the step.\<close>

lemma parse_int_range_returns: "\<exists>r. parse_int_range e = Some r"
  using loop_up_returns loop_down_returns int_step_nonneg
  by (auto simp: parse_int_range_def Let_def split: option.splits sum.splits prod.splits)

section \<open>Fuel\<close>

lemma expand_parts_cong:
  "(\<And>p. p \<in> set ps \<Longrightarrow> f p = g p) \<Longrightarrow> expand_parts f ps = expand_parts g ps"
  by (induction ps) (auto split: option.splits sum.splits)

lemma length_slice_le: "length (slice xs a b) \<le> length xs"
  by (simp add: slice_def)

lemma sequence_loop_parts_le:
  "\<forall>p\<in>set parts. length p \<le> length seq \<Longrightarrow>
   \<forall>p\<in>set (fst (sequence_loop seq parts start pos depth)). length p \<le> length seq"
proof (induction seq parts start pos depth rule: sequence_loop.induct)
  case (1 seq parts start pos depth)
  then show ?case
    by (subst sequence_loop.simps) (simp add: Let_def length_slice_le)
qed

lemma parse_sequence_cong:
  assumes "\<And>p. length p \<le> length seq \<Longrightarrow> f p = g p"
  shows "parse_sequence f seq = parse_sequence g seq"
proof -
  obtain parts start depth where s: "sequence_loop seq [] 0 0 0 = (parts, start, depth)"
    using prod_cases3 by blast
  have "expand_parts f (parts @ [drop start seq]) = expand_parts g (parts @ [drop start seq])"
    using sequence_loop_parts_le [of "[]" seq 0 0 0] s by (intro expand_parts_cong) (auto intro!: assms)
  then show ?thesis by (simp add: parse_sequence_def s)
qed

lemma parse_expression_cong:
  "(\<And>p. length p \<le> length e \<Longrightarrow> f p = g p) \<Longrightarrow> parse_expression f e = parse_expression g e"
  by (simp add: parse_expression_def parse_sequence_cong [of e f g] split: option.splits sum.splits)

lemma pattern_loop_escape:
  "pos < length p \<Longrightarrow> p ! pos = backslash \<Longrightarrow>
   pattern_loop pe p items start pos depth = pattern_loop pe p items start (pos + 2) depth"
  by (subst pattern_loop.simps) simp

lemma pattern_loop_open:
  "pos < length p \<Longrightarrow> p ! pos = CHR ''{'' \<Longrightarrow>
   pattern_loop pe p items start pos depth =
     (if depth = 0 \<and> start < pos
      then pattern_loop pe p (items @ [[unescape (slice p start pos)]]) pos (Suc pos) 1
      else pattern_loop pe p items start (Suc pos) (Suc depth))"
  by (subst pattern_loop.simps) simp

lemma pattern_loop_close_0:
  "pos < length p \<Longrightarrow> p ! pos = CHR ''}'' \<Longrightarrow>
   pattern_loop pe p items start pos 0 = Some (Inl unbalanced)"
  by (subst pattern_loop.simps) simp

lemma pattern_loop_close_1:
  "pos < length p \<Longrightarrow> p ! pos = CHR ''}'' \<Longrightarrow>
   pattern_loop pe p items start pos (Suc 0) =
     (case pe (slice p (Suc start) pos) of
        None \<Rightarrow> None
      | Some (Inl e) \<Rightarrow> Some (Inl e)
      | Some (Inr (Some x)) \<Rightarrow> pattern_loop pe p (items @ [x]) (Suc pos) (Suc pos) 0
      | Some (Inr None) \<Rightarrow> pattern_loop pe p items start (Suc pos) 0)"
  by (subst pattern_loop.simps) (simp split: option.split sum.split)

lemma pattern_loop_close_2:
  "pos < length p \<Longrightarrow> p ! pos = CHR ''}'' \<Longrightarrow>
   pattern_loop pe p items start pos (Suc (Suc d)) = pattern_loop pe p items start (Suc pos) (Suc d)"
  by (subst pattern_loop.simps) simp

lemma pattern_loop_other:
  "pos < length p \<Longrightarrow> p ! pos \<notin> {backslash, CHR ''{'', CHR ''}''} \<Longrightarrow>
   pattern_loop pe p items start pos depth = pattern_loop pe p items start (Suc pos) depth"
  by (subst pattern_loop.simps) simp

lemma pattern_loop_end:
  "length p \<le> pos \<Longrightarrow> pattern_loop pe p items start pos depth =
     (if depth \<noteq> 0 then Some (Inl unbalanced)
      else
        (let items = (if start < length p then items @ [[unescape (drop start p)]] else items)
         in Some (Inr (if items = [] then [[[]]] else items))))"
  by (subst pattern_loop.simps) simp

lemmas pattern_loop_steps = pattern_loop_escape pattern_loop_open pattern_loop_close_0
  pattern_loop_close_1 pattern_loop_close_2 pattern_loop_other

lemma pattern_loop_cong:
  assumes fg: "\<And>e. length e < length p \<Longrightarrow> f e = g e"
  shows "pattern_loop f p items start pos depth = pattern_loop g p items start pos depth"
proof (induction "length p - pos" arbitrary: items start pos depth rule: less_induct)
  case less
  have IH: "pos < length p \<Longrightarrow> pos < pos' \<Longrightarrow>
      pattern_loop f p items start pos' depth = pattern_loop g p items start pos' depth"
    for items start pos' depth
    by (rule less) simp
  have sl: "pos < length p \<Longrightarrow> f (slice p (Suc start) pos) = g (slice p (Suc start) pos)"
    by (rule fg) (auto simp: slice_def)
  consider "length p \<le> pos" | "pos < length p" "p ! pos = backslash"
    | "pos < length p" "p ! pos = CHR ''{''"
    | "pos < length p" "p ! pos = CHR ''}''" "depth = 0"
    | "pos < length p" "p ! pos = CHR ''}''" "depth = Suc 0"
    | d where "pos < length p" "p ! pos = CHR ''}''" "depth = Suc (Suc d)"
    | "pos < length p" "p ! pos \<notin> {backslash, CHR ''{'', CHR ''}''}"
    by (cases "depth"; cases "depth - 1") (auto simp: not_less [symmetric])
  then show ?case
    by cases (simp_all add: pattern_loop_steps pattern_loop_end IH sl split: option.split sum.split)
qed

lemma braceexpand_n_fuel:
  "length p < n \<Longrightarrow> length p < m \<Longrightarrow> braceexpand_n n p = braceexpand_n m p"
proof (induction n arbitrary: m p)
  case (Suc n)
  then obtain m' where m: "m = Suc m'" by (cases m) auto
  have "parse_pattern (braceexpand_n n) p = parse_pattern (braceexpand_n m') p"
    unfolding parse_pattern_def
    using Suc m by (intro pattern_loop_cong parse_expression_cong) auto
  then show ?case by (simp add: m)
qed simp

lemma braceexpand_unfold:
  "braceexpand p = map_option (map_res combine) (parse_pattern braceexpand p)"
proof -
  have "parse_pattern (braceexpand_n (length p)) p = parse_pattern braceexpand p"
    unfolding parse_pattern_def braceexpand_def
    by (intro pattern_loop_cong parse_expression_cong braceexpand_n_fuel) auto
  then show ?thesis by (simp add: braceexpand_def)
qed

end
