(* ===== verification/Brace_Spec.thy ===== *)
theory Brace_Spec
  imports Brace
begin

text \<open>
  The abstract specification of brace expansion: patterns as syntax trees of
  literals, alternations and padded integer ranges, with the list of strings a
  tree denotes.  The theorem at the end says that the character scanner of
  \<^verbatim>\<open>braceexpand.rs\<close>, run on the text of any well-formed tree, returns exactly
  what the tree denotes.
\<close>

datatype item = Lit string | Alt "item list list" | Range nat nat nat

fun show_item :: "item \<Rightarrow> string" where
  "show_item (Lit s) = s"
| "show_item (Alt ws) =
     ''{'' @ join_with '','' (map (\<lambda>w. concat (map show_item w)) ws) @ ''}''"
| "show_item (Range a b w) =
     ''{'' @ pad_left CHR ''0'' w (show_nat a) @ ''..'' @ pad_left CHR ''0'' w (show_nat b) @ ''}''"

definition show_word :: "item list \<Rightarrow> string" where
  "show_word w = concat (map show_item w)"

fun denote_item :: "item \<Rightarrow> string list" where
  "denote_item (Lit s) = [s]"
| "denote_item (Alt ws) = concat (map (\<lambda>w. combine (map denote_item w)) ws)"
| "denote_item (Range a b w) = map (\<lambda>i. pad_left CHR ''0'' w (show_nat i)) [a..<Suc b]"

definition denote :: "item list \<Rightarrow> string list" where
  "denote w = combine (map denote_item w)"

definition plain :: "char \<Rightarrow> bool" where
  "plain c = (c \<noteq> backslash \<and> c \<noteq> CHR ''{'' \<and> c \<noteq> CHR ''}'' \<and> c \<noteq> CHR '','')"

text \<open>
  Well-formed: literals hold no special character; an alternation has at least
  two arms and its text no \<^verbatim>\<open>..\<close> (which would make it a candidate range); a
  range is increasing, below the largest \<^verbatim>\<open>i64\<close>, and its width, when there
  is one, fits its upper end.
\<close>
fun wf_item :: "item \<Rightarrow> bool" where
  "wf_item (Lit s) = list_all plain s"
| "wf_item (Alt ws) =
     (2 \<le> length ws \<and> list_all (list_all wf_item) ws \<and>
      \<not> contains_sub ''..'' (join_with '','' (map (\<lambda>w. concat (map show_item w)) ws)))"
| "wf_item (Range a b w) =
     (a \<le> b \<and> b < 2 ^ 63 - 1 \<and> (w = 0 \<or> length (show_nat b) \<le> w))"

definition wf_word :: "item list \<Rightarrow> bool" where
  "wf_word = list_all wf_item"

section \<open>Balanced text\<close>

text \<open>
  The depth after a text without backslashes, \<open>None\<close> when it closes too much or,
  with the flag, when a comma stands outside all braces.
\<close>
fun depth_after :: "bool \<Rightarrow> nat \<Rightarrow> string \<Rightarrow> nat option" where
  "depth_after cm d [] = Some d"
| "depth_after cm d (c # cs) =
     (if c = backslash then None
      else if c = CHR ''{'' then depth_after cm (Suc d) cs
      else if c = CHR ''}'' then (case d of 0 \<Rightarrow> None | Suc e \<Rightarrow> depth_after cm e cs)
      else if c = CHR '','' \<and> d = 0 \<and> cm then None
      else depth_after cm d cs)"

definition balanced :: "bool \<Rightarrow> string \<Rightarrow> bool" where
  "balanced cm s = (depth_after cm 0 s = Some 0)"

lemma depth_after_append:
  "depth_after cm d (a @ b) =
     (case depth_after cm d a of None \<Rightarrow> None | Some e \<Rightarrow> depth_after cm e b)"
  by (induction cm d a rule: depth_after.induct) (auto split: nat.splits)

lemma depth_after_inside:
  "depth_after cm d s = Some e \<Longrightarrow> depth_after cm' (Suc d) s = Some (Suc e)"
  by (induction cm d s rule: depth_after.induct) (auto split: if_splits nat.splits)

lemma depth_after_weaken: "depth_after True d s = Some e \<Longrightarrow> depth_after cm d s = Some e"
  by (induction cm d s rule: depth_after.induct) (simp_all split: if_split_asm nat.split_asm)

lemma balanced_weaken: "balanced True s \<Longrightarrow> balanced cm s"
  unfolding balanced_def by (rule depth_after_weaken)

lemma balanced_append: "balanced cm a \<Longrightarrow> balanced cm b \<Longrightarrow> balanced cm (a @ b)"
  by (simp add: balanced_def depth_after_append)

lemma balanced_Nil [simp]: "balanced cm []"
  by (simp add: balanced_def)

lemma balanced_concat: "(\<And>x. x \<in> set xs \<Longrightarrow> balanced cm x) \<Longrightarrow> balanced cm (concat xs)"
  by (induction xs) (auto intro: balanced_append)

lemma balanced_plain: "list_all plain s \<Longrightarrow> balanced cm s"
  by (induction s) (auto simp: balanced_def plain_def)

lemma balanced_punct: "balanced False '','' \<and> balanced cm ''..''"
  by (simp add: balanced_def)

lemma balanced_join:
  "(\<And>x. x \<in> set xs \<Longrightarrow> balanced False x) \<Longrightarrow> balanced False (join_with '','' xs)"
proof (induction "'','' :: string" xs rule: join_with.induct)
  case (3 x y ys)
  then show ?case
    using balanced_append [of False x "'','' @ join_with '','' (y # ys)"]
      balanced_append [of False "'',''" "join_with '','' (y # ys)"] balanced_punct by simp
qed auto

lemma balanced_brace: "balanced cm s \<Longrightarrow> balanced cm' (''{'' @ s @ ''}'')"
  using depth_after_inside [of cm 0 s 0 cm']
  by (simp add: balanced_def depth_after_append)

lemma is_ascii_digit_plain: "is_ascii_digit c \<Longrightarrow> plain c \<and> c \<noteq> CHR ''.'' \<and> c \<noteq> CHR ''-''"
  by (auto simp: is_ascii_digit_def plain_def Let_def)

lemma padded_digits: "list_all is_ascii_digit (pad_left CHR ''0'' w (show_nat n))"
proof -
  have "is_ascii_digit CHR ''0''" by (simp add: is_ascii_digit_def)
  with show_nat_digits [of n] show ?thesis
    by (auto simp: pad_left_def list_all_iff)
qed

lemma balanced_digits: "list_all is_ascii_digit s \<Longrightarrow> balanced cm s"
  by (rule balanced_plain) (metis is_ascii_digit_plain list.pred_mono_strong)

lemma balanced_show_item: "wf_item i \<Longrightarrow> balanced cm (show_item i)"
proof (induction i arbitrary: cm rule: show_item.induct)
  case (1 s)
  then show ?case by (simp add: balanced_plain)
next
  case (2 ws)
  then have "balanced False (join_with '','' (map (\<lambda>w. concat (map show_item w)) ws))"
    by (auto intro!: balanced_join balanced_concat simp: list_all_iff)
  from balanced_brace [OF this] show ?case by simp
next
  case (3 a b w)
  have "balanced cm (pad_left CHR ''0'' w (show_nat a) @ ''..'' @ pad_left CHR ''0'' w (show_nat b))"
    by (intro balanced_punct [THEN conjunct2] balanced_append balanced_digits padded_digits)
  from balanced_brace [OF this] show ?case by simp
qed

lemma balanced_show_word: "wf_word w \<Longrightarrow> balanced cm (show_word w)"
  by (auto simp: wf_word_def show_word_def list_all_iff intro!: balanced_concat balanced_show_item)

section \<open>The scanning loops over balanced text\<close>

lemma nth_mid: "p = a @ c # b \<Longrightarrow> length a < length p \<and> p ! length a = c"
  by simp

lemma pattern_loop_inside:
  "depth_after cm d t = Some e \<Longrightarrow> p = a @ t @ b \<Longrightarrow>
   pattern_loop pe p items start (length a) (Suc d) =
   pattern_loop pe p items start (length a + length t) (Suc e)"
proof (induction t arbitrary: a d)
  case (Cons c cs)
  have p: "length a < length p" "p ! length a = c" using nth_mid Cons.prems(2) by auto
  have nxt: "depth_after cm d' cs = Some e \<Longrightarrow>
      pattern_loop pe p items start (Suc (length a)) (Suc d') =
      pattern_loop pe p items start (length a + length (c # cs)) (Suc e)" for d'
    using Cons.IH [of d' "a @ [c]"] Cons.prems(2) by simp
  from Cons.prems(1) show ?case
    using p nxt
    by (auto simp: pattern_loop_steps split: if_splits nat.splits)
qed simp

lemma sequence_loop_inside:
  "depth_after True d t = Some e \<Longrightarrow> seq = a @ t @ b \<Longrightarrow>
   sequence_loop seq parts start (length a) (int d) =
   sequence_loop seq parts start (length a + length t) (int e)"
proof (induction t arbitrary: a d)
  case (Cons c cs)
  have p: "length a < length seq" "seq ! length a = c" using nth_mid Cons.prems(2) by auto
  have nxt: "depth_after True d' cs = Some e \<Longrightarrow>
      sequence_loop seq parts start (Suc (length a)) (int d') =
      sequence_loop seq parts start (length a + length (c # cs)) (int e)" for d'
    using Cons.IH [of d' "a @ [c]"] Cons.prems(2) by simp
  from Cons.prems(1) show ?case
    using p nxt [of d] nxt [of "Suc d"] nxt [of "d - 1"]
    by (subst sequence_loop.simps) (auto simp: ac_simps split: if_splits nat.splits)
qed simp

lemma sequence_loop_arms:
  "(\<And>x. x \<in> set xs \<Longrightarrow> balanced True x) \<Longrightarrow> xs \<noteq> [] \<Longrightarrow> seq = u @ join_with '','' xs \<Longrightarrow>
   sequence_loop seq parts (length u) (length u) 0 =
     (parts @ butlast xs, length seq - length (last xs), 0)"
proof (induction "'','' :: string" xs arbitrary: u parts rule: join_with.induct)
  case (2 x)
  then have "sequence_loop seq parts (length u) (length u) 0 =
      sequence_loop seq parts (length u) (length u + length x) 0"
    using sequence_loop_inside [of 0 x 0 seq u "[]"] by (simp add: balanced_def)
  also have "... = (parts, length u, 0)"
    using 2 by (subst sequence_loop.simps) simp
  finally show ?case using 2 by simp
next
  case (3 x y ys)
  let ?rest = "join_with '','' (y # ys)"
  have seq: "seq = u @ x @ '','' @ ?rest" using 3 by simp
  have "sequence_loop seq parts (length u) (length u) 0 =
      sequence_loop seq parts (length u) (length u + length x) 0"
    using sequence_loop_inside [of 0 x 0 seq u] 3(2) seq by (simp add: balanced_def)
  also have "... = sequence_loop seq (parts @ [x]) (Suc (length u + length x))
      (Suc (length u + length x)) 0"
    using nth_mid [of seq "u @ x" "CHR '',''"] seq
    by (subst sequence_loop.simps) (simp add: slice_def Let_def)
  also have "... = ((parts @ [x]) @ butlast (y # ys), length seq - length (last (y # ys)), 0)"
    using 3(1) [of "u @ x @ '',''" "parts @ [x]"] 3(2) seq by simp
  finally show ?case by simp
qed simp

section \<open>The text of one group\<close>

lemma split_range_None: "\<not> contains_sub ''..'' s \<Longrightarrow> split_range s = None"
  by (simp add: split_range_def contains_sub_def split_on.simps [of "''..''" s])

lemma find_sub_dots:
  "CHR ''.'' \<notin> set x \<Longrightarrow> find_sub ''..'' (x @ ''..'' @ y) = Some (length x)"
  by (induction x) (auto simp: starts_with_prefix)

lemma find_sub_dots_None: "CHR ''.'' \<notin> set y \<Longrightarrow> find_sub ''..'' y = None"
  by (induction y) (auto simp: starts_with_prefix)

lemma split_range_dots:
  assumes "CHR ''.'' \<notin> set x" "CHR ''.'' \<notin> set y"
  shows "split_range (x @ ''..'' @ y) = Some (x, y, None)"
proof -
  have "split_on ''..'' y = [y]"
    by (subst split_on.simps) (simp add: find_sub_dots_None assms)
  then have "split_on ''..'' (x @ ''..'' @ y) = [x, y]"
    by (subst split_on.simps) (simp add: find_sub_dots [OF assms(1), simplified])
  then show ?thesis by (simp add: split_range_def)
qed

lemma strip_prefix_digits: "list_all is_ascii_digit x \<Longrightarrow> strip_prefix ''-'' x = None"
  by (cases x) (auto dest: is_ascii_digit_plain)

lemma is_int_digits: "list_all is_ascii_digit x \<Longrightarrow> x \<noteq> [] \<Longrightarrow> is_int x"
  by (simp add: is_int_def strip_prefix_digits)

lemma digit_not_sign: "is_ascii_digit c \<Longrightarrow> c \<noteq> CHR ''+'' \<and> c \<noteq> CHR ''-''"
  by (auto simp: is_ascii_digit_def)

lemma pad_left_not_Nil [simp]: "pad_left c w (show_nat n) \<noteq> []"
  by (simp add: pad_left_def)

lemma parse_int_padded:
  assumes "n < 2 ^ 63"
  shows "parse_int 64 (pad_left CHR ''0'' w (show_nat n)) = Some (int n)"
proof (cases "pad_left CHR ''0'' w (show_nat n)")
  case (Cons c cs)
  moreover have "is_ascii_digit c" using padded_digits [of w n] Cons by simp
  moreover have "parse_digits 10 (c # cs) = Some n" using parse_digits_pad_zero Cons by metis
  ultimately show ?thesis using assms digit_not_sign [of c] by (simp add: parse_int_def)
qed simp

lemma digit_char_zero: "d < 10 \<Longrightarrow> digit_char d = CHR ''0'' \<Longrightarrow> d = 0"
  using of_char_digit_char [of d] by simp

lemma show_radix_hd_zero: "hd (show_radix 10 n) = CHR ''0'' \<Longrightarrow> n = 0"
proof (induction "10::nat" n rule: show_radix.induct)
  case (1 n)
  then show ?case
    using digit_char_zero [of n]
    by (subst (asm) (2) show_radix.simps) (auto split: if_splits)
qed

lemma show_nat_0: "show_nat 0 = ''0''"
  by code_simp

lemma not_zero_padded_show: "\<not> zero_padded (show_nat n)"
proof
  assume *: "zero_padded (show_nat n)"
  then have "hd (show_nat n) = CHR ''0'' \<or> hd (show_nat n) = CHR ''-''"
    by (auto simp: zero_padded_def starts_with_prefix prefix_def)
  then have "n = 0"
    using show_nat_hd_not_sign [of n] show_radix_hd_zero by (auto simp: show_nat_def)
  with * show False by (simp add: zero_padded_def show_nat_0)
qed

lemma zero_padded_iff:
  "length (show_nat a) < w \<Longrightarrow> zero_padded (pad_left CHR ''0'' w (show_nat a))"
  by (cases "w - length (show_nat a)")
     (auto simp: zero_padded_def pad_left_def starts_with_prefix)

lemma pad_left_id: "w \<le> length s \<Longrightarrow> pad_left c w s = s"
  by (simp add: pad_left_def)

text \<open>The width the source computes pads every number of the range as the tree does.\<close>

definition range_width :: "string \<Rightarrow> string \<Rightarrow> nat" where
  "range_width l r = (if zero_padded l \<or> zero_padded r then max (length l) (length r) else 0)"

lemma pad_range_width:
  assumes ab: "a \<le> i" "i \<le> b" and w: "w = 0 \<or> length (show_nat b) \<le> w"
  defines "s n \<equiv> pad_left CHR ''0'' w (show_nat n)"
  shows "pad (range_width (s a) (s b)) (int i) = Inr (s i)"
proof -
  have len: "length (show_nat a) \<le> length (show_nat i)" "length (show_nat i) \<le> length (show_nat b)"
    using ab by (simp_all add: show_nat_length_mono)
  have full: "w \<noteq> 0 \<Longrightarrow> length (s n) = w" if "n \<le> b" for n
    using w show_nat_length_mono [OF that] by (auto simp: s_def pad_left_def)
  show ?thesis
  proof (cases "zero_padded (s a) \<or> zero_padded (s b)")
    case True
    then have "w \<noteq> 0"
      using not_zero_padded_show by (metis pad_left_id le0 s_def)
    with True full ab show ?thesis
      by (simp add: range_width_def pad_def show_int_def) (simp add: s_def)
  next
    case False
    then have "w \<le> length (show_nat a)"
      using zero_padded_iff [of a w] by (auto simp: s_def not_less [symmetric])
    then have "s i = show_nat i" using len by (simp add: s_def pad_left_id)
    with False show ?thesis by (simp add: range_width_def pad_def show_int_def)
  qed
qed

lemma upto_of_nat: "map int [a..<Suc b] = [int a..int b]"
  by (rule nth_equalityI) (auto simp: nth_append not_less_eq simp del: upt_Suc)

lemma parse_expression_Range:
  assumes wf: "wf_item (Range a b w)"
  defines "s n \<equiv> pad_left CHR ''0'' w (show_nat n)"
  shows "parse_expression be (s a @ ''..'' @ s b) = Some (Inr (Some (denote_item (Range a b w))))"
proof -
  have bounds: "a \<le> b" "b < 2 ^ 63 - 1" "w = 0 \<or> length (show_nat b) \<le> w" using wf by auto
  have digits: "list_all is_ascii_digit (s n)" "s n \<noteq> []" for n by (simp_all add: s_def padded_digits)
  then have dot: "CHR ''.'' \<notin> set (s n)" for n
    using is_ascii_digit_plain by (fastforce simp: list_all_iff)
  let ?f = "pad (range_width (s a) (s b))"
  let ?g = "\<lambda>i. s (nat i)"
  have f: "?f i = Inr (?g i)" if "int a \<le> i" "i \<le> int b" for i
    using pad_range_width [of a "nat i" b w] that bounds by (simp add: s_def)
  have pi: "parse_int 64 (s a) = Some (int a)" "parse_int 64 (s b) = Some (int b)"
    using bounds by (simp_all add: s_def parse_int_padded)
  have "loop_up 64 ?f (int a) (int b) 1 = Some (Inr (map ?g [int a..int b]))"
    using f bounds by (intro loop_up_ones) (auto simp: fits_def)
  also have "map ?g [int a..int b] = denote_item (Range a b w)"
    by (simp add: s_def comp_def del: upt_Suc flip: upto_of_nat)
  finally have "parse_int_range (s a @ ''..'' @ s b) = Some (Inr (Some (denote_item (Range a b w))))"
    using bounds digits
    by (simp add: parse_int_range_def split_range_dots [OF dot dot, simplified] is_int_digits int_step_def
        pi Let_def flip: range_width_def)
  then show ?thesis by (simp add: parse_expression_def)
qed

lemma expand_parts_all:
  "(\<And>x. x \<in> set xs \<Longrightarrow> be x = Some (Inr (f x))) \<Longrightarrow>
   expand_parts be xs = Some (Inr (concat (map f xs)))"
  by (induction xs) auto

lemma suffix_join_last: "xs \<noteq> [] \<Longrightarrow> suffix (last xs) (join_with p xs)"
  by (induction p xs rule: join_with.induct) (auto simp: suffix_def)

lemma parse_expression_Alt:
  fixes ws :: "item list list"
  defines "t \<equiv> join_with '','' (map show_word ws)"
  assumes wf: "wf_item (Alt ws)"
    and be: "\<And>w. w \<in> set ws \<Longrightarrow> be (show_word w) = Some (Inr (denote w))"
  shows "parse_expression be t = Some (Inr (Some (denote_item (Alt ws))))"
proof -
  have len: "2 \<le> length ws" and wfs: "\<And>w. w \<in> set ws \<Longrightarrow> wf_word w"
    and no_dots: "\<not> contains_sub ''..'' t"
    using wf by (auto simp: list_all_iff wf_word_def t_def show_word_def [abs_def])
  let ?xs = "map show_word ws"
  have ne: "?xs \<noteq> []" "butlast ?xs \<noteq> []" using len by (cases ws; auto)+
  have "sequence_loop t [] 0 0 0 = (butlast ?xs, length t - length (last ?xs), 0)"
    using sequence_loop_arms [of ?xs t "[]" "[]"] ne(1) balanced_show_word wfs by (auto simp: t_def)
  moreover have "suffix (last ?xs) t"
    using ne(1) by (simp add: t_def suffix_join_last)
  then have "drop (length t - length (last ?xs)) t = last ?xs"
    by (auto simp: suffix_def)
  moreover have "expand_parts be ?xs = Some (Inr (concat (map denote ws)))"
    using be by (subst expand_parts_all [where f = "\<lambda>x. the (case the (be x) of Inr y \<Rightarrow> Some y | _ \<Rightarrow> None)"])
      (auto simp: comp_def intro!: arg_cong [where f = concat])
  ultimately have "parse_sequence be t = Some (Inr (Some (concat (map denote ws))))"
    using ne by (simp add: parse_sequence_def append_butlast_last_id)
  then show ?thesis
    by (simp add: parse_expression_def parse_int_range_def parse_char_range_def
        split_range_None [OF no_dots] denote_def [abs_def])
qed

section \<open>Products of groups\<close>

definition prod :: "string list \<Rightarrow> string list \<Rightarrow> string list" where
  "prod xs ys = concat (map (\<lambda>x. map (\<lambda>y. x @ y) ys) xs)"

lemma prod_unit [simp]: "prod [[]] ys = ys" "prod xs [[]] = xs"
  by (induction xs) (auto simp: prod_def map_idI)

lemma prod_append: "prod (xs @ xs') ys = prod xs ys @ prod xs' ys"
  by (simp add: prod_def)

lemma prod_assoc: "prod (prod xs ys) zs = prod xs (prod ys zs)"
proof (induction xs)
  case (Cons x xs)
  have "prod (map ((@) x) ys) zs = map ((@) x) (prod ys zs)"
    by (induction ys) (auto simp: prod_def comp_def)
  with Cons show ?case by (simp add: prod_def)
qed (simp add: prod_def)

lemma combine_foldl: "combine gs = foldl prod [[]] gs"
  by (simp add: combine_def prod_def [abs_def])

lemma foldl_prod: "foldl prod xs gs = prod xs (foldl prod [[]] gs)"
proof (induction gs arbitrary: xs)
  case (Cons g gs)
  then show ?case by (metis foldl_Cons prod_assoc prod_unit(1))
qed simp

lemma combine_Nil: "combine [] = [[]]"
  by (simp add: combine_foldl)

lemma combine_Cons: "combine (g # gs) = prod g (combine gs)"
  by (simp add: combine_foldl foldl_prod [of g])

lemma combine_append: "combine (gs @ hs) = prod (combine gs) (combine hs)"
  by (induction gs) (simp_all add: combine_Nil combine_Cons prod_assoc)

lemma prod_singletons: "prod [a] [b] = [a @ b]"
  by (simp add: prod_def)

text \<open>The groups the scanner collects: adjacent literals are one group, empty ones none.\<close>

fun groups :: "string \<Rightarrow> item list \<Rightarrow> string list list" where
  "groups l [] = (if l = [] then [] else [[l]])"
| "groups l (Lit s # w) = groups (l @ s) w"
| "groups l (i # w) = (if l = [] then [] else [[l]]) @ denote_item i # groups [] w"

lemma combine_groups: "combine (groups l w) = prod [l] (denote w)"
proof (induction l w rule: groups.induct)
  case (2 l s w)
  then show ?case
    by (simp add: denote_def combine_Cons flip: prod_assoc prod_singletons)
qed (auto simp: denote_def combine_Nil combine_Cons combine_append prod_singletons prod_assoc)

fun inner :: "item \<Rightarrow> string" where
  "inner (Lit s) = s"
| "inner (Alt ws) = join_with '','' (map show_word ws)"
| "inner (Range a b w) =
     pad_left CHR ''0'' w (show_nat a) @ ''..'' @ pad_left CHR ''0'' w (show_nat b)"

definition is_group :: "item \<Rightarrow> bool" where
  "is_group i = (case i of Lit s \<Rightarrow> False | _ \<Rightarrow> True)"

lemma show_item_group: "is_group i \<Longrightarrow> show_item i = ''{'' @ inner i @ ''}''"
  by (cases i) (simp_all add: is_group_def show_word_def [abs_def])

lemma depth_after_inner:
  assumes "wf_item i" "is_group i"
  shows "depth_after False 0 (inner i) = Some 0"
proof (cases i)
  case (Alt ws)
  then have "balanced False (inner i)"
    using assms balanced_show_word
    by (auto intro!: balanced_join simp: wf_word_def list_all_iff)
  then show ?thesis by (simp add: balanced_def)
next
  case (Range a b w)
  have "balanced False (inner i)"
    unfolding Range inner.simps
    by (intro balanced_punct [THEN conjunct2] balanced_append balanced_digits padded_digits)
  then show ?thesis by (simp add: balanced_def)
qed (use assms in \<open>simp add: is_group_def\<close>)

lemma unescape_plain: "list_all plain l \<Longrightarrow> unescape l = l"
  by (induction l rule: unescape.induct) (auto simp: plain_def)

lemma pattern_loop_plain:
  "list_all plain s \<Longrightarrow> p = a @ s @ b \<Longrightarrow>
   pattern_loop pe p items start (length a) d = pattern_loop pe p items start (length a + length s) d"
proof (induction s arbitrary: a)
  case (Cons c s)
  then show ?case
    using nth_mid [of p a c "s @ b"] Cons.IH [of "a @ [c]"]
    by (simp add: pattern_loop_other plain_def)
qed simp

lemma slice_mid: "slice (a @ t @ b) (length a) (length a + length t) = t"
  by (simp add: slice_def)

text \<open>One group, from its opening brace at depth zero.\<close>

lemma pattern_loop_group:
  assumes wf: "wf_item i" "is_group i" "list_all plain l" and p: "p = u @ l @ show_item i @ rest"
    and pe: "pe (inner i) = Some (Inr (Some (denote_item i)))"
  defines "after \<equiv> length (u @ l @ show_item i)"
  shows "pattern_loop pe p items (length u) (length u + length l) 0 =
    pattern_loop pe p (items @ (if l = [] then [] else [[l]]) @ [denote_item i]) after after 0"
proof -
  let ?a = "u @ l @ ''{''"
  let ?items = "items @ (if l = [] then [] else [[l]])"
  have p1: "p = (u @ l) @ CHR ''{'' # (inner i @ ''}'' @ rest)"
    and p2: "p = ?a @ inner i @ (''}'' @ rest)"
    and p3: "p = (?a @ inner i) @ CHR ''}'' # rest"
    using p show_item_group [OF wf(2)] by simp_all
  have "pattern_loop pe p items (length u) (length u + length l) 0 =
      pattern_loop pe p ?items (length (u @ l)) (length ?a) (Suc 0)"
    using nth_mid [OF p1] slice_mid [of u l] p1 unescape_plain [OF wf(3)]
    by (cases l) (auto simp: pattern_loop_open slice_def)
  also have "... = pattern_loop pe p ?items (length (u @ l)) (length (?a @ inner i)) (Suc 0)"
    using pattern_loop_inside [OF depth_after_inner [OF wf(1,2)] p2] by (simp add: add.assoc)
  also have "... = pattern_loop pe p (?items @ [denote_item i]) after after 0"
  proof -
    have sl: "slice p (Suc (length (u @ l))) (length (?a @ inner i)) = inner i"
      using slice_mid [of ?a "inner i" "''}'' @ rest"] p2 by (simp add: add.assoc)
    have aft: "Suc (length (?a @ inner i)) = after"
      by (simp add: after_def show_item_group [OF wf(2)])
    have at: "length (?a @ inner i) < length p" "p ! length (?a @ inner i) = CHR ''}''"
      using nth_mid [OF p3] by blast+
    show ?thesis
      by (simp only: pattern_loop_close_1 [OF at] sl pe aft option.case sum.case)
  qed
  finally show ?thesis by simp
qed

lemma pattern_loop_word:
  assumes "wf_word w" "list_all plain l" "p = u @ l @ show_word w"
    and "\<And>i. i \<in> set w \<Longrightarrow> is_group i \<Longrightarrow> pe (inner i) = Some (Inr (Some (denote_item i)))"
  shows "pattern_loop pe p items (length u) (length u + length l) 0 =
    Some (Inr (if items @ groups l w = [] then [[[]]] else items @ groups l w))"
  using assms
proof (induction w arbitrary: l u items)
  case Nil
  then show ?case
    by (auto simp: pattern_loop_end unescape_plain show_word_def)
next
  case (Cons i w)
  show ?case
  proof (cases "is_group i")
    case True
    have *: "p = u @ l @ show_item i @ show_word w" using Cons.prems(3) by (simp add: show_word_def)
    let ?a = "length (u @ l @ show_item i)"
    have wf: "wf_item i" "wf_word w" using Cons.prems(1) by (simp_all add: wf_word_def)
    have g: "groups l (i # w) = (if l = [] then [] else [[l]]) @ denote_item i # groups [] w"
      using True by (cases i) (simp_all add: is_group_def)
    have "pattern_loop pe p items' ?a (?a + length ([] :: string)) 0 =
        Some (Inr (if items' @ groups [] w = [] then [[[]]] else items' @ groups [] w))" for items'
      using Cons.prems(4) wf * by (intro Cons.IH) simp_all
    then show ?thesis
      using pattern_loop_group [OF wf(1) True Cons.prems(2) *] Cons.prems(4) True
      by (simp add: g)
  next
    case False
    then obtain s where i: "i = Lit s" by (cases i) (auto simp: is_group_def)
    have "pattern_loop pe p items (length u) (length u + length (l @ s)) 0 =
        Some (Inr (if items @ groups (l @ s) w = [] then [[[]]] else items @ groups (l @ s) w))"
      using Cons.prems i by (intro Cons.IH) (auto simp: wf_word_def show_word_def)
    then show ?thesis
      using pattern_loop_plain [of s p "u @ l" "show_word w"] Cons.prems i
      by (simp add: wf_word_def show_word_def add.assoc)
  qed
qed

lemma length_show_item_arm:
  "w \<in> set ws \<Longrightarrow> length (show_word w) < length (show_item (Alt ws))"
proof -
  have "x \<in> set xs \<Longrightarrow> length x \<le> length (join_with '','' xs)" for x :: string and xs
    by (induction "'','' :: string" xs rule: join_with.induct) auto
  then show "w \<in> set ws \<Longrightarrow> ?thesis"
    by (force simp: show_word_def [abs_def] intro: le_imp_less_Suc le_SucI)
qed

lemma length_show_item_le: "i \<in> set w \<Longrightarrow> length (show_item i) \<le> length (show_word w)"
  by (induction w) (auto simp: show_word_def)

lemma braceexpand_show_word: "wf_word w \<Longrightarrow> braceexpand (show_word w) = Some (Inr (denote w))"
proof (induction "length (show_word w)" arbitrary: w rule: less_induct)
  case less
  have "parse_expression braceexpand (inner i) = Some (Inr (Some (denote_item i)))"
    if i: "i \<in> set w" "is_group i" for i
  proof -
    have wf: "wf_item i" using i less.prems by (simp add: wf_word_def list_all_iff)
    show ?thesis
    proof (cases i)
      case (Alt ws)
      have "braceexpand (show_word v) = Some (Inr (denote v))" if "v \<in> set ws" for v
        using less.hyps [of v] length_show_item_arm [OF that] length_show_item_le [OF i(1)] wf that Alt
        by (simp add: wf_word_def list_all_iff)
      with parse_expression_Alt [of ws braceexpand] wf Alt show ?thesis by simp
    next
      case (Range a b k)
      with parse_expression_Range [of a b k braceexpand] wf show ?thesis by simp
    qed (use i in \<open>simp add: is_group_def\<close>)
  qed
  then have "parse_pattern braceexpand (show_word w) =
      Some (Inr (if groups [] w = [] then [[[]]] else groups [] w))"
    using pattern_loop_word [of w "[]" "show_word w" "[]" "parse_expression braceexpand" "[]"] less.prems
    by (simp add: parse_pattern_def)
  then show ?case
    using combine_groups [of "[]" w]
    by (subst braceexpand_unfold) (auto simp: combine_Nil combine_Cons)
qed

section \<open>Properties\<close>

text \<open>C15: The text of every well-formed pattern (literals, nested alternations, padded ranges)
  expands to exactly the strings the pattern denotes, in order; in particular the scanner returns,
  without an error or a panic.\<close>

theorem braceexpand_spec:
  assumes "wf_word w"
  shows "braceexpand (show_word w) = Some (Inr (denote w))"
  using assms by (rule braceexpand_show_word)

theorem braceexpand_spec_witness:
  "braceexpand ''s-{08..10}{a,{b,c}}.tar'' =
     Some (Inr (denote [Lit ''s-'', Range 8 10 2, Alt [[Lit ''a''], [Alt [[Lit ''b''], [Lit ''c'']]]], Lit ''.tar'']))"
proof -
  let ?w = "[Lit ''s-'', Range 8 10 2, Alt [[Lit ''a''], [Alt [[Lit ''b''], [Lit ''c'']]]], Lit ''.tar'']"
  have n: "show_nat 8 = ''8''" "show_nat 10 = ''10''" by code_simp+
  have "wf_word ?w"
    by (simp add: wf_word_def plain_def n contains_sub_def starts_with_def)
  moreover have "show_word ?w = ''s-{08..10}{a,{b,c}}.tar''"
    by (simp add: show_word_def n pad_left_def)
  ultimately show ?thesis using braceexpand_spec [of ?w] by simp
qed

text \<open>An integer range inside braces never makes the expansion hang: whatever the endpoints and the
  step, \<^verbatim>\<open>parse_int_range\<close> returns a list, an error or a panic.\<close>

theorem parse_int_range_total: "parse_int_range e \<noteq> None"
  using parse_int_range_returns [of e] by auto

text \<open>A character range whose step is a multiple of \<open>2\<^sup>3\<^sup>2\<close> never returns: the step is truncated
  to a zero \<^verbatim>\<open>i32\<close> and the loop does not advance.\<close>

theorem braceexpand_char_step_diverges: "braceexpand ''{a..c..4294967296}'' = None"
proof -
  have l: "loop_up 32 (\<lambda>c. Inr (char_at c)) 97 99 0 = None"
    by (rule loop_up_zero_diverges) (auto simp: fits_def)
  have st: "char_step (Some ''4294967296'') = Inr 4294967296"
    by (simp add: char_step_def parse_uint_def parse_digits_def to_digit_def trim_start_matches_def
        minus_char_def)
  have sp: "split_range ''a..c..4294967296'' = Some (''a'', ''c'', Some ''4294967296'')"
    by code_simp
  have "parse_char_range ''a..c..4294967296'' = None"
    by (simp add: parse_char_range_def sp st single_letter_def is_ascii_alphabetic_def as_i32_def l)
  moreover have "parse_int_range ''a..c..4294967296'' = Some (Inr None)"
    by (simp add: parse_int_range_def sp is_int_def is_ascii_digit_def)
  ultimately have "parse_expression be ''a..c..4294967296'' = None" for be
    by (simp add: parse_expression_def)
  then have "parse_pattern be ''{a..c..4294967296}'' = None" for be
    using pattern_loop_inside [of False 0 "''a..c..4294967296''" 0 "''{a..c..4294967296}''" "''{''" "''}''"]
    by (simp add: parse_pattern_def pattern_loop_open pattern_loop_close_1 slice_def)
  then show ?thesis by (simp add: braceexpand_def)
qed

end
