(* ===== verification/Names.thy ===== *)
theory Names
  imports Brace
begin

text \<open>
  \<^verbatim>\<open>webdataset-core/src/utils.rs\<close> and the hasher of \<^verbatim>\<open>fields.rs\<close>: splitting of
  member names, shard metadata, environment substitution, URL lists, seeds,
  worker identity, the secure-mode flags and shard name patterns.  The process
  environment is a parameter \<open>env\<close>; the Unicode test of a variable name with
  non-ASCII characters is the parameter \<open>wide_name\<close>.
\<close>

unbundle bit_operations_syntax

section \<open>Member names\<close>

definition base_plus_ext :: "string \<Rightarrow> (string \<times> string) option" where
  "base_plus_ext path =
     (let start = (case rfind_idx ((=) CHR ''/'') path of Some i \<Rightarrow> i + 1 | None \<Rightarrow> 0)
      in case find_idx ((=) CHR ''.'') (drop start path) of
           None \<Rightarrow> None
         | Some i \<Rightarrow>
             (let dot = start + i in
              if dot = start then None else Some (take dot path, drop (dot + 1) path)))"

definition is_shard_metadata :: "string \<Rightarrow> bool" where
  "is_shard_metadata name =
     (if CHR ''/'' \<notin> set name \<and> starts_with ''__'' name \<and> ends_with ''__'' name then True
      else
        (case strip_prefix ''__'' name of
           None \<Rightarrow> False
         | Some rest \<Rightarrow>
             (case find_sub ''__'' rest of
                None \<Rightarrow> False
              | Some end' \<Rightarrow>
                  if CHR ''/'' \<in> set (take end' rest) then False
                  else (let after = drop (end' + 2) rest in after = [] \<or> starts_with ''/'' after))))"

section \<open>Environment substitution and URL lists\<close>

definition ascii_name_char :: "char \<Rightarrow> bool" where
  "ascii_name_char c = (is_ascii_alphabetic c \<or> is_ascii_digit c \<or> c = CHR ''_'')"

definition is_ascii :: "char \<Rightarrow> bool" where
  "is_ascii c = ((of_char c :: nat) < 128)"

definition name_ok :: "(string \<Rightarrow> bool) \<Rightarrow> string \<Rightarrow> bool" where
  "name_ok wide_name name =
     (name \<noteq> [] \<and>
      (if list_all is_ascii name then list_all ascii_name_char name else wide_name name))"

function envsubst ::
  "(string \<Rightarrow> bool) \<Rightarrow> (string \<Rightarrow> string option) \<Rightarrow> string \<Rightarrow> string res" where
  "envsubst wide_name env rest =
     (case split_once ''${'' rest of
        None \<Rightarrow> Inr rest
      | Some (before, body) \<Rightarrow>
          (case split_once ''}'' body of
             None \<Rightarrow> Inr rest
           | Some (name, tail) \<Rightarrow>
               if \<not> name_ok wide_name name then
                 map_res (\<lambda>s. before @ ''${'' @ name @ ''}'' @ s) (envsubst wide_name env tail)
               else
                 (case env (''WDS_'' @ name) of
                    None \<Rightarrow> Inl (Value ''missing environment variable'')
                  | Some v \<Rightarrow>
                      map_res (\<lambda>s. before @ v @ s) (envsubst wide_name env tail))))"
  by pat_completeness auto
termination
  by (relation "measure (\<lambda>(w, env, rest). length rest)") (auto dest!: split_once_SomeD)

declare envsubst.simps [simp del]

text \<open>At most ten rounds of substitution, until nothing changes.\<close>
fun subst_rounds ::
  "nat \<Rightarrow> (string \<Rightarrow> string res) \<Rightarrow> string \<Rightarrow> string res" where
  "subst_rounds 0 subst url = Inr url"
| "subst_rounds (Suc n) subst url =
     (case subst url of
        Inl e \<Rightarrow> Inl e
      | Inr nxt \<Rightarrow> if nxt = url then Inr url else subst_rounds n subst nxt)"

definition expand_urls ::
  "(string \<Rightarrow> bool) \<Rightarrow> (string \<Rightarrow> string option) \<Rightarrow> string \<Rightarrow> string list run" where
  "expand_urls wide_name env spec =
     expand_parts
       (\<lambda>part. case subst_rounds 10 (envsubst wide_name env) part of
                 Inl e \<Rightarrow> Some (Inl e)
               | Inr url \<Rightarrow> braceexpand url)
       (split_on ''::'' spec)"

section \<open>Seeds and hashes\<close>

definition mix :: "64 word \<Rightarrow> 64 word" where
  "mix x =
     (let x = x XOR drop_bit 33 x;
          x = x * 0xff51afd7ed558ccd;
          x = x XOR drop_bit 33 x;
          x = x * 0xc4ceb9fe1a85ec53
      in x XOR drop_bit 33 x)"

definition make_seed :: "64 word list \<Rightarrow> 64 word" where
  "make_seed parts = foldl (\<lambda>seed part. (seed * 31 + mix part) AND 0x7FFFFFFF) 0 parts"

definition fnv_offset :: "64 word" where "fnv_offset = 0xcbf29ce484222325"

definition fnv_write :: "64 word \<Rightarrow> bytes \<Rightarrow> 64 word" where
  "fnv_write h bs = foldl (\<lambda>h b. (h XOR ucast b) * 0x00000100000001b3) h bs"

definition seed_from_str :: "string \<Rightarrow> 64 word" where
  "seed_from_str text = fnv_write fnv_offset (as_bytes text)"

section \<open>Worker identity\<close>

record worker_info =
  rank :: nat
  world_size :: nat
  worker :: nat
  num_workers :: nat

definition default_worker_info :: worker_info where
  "default_worker_info = \<lparr>rank = 0, world_size = 1, worker = 0, num_workers = 1\<rparr>"

definition worker_seed :: "worker_info \<Rightarrow> 64 word res" where
  "worker_seed info =
     (let s = rank info * 1000 + worker info in
      if s < 2 ^ 64 then Inr (of_nat s) else Inl (Panic ''attempt to add with overflow''))"

definition env_usize :: "(string \<Rightarrow> string option) \<Rightarrow> string \<Rightarrow> nat option" where
  "env_usize env name = Option.bind (env name) (parse_uint 64 10)"

text \<open>The binding of the current thread, from the slot table, comes first.\<close>
definition worker_info_of ::
  "(string \<Rightarrow> string option) \<Rightarrow> (nat \<times> nat) option \<Rightarrow> worker_info" where
  "worker_info_of env current =
     (let info = (case (env_usize env ''RANK'', env_usize env ''WORLD_SIZE'') of
                    (Some r, Some w) \<Rightarrow> default_worker_info\<lparr>rank := r, world_size := max w 1\<rparr>
                  | _ \<Rightarrow> default_worker_info)
      in case current of
           Some (w, n) \<Rightarrow> info\<lparr>worker := w, num_workers := max n 1\<rparr>
         | None \<Rightarrow>
             (case (env_usize env ''WORKER'', env_usize env ''NUM_WORKERS'') of
                (Some w, Some n) \<Rightarrow> info\<lparr>worker := w, num_workers := max n 1\<rparr>
              | _ \<Rightarrow> info))"

section \<open>Secure mode and the unique counter\<close>

record security_state =
  secure_init :: bool
  secure :: bool

definition enforce_security ::
  "(string \<Rightarrow> string option) \<Rightarrow> security_state \<Rightarrow> bool \<times> security_state" where
  "enforce_security env s =
     (let s' = (if secure_init s then s
                else s\<lparr>secure_init := True,
                       secure := (case env ''WDS_SECURE'' of
                                    Some v \<Rightarrow> v \<noteq> ''0'' \<and> v \<noteq> [] | None \<Rightarrow> False)\<rparr>)
      in (secure s', s'))"

definition set_enforce_security :: "bool \<Rightarrow> security_state \<Rightarrow> security_state" where
  "set_enforce_security on s = s\<lparr>secure_init := True, secure := on\<rparr>"

definition check_security ::
  "(string \<Rightarrow> string option) \<Rightarrow> string \<Rightarrow> security_state \<Rightarrow> unit res \<times> security_state" where
  "check_security env what s =
     (case enforce_security env s of
        (on, s') \<Rightarrow> (if on then Inl (Security what) else Inr (), s'))"

definition next_unique :: "64 word \<Rightarrow> 64 word \<times> 64 word" where
  "next_unique counter = (counter, counter + 1)"

section \<open>Shard name patterns\<close>

definition conversion :: "string \<Rightarrow> nat \<Rightarrow> string" where
  "conversion width value =
     (let w = (case parse_uint 64 10 width of Some n \<Rightarrow> n | None \<Rightarrow> 0)
      in pad_left (if starts_with ''0'' width then CHR ''0'' else CHR '' '') w (show_nat value))"

function format_loop :: "nat \<Rightarrow> bool \<Rightarrow> string \<Rightarrow> string res" where
  "format_loop value substituted s =
     (case s of
        [] \<Rightarrow> if substituted then Inr [] else Inl (Value ''shard pattern has no %d conversion'')
      | c # cs \<Rightarrow>
          if c \<noteq> CHR ''%'' then map_res ((#) c) (format_loop value substituted cs)
          else if starts_with ''%'' cs then map_res ((#) c) (format_loop value substituted (drop 1 cs))
          else
            (case dropWhile is_ascii_digit cs of
               d # rest \<Rightarrow>
                 if d = CHR ''d'' \<or> d = CHR ''i'' then
                   map_res ((@) (conversion (takeWhile is_ascii_digit cs) value))
                     (format_loop value True rest)
                 else Inl (Value ''shard pattern has an unsupported conversion'')
             | [] \<Rightarrow> Inl (Value ''shard pattern has an unsupported conversion'')))"
  by pat_completeness auto
termination
proof (relation "measure (\<lambda>(v, b, s). length s)", goal_cases)
  case (4 v b s c cs d rest)
  then have "length (d # rest) \<le> length cs" by (metis length_dropWhile_le)
  then show ?case using 4(1) by simp
qed auto

declare format_loop.simps [simp del]

definition format_shard_pattern :: "string \<Rightarrow> nat \<Rightarrow> string res" where
  "format_shard_pattern pattern value = format_loop value False pattern"

section \<open>Names split where they were joined\<close>

text \<open>The directory part of a path, up to and including its last slash.\<close>

definition dir_part :: "string \<Rightarrow> string" where
  "dir_part p = rev (dropWhile ((\<noteq>) CHR ''/'') (rev p))"

definition file_part :: "string \<Rightarrow> string" where
  "file_part p = rev (takeWhile ((\<noteq>) CHR ''/'') (rev p))"

lemma dir_file_part: "dir_part p @ file_part p = p"
  by (metis dir_part_def file_part_def rev_append rev_rev_ident takeWhile_dropWhile_id)

lemma file_part_no_slash: "CHR ''/'' \<notin> set (file_part p)"
  unfolding file_part_def by (metis set_rev set_takeWhileD)

lemma file_part_append: "CHR ''/'' \<notin> set e \<Longrightarrow> file_part (b @ e) = file_part b @ e"
  by (simp add: file_part_def takeWhile_append)

lemma dir_part_append: "CHR ''/'' \<notin> set e \<Longrightarrow> dir_part (b @ e) = dir_part b"
  by (simp add: dir_part_def dropWhile_append)

lemma find_idx_takeWhile:
  "find_idx P xs = (if length (takeWhile (\<lambda>x. \<not> P x) xs) < length xs
                    then Some (length (takeWhile (\<lambda>x. \<not> P x) xs)) else None)"
  by (induction xs) auto

lemma takeWhile_split_at:
  "takeWhile ((\<noteq>) c) xs \<noteq> xs \<Longrightarrow>
   xs = takeWhile ((\<noteq>) c) xs @ [c] @ drop (Suc (length (takeWhile ((\<noteq>) c) xs))) xs"
  by (induction xs) auto

lemma name_start:
  "(case rfind_idx ((=) CHR ''/'') p of Some i \<Rightarrow> i + 1 | None \<Rightarrow> 0) = length (dir_part p)"
proof -
  let ?t = "takeWhile ((\<noteq>) CHR ''/'') (rev p)"
  have "length p = length ?t + length (dir_part p)"
    by (metis dir_part_def length_append length_rev takeWhile_dropWhile_id)
  then show ?thesis
    by (auto simp: rfind_idx_def find_idx_takeWhile not_less)
qed

lemma drop_dir_part: "drop (length (dir_part p)) p = file_part p"
  by (metis append_eq_conv_conj dir_file_part)

lemma base_plus_ext_alt:
  "base_plus_ext p =
     (let stem = takeWhile ((\<noteq>) CHR ''.'') (file_part p) in
      if stem = file_part p \<or> stem = [] then None
      else Some (dir_part p @ stem, drop (Suc (length stem)) (file_part p)))"
proof -
  let ?f = "file_part p" and ?stem = "takeWhile ((\<noteq>) CHR ''.'') (file_part p)"
  have p: "p = dir_part p @ ?f" by (simp add: dir_file_part)
  have len: "length ?stem < length ?f \<longleftrightarrow> ?stem \<noteq> ?f"
    by (metis append_Nil2 append_eq_append_conv length_append length_takeWhile_le
        less_le linorder_not_less nat_neq_iff takeWhile_dropWhile_id takeWhile_eq_take take_all)
  have "base_plus_ext p =
      (case find_idx ((=) CHR ''.'') ?f of None \<Rightarrow> None
       | Some i \<Rightarrow> if i = 0 then None else Some (take (length (dir_part p) + i) p,
           drop (length (dir_part p) + i + 1) p))"
    unfolding base_plus_ext_def Let_def name_start drop_dir_part by (simp split: option.splits)
  also have "... = (if length ?stem < length ?f then
      if length ?stem = 0 then None else Some (take (length (dir_part p) + length ?stem) p,
           drop (length (dir_part p) + length ?stem + 1) p) else None)"
    by (simp add: find_idx_takeWhile)
  also have "take (length (dir_part p) + length ?stem) p = dir_part p @ ?stem"
    by (subst (2) p) (simp add: takeWhile_eq_take [symmetric])
  also have "drop (length (dir_part p) + length ?stem + 1) p = drop (Suc (length ?stem)) ?f"
    by (subst (2) p) simp
  finally show ?thesis by (simp add: len Let_def)
qed

definition good_base :: "string \<Rightarrow> bool" where
  "good_base b = (file_part b \<noteq> [] \<and> CHR ''.'' \<notin> set (file_part b))"

lemma base_plus_ext_join:
  assumes "good_base b" "CHR ''/'' \<notin> set e"
  shows "base_plus_ext (b @ ''.'' @ e) = Some (b, e)"
proof -
  have tw: "takeWhile ((\<noteq>) CHR ''.'') (file_part b @ CHR ''.'' # e) = file_part b"
    using assms(1) by (subst takeWhile_append2) (auto simp: good_base_def)
  have "CHR ''/'' \<notin> set (''.'' @ e)" using assms(2) by simp
  then show ?thesis
    using assms(1) tw
    by (simp add: base_plus_ext_alt file_part_append dir_part_append dir_file_part good_base_def)
qed

lemma base_plus_ext_SomeD:
  assumes "base_plus_ext p = Some (b, e)"
  shows "p = b @ ''.'' @ e \<and> good_base b \<and> CHR ''/'' \<notin> set e"
proof -
  let ?f = "file_part p" and ?stem = "takeWhile ((\<noteq>) CHR ''.'') (file_part p)"
  have s: "?stem \<noteq> ?f" "?stem \<noteq> []" "b = dir_part p @ ?stem" "e = drop (Suc (length ?stem)) ?f"
    using assms by (auto simp: base_plus_ext_alt Let_def split: if_splits)
  have f: "?f = ?stem @ ''.'' @ e"
    using takeWhile_split_at [OF s(1)] s(4) by simp
  have nos: "CHR ''/'' \<notin> set ?stem" "CHR ''/'' \<notin> set e"
    using file_part_no_slash [of p] f by (metis UnCI set_append)+
  have "file_part (dir_part p) = []"
    by (simp add: file_part_def dir_part_def) (metis hd_dropWhile takeWhile.simps list.collapse)
  then have "file_part b = ?stem"
    using s(3) nos(1) by (simp add: file_part_append)
  then show ?thesis
    using f s nos dir_file_part [of p] by (auto simp: good_base_def dest: set_takeWhileD)
qed

lemma base_plus_ext_Some_iff:
  "base_plus_ext p = Some (b, e) \<longleftrightarrow> p = b @ ''.'' @ e \<and> good_base b \<and> CHR ''/'' \<notin> set e"
  using base_plus_ext_SomeD base_plus_ext_join by metis

section \<open>Seeds\<close>

lemma xorshift_inj:
  fixes x :: "64 word"
  assumes "x XOR drop_bit 33 x = y"
  shows "x = y XOR drop_bit 33 y"
proof -
  have "drop_bit 33 (drop_bit 33 x) = 0"
    by (rule bit_word_eqI) (auto simp: bit_drop_bit_eq dest: bit_imp_le_length)
  then show ?thesis
    by (simp flip: assms) (auto simp: bit_eq_iff bit_xor_iff bit_drop_bit_eq)
qed

lemma mult_unit_inj:
  fixes c d :: "64 word"
  assumes "c * d = 1"
  shows "x * c = y * c \<longleftrightarrow> x = y"
proof
  assume "x * c = y * c"
  then have "x * c * d = y * c * d" by simp
  then show "x = y" by (simp only: mult.assoc assms mult_1_right)
qed simp

lemma mix_inj: "mix x = mix y \<longleftrightarrow> x = y"
proof -
  have xs: "u XOR drop_bit 33 u = v XOR drop_bit 33 v \<longleftrightarrow> u = v" for u v :: "64 word"
    using xorshift_inj by metis
  have m1: "u * 0xff51afd7ed558ccd = v * 0xff51afd7ed558ccd \<longleftrightarrow> u = v" for u v :: "64 word"
    by (rule mult_unit_inj [where d = "0x4f74430c22a54005"]) simp
  have m2: "u * 0xc4ceb9fe1a85ec53 = v * 0xc4ceb9fe1a85ec53 \<longleftrightarrow> u = v" for u v :: "64 word"
    by (rule mult_unit_inj [where d = "0x9cb4b2f8129337db"]) simp
  show ?thesis by (simp only: mix_def Let_def xs m1 m2)
qed

lemma make_seed_bound: "make_seed parts < 2 ^ 31"
proof (cases parts rule: rev_cases)
  case (snoc ps p)
  have "x AND 0x7FFFFFFF < 2 ^ 31" for x :: "64 word"
    using word_and_le1 [of x "0x7FFFFFFF"] by (rule order.strict_trans1) simp
  then show ?thesis by (simp add: make_seed_def snoc)
qed (simp add: make_seed_def)

section \<open>Shard names\<close>

lemma length_conversion_mono: "a \<le> b \<Longrightarrow> length (conversion w a) \<le> length (conversion w b)"
  using show_nat_length_mono [of a b] by (auto simp: conversion_def pad_left_def Let_def)

lemma drop_spaces: "dropWhile ((=) CHR '' '') (replicate n CHR '' '' @ show_nat m) = show_nat m"
proof -
  have "hd (show_nat m) \<noteq> CHR '' ''"
  proof -
    have "\<not> is_ascii_digit CHR '' ''" by (simp add: is_ascii_digit_def)
    moreover have "is_ascii_digit (hd (show_nat m))"
      using show_nat_digits [of m] hd_in_set [OF show_nat_not_Nil, of m] by blast
    ultimately show ?thesis by metis
  qed
  then have "dropWhile ((=) CHR '' '') (show_nat m) = show_nat m"
    by (cases "show_nat m") auto
  then show ?thesis by (induction n) auto
qed

lemma conversion_inj: "conversion w a = conversion w b \<Longrightarrow> a = b"
proof -
  assume *: "conversion w a = conversion w b"
  obtain k l where kl: "replicate k (if starts_with ''0'' w then CHR ''0'' else CHR '' '') @ show_nat a
      = replicate l (if starts_with ''0'' w then CHR ''0'' else CHR '' '') @ show_nat b"
    using * unfolding conversion_def pad_left_def Let_def by blast
  show "a = b"
  proof (cases "starts_with ''0'' w")
    case True
    then have "digits_value 10 0 (replicate k CHR ''0'' @ show_nat a) =
        digits_value 10 0 (replicate l CHR ''0'' @ show_nat b)" using kl by simp
    then show ?thesis by (simp add: digits_value_zeros show_nat_def digits_value_show_radix)
  next
    case False
    then have "dropWhile ((=) CHR '' '') (replicate k CHR '' '' @ show_nat a) =
        dropWhile ((=) CHR '' '') (replicate l CHR '' '' @ show_nat b)" using kl by simp
    then show ?thesis by (simp only: drop_spaces show_nat_inj)
  qed
qed

lemma format_loop_step:
  "format_loop v b [] = (if b then Inr [] else Inl (Value ''shard pattern has no %d conversion''))"
  "c \<noteq> CHR ''%'' \<Longrightarrow> format_loop v b (c # cs) = map_res ((#) c) (format_loop v b cs)"
  "starts_with ''%'' cs \<Longrightarrow>
     format_loop v b (CHR ''%'' # cs) = map_res ((#) CHR ''%'') (format_loop v b (drop 1 cs))"
  "\<not> starts_with ''%'' cs \<Longrightarrow> dropWhile is_ascii_digit cs = d # rest \<Longrightarrow> d = CHR ''d'' \<or> d = CHR ''i'' \<Longrightarrow>
     format_loop v b (CHR ''%'' # cs) =
       map_res ((@) (conversion (takeWhile is_ascii_digit cs) v)) (format_loop v True rest)"
  "\<not> starts_with ''%'' cs \<Longrightarrow> (\<And>rest. dropWhile is_ascii_digit cs \<noteq> CHR ''d'' # rest) \<Longrightarrow>
     (\<And>rest. dropWhile is_ascii_digit cs \<noteq> CHR ''i'' # rest) \<Longrightarrow>
     format_loop v b (CHR ''%'' # cs) = Inl (Value ''shard pattern has an unsupported conversion'')"
  by (subst format_loop.simps; auto split: list.splits)+

lemma format_loop_mono:
  assumes ab: "a \<le> b"
  shows "format_loop a s p = Inr x \<Longrightarrow> format_loop b s p = Inr y \<Longrightarrow>
    length x \<le> length y \<and> (x = y \<longrightarrow> a = b \<or> s)"
proof (induction p arbitrary: s x y rule: length_induct)
  case (1 p)
  note IH = 1(1) [rule_format] and prems = 1(2,3)
  show ?case
  proof (cases p)
    case Nil
    with prems show ?thesis by (auto simp: format_loop_step split: if_splits)
  next
    case (Cons c cs)
    consider "c \<noteq> CHR ''%''" | "c = CHR ''%''" "starts_with ''%'' cs"
      | d rest where "c = CHR ''%''" "\<not> starts_with ''%'' cs" "dropWhile is_ascii_digit cs = d # rest"
          "d = CHR ''d'' \<or> d = CHR ''i''"
      | "c = CHR ''%''" "\<not> starts_with ''%'' cs" "\<And>rest. dropWhile is_ascii_digit cs \<noteq> CHR ''d'' # rest"
          "\<And>rest. dropWhile is_ascii_digit cs \<noteq> CHR ''i'' # rest"
      by metis
    then show ?thesis
    proof cases
      case 1
      have "length cs < length p" using Cons by simp
      with 1 IH Cons prems show ?thesis
        by (fastforce simp: format_loop_step map_res_Inr_iff)
    next
      case 2
      obtain x' y' where "format_loop a s (drop 1 cs) = Inr x'" "x = CHR ''%'' # x'"
        "format_loop b s (drop 1 cs) = Inr y'" "y = CHR ''%'' # y'"
        using 2 prems Cons by (auto simp: format_loop_step map_res_Inr_iff simp del: drop_Suc_Cons)
      moreover have "length (drop 1 cs) < length p" using Cons by simp
      ultimately show ?thesis using IH [of "drop 1 cs" s x' y'] by simp
    next
      case 3
      let ?w = "takeWhile is_ascii_digit cs"
      obtain x' y' where x': "format_loop a True rest = Inr x'" "x = conversion ?w a @ x'"
        and y': "format_loop b True rest = Inr y'" "y = conversion ?w b @ y'"
        using 3 prems Cons by (auto simp: format_loop_step map_res_Inr_iff)
      have "length rest < length p"
        using 3(3) Cons length_dropWhile_le [of is_ascii_digit cs] by simp
      then have "length x' \<le> length y'" using IH x'(1) y'(1) by blast
      moreover have "length (conversion ?w a) \<le> length (conversion ?w b)"
        by (rule length_conversion_mono [OF ab])
      moreover have "x = y \<Longrightarrow> length (conversion ?w a) = length (conversion ?w b) \<Longrightarrow> a = b"
        using x'(2) y'(2) conversion_inj by auto
      moreover have len: "x = y \<Longrightarrow> length (conversion ?w a) + length x' = length (conversion ?w b) + length y'"
        using x'(2) y'(2) by (metis length_append)
      ultimately show ?thesis
        using x'(2) y'(2) len by auto
    next
      case 4
      with prems Cons show ?thesis by (auto simp: format_loop_step)
    qed
  qed
qed

lemma format_shard_pattern_eq:
  assumes "format_shard_pattern p a = Inr x" "format_shard_pattern p b = Inr x"
  shows "a = b"
  using assms format_loop_mono [of a b False p x x] format_loop_mono [of b a False p x x]
  by (auto simp: format_shard_pattern_def) (cases "a \<le> b"; auto)

section \<open>Properties\<close>

text \<open>A member name splits into key and extension exactly when it is the key, a dot and the
  extension, the key ends in a non-empty file name without a dot, and the extension holds no slash.\<close>

theorem base_plus_ext_spec:
  "base_plus_ext p = Some (b, e) \<longleftrightarrow>
     p = b @ ''.'' @ e \<and> file_part b \<noteq> [] \<and> CHR ''.'' \<notin> set (file_part b) \<and> CHR ''/'' \<notin> set e"
  by (auto simp: base_plus_ext_Some_iff good_base_def)

text \<open>Two shards never get the same name: a pattern that formats gives distinct names to distinct
  shard numbers, whatever its literals, conversions and widths.\<close>

theorem format_shard_pattern_injective:
  assumes "format_shard_pattern p a = Inr x" and "format_shard_pattern p b = Inr y" and "a \<noteq> b"
  shows "x \<noteq> y"
  using assms format_shard_pattern_eq by metis

theorem format_shard_pattern_injective_witness: "''o-01'' \<noteq> ''o-12''"
proof -
  have n: "show_nat (Suc 0) = ''1''" "show_nat 12 = ''12''" by code_simp+
  have d: "\<not> starts_with ''%'' ''02d''" "takeWhile is_ascii_digit ''02d'' = ''02''"
    "dropWhile is_ascii_digit ''02d'' = ''d''" by code_simp+
  have p: "parse_uint 64 10 ''02'' = Some 2"
    by (simp add: parse_uint_def parse_digits_def to_digit_def)
  have "format_shard_pattern ''o-%02d'' 1 = Inr ''o-01''" "format_shard_pattern ''o-%02d'' 12 = Inr ''o-12''"
    using d by (simp_all add: format_shard_pattern_def format_loop_step conversion_def p n
        pad_left_def starts_with_def)
  from format_shard_pattern_injective [OF this] show ?thesis by simp
qed

text \<open>The avalanche behind the shuffling seeds loses nothing: distinct 64-bit inputs have distinct
  images, so adjacent worker or epoch numbers always diverge.\<close>

theorem mix_injective: "mix x = mix y \<longleftrightarrow> x = y"
  by (rule mix_inj)

text \<open>The regular expression the source quotes for shard metadata, \<open>__[^/]*__($|/)\<close>, is matched by
  more names than the code accepts: the code stops at the first double underscore.\<close>

theorem is_shard_metadata_misses:
  "''__a__b__/x'' = ''__'' @ ''a__b'' @ ''__'' @ ''/x'' \<and> CHR ''/'' \<notin> set ''a__b'' \<and>
   \<not> is_shard_metadata ''__a__b__/x''"
  by code_simp

end
