(* ===== verification/Workers.thy ===== *)
theory Workers
  imports Names
begin

text \<open>
  \<^verbatim>\<open>webdataset-core/src/workers.rs\<close>: which worker the calling context is.  The three
  builds are modelled one after the other (thread-local, single global, slot
  table keyed by a host token); the interface \<open>identity_store\<close> states what
  \<^verbatim>\<open>with_worker\<close> relies on, and is interpreted on all three.
\<close>

type_synonym identity = "nat \<times> nat"

definition UNSET :: nat where "UNSET = 2 ^ 64 - 1"

definition MAX_THREADS :: nat where "MAX_THREADS = 64"

section \<open>The interface, and scoped bindings\<close>

definition with_worker ::
  "(identity option \<Rightarrow> 's \<Rightarrow> identity option \<times> 's) \<Rightarrow> nat \<Rightarrow> nat \<Rightarrow> ('s \<Rightarrow> 'r \<times> 's) \<Rightarrow> 's \<Rightarrow> 'r \<times> 's" where
  "with_worker replace w n body s =
     (case replace (Some (w, n)) s of
        (previous, s1) \<Rightarrow>
          (case body s1 of
             (result, s2) \<Rightarrow> (result, snd (replace previous s2))))"

definition set_worker ::
  "(identity option \<Rightarrow> 's \<Rightarrow> identity option \<times> 's) \<Rightarrow> nat \<Rightarrow> nat \<Rightarrow> 's \<Rightarrow> 's" where
  "set_worker replace w n s = snd (replace (Some (w, n)) s)"

definition clear_worker :: "(identity option \<Rightarrow> 's \<Rightarrow> identity option \<times> 's) \<Rightarrow> 's \<Rightarrow> 's" where
  "clear_worker replace s = snd (replace None s)"

locale identity_store =
  fixes cur :: "'s \<Rightarrow> identity option"
    and repl :: "identity option \<Rightarrow> 's \<Rightarrow> identity option \<times> 's"
    and ok :: "'s \<Rightarrow> bool"
    and bindable :: "identity \<Rightarrow> bool"
  assumes previous: "ok s \<Longrightarrow> fst (repl v s) = cur s"
    and bound: "ok s \<Longrightarrow> bindable x \<Longrightarrow> cur (snd (repl (Some x) s)) = Some x"
    and unbound: "ok s \<Longrightarrow> cur (snd (repl None s)) = None"
    and ok_repl: "ok s \<Longrightarrow> pred_option bindable v \<Longrightarrow> ok (snd (repl v s))"
    and cur_bindable: "ok s \<Longrightarrow> pred_option bindable (cur s)"
begin

lemma repl_cur: "ok s \<Longrightarrow> pred_option bindable v \<Longrightarrow> cur (snd (repl v s)) = v"
  by (cases v) (auto simp: bound unbound)

lemma with_worker_restores:
  assumes "ok s" "bindable (w, n)"
    and body: "\<And>s1. ok s1 \<Longrightarrow> ok (snd (body s1))"
  shows "cur (snd (with_worker repl w n body s)) = cur s"
  using assms repl_cur [of _ "cur s"]
  by (auto simp: with_worker_def previous ok_repl cur_bindable split: prod.splits)
     (metis cur_bindable fst_conv ok_repl option.pred_inject(2) previous snd_conv)+

lemma with_worker_binds:
  assumes "ok s" "bindable (w, n)"
  shows "\<exists>s1. ok s1 \<and> cur s1 = Some (w, n) \<and> fst (with_worker repl w n body s) = fst (body s1)"
  using assms
  by (intro exI [of _ "snd (repl (Some (w, n)) s)"])
     (auto simp: with_worker_def bound ok_repl split: prod.splits)

end

section \<open>std: a thread-local cell\<close>

type_synonym 't thread_cells = "'t \<Rightarrow> identity option"

definition current_std :: "'t \<Rightarrow> 't thread_cells \<Rightarrow> identity option" where
  "current_std t cells = cells t"

definition replace_std ::
  "'t \<Rightarrow> identity option \<Rightarrow> 't thread_cells \<Rightarrow> identity option \<times> 't thread_cells" where
  "replace_std t v cells = (cells t, cells(t := v))"

interpretation std_store: identity_store "current_std t" "replace_std t" "\<lambda>_. True" "\<lambda>_. True" for t
  by unfold_locales (auto simp: current_std_def replace_std_def option.pred_True)

section \<open>no_std: the global fallback\<close>

type_synonym global = "nat \<times> nat"

definition read_global :: "global \<Rightarrow> identity option" where
  "read_global g = (if fst g = UNSET then None else Some g)"

definition replace_global :: "identity option \<Rightarrow> global \<Rightarrow> identity option \<times> global" where
  "replace_global v g =
     (let (w, n) = (case v of Some x \<Rightarrow> x | None \<Rightarrow> (UNSET, 1))
      in (read_global g, (w, max n 1)))"

definition real_identity :: "identity \<Rightarrow> bool" where
  "real_identity v = (fst v \<noteq> UNSET \<and> 1 \<le> snd v)"

interpretation global_store: identity_store read_global replace_global "\<lambda>g. 1 \<le> snd g" real_identity
  by unfold_locales
     (auto simp: read_global_def replace_global_def real_identity_def split: option.split prod.split)

section \<open>no_std with threads: the slot table\<close>

record slot =
  token :: nat
  slot_worker :: nat
  slot_num :: nat

definition empty_slot :: slot where
  "empty_slot = \<lparr>token = UNSET, slot_worker = UNSET, slot_num = 1\<rparr>"

record table =
  hook :: bool
  slots :: "slot list"
  fallback :: global

definition initial_table :: table where
  "initial_table =
     \<lparr>hook = False, slots = replicate MAX_THREADS empty_slot, fallback = (UNSET, 1)\<rparr>"

definition set_hook :: "table \<Rightarrow> unit res \<times> table" where
  "set_hook tb =
     (if hook tb then (Inl (Value ''the thread id hook has already been set''), tb)
      else (Inr (), tb\<lparr>hook := True\<rparr>))"

definition find_slot :: "nat \<Rightarrow> table \<Rightarrow> nat option" where
  "find_slot tok tb = find_idx (\<lambda>sl. token sl = tok) (slots tb)"

text \<open>The compare-and-exchange on the first free slot, with the table it leaves.\<close>
definition claim_slot :: "nat \<Rightarrow> table \<Rightarrow> (nat \<times> table) option" where
  "claim_slot tok tb =
     map_option (\<lambda>i. (i, tb\<lparr>slots := (slots tb)[i := (slots tb ! i)\<lparr>token := tok\<rparr>]\<rparr>))
       (find_idx (\<lambda>sl. token sl = UNSET) (slots tb))"

definition slot_identity :: "slot \<Rightarrow> identity option" where
  "slot_identity sl = (if slot_worker sl = UNSET then None else Some (slot_worker sl, slot_num sl))"

text \<open>\<open>tok\<close> is what the host's hook returns in the calling context.\<close>
definition current_tb :: "nat \<Rightarrow> table \<Rightarrow> identity option" where
  "current_tb tok tb =
     (if \<not> hook tb then read_global (fallback tb)
      else (case find_slot tok tb of
              None \<Rightarrow> None
            | Some i \<Rightarrow> slot_identity (slots tb ! i)))"

definition bind_slot :: "identity option \<Rightarrow> slot \<Rightarrow> slot" where
  "bind_slot v sl =
     (case v of
        Some (w, n) \<Rightarrow> sl\<lparr>slot_num := max n 1, slot_worker := w\<rparr>
      | None \<Rightarrow> sl\<lparr>slot_worker := UNSET, token := UNSET\<rparr>)"

definition replace_tb :: "nat \<Rightarrow> identity option \<Rightarrow> table \<Rightarrow> identity option \<times> table" where
  "replace_tb tok v tb =
     (if \<not> hook tb then
        (case replace_global v (fallback tb) of (old, g) \<Rightarrow> (old, tb\<lparr>fallback := g\<rparr>))
      else
        (case (case find_slot tok tb of Some i \<Rightarrow> Some (i, tb) | None \<Rightarrow> claim_slot tok tb) of
           None \<Rightarrow> (case replace_global v (fallback tb) of (old, g) \<Rightarrow> (old, tb\<lparr>fallback := g\<rparr>))
         | Some (i, tb') \<Rightarrow>
             (slot_identity (slots tb' ! i),
              tb'\<lparr>slots := (slots tb')[i := bind_slot v (slots tb' ! i)]\<rparr>)))"

section \<open>The slot table is an identity store while there is room\<close>

definition uniq :: "table \<Rightarrow> bool" where
  "uniq tb = (\<forall>i < length (slots tb). \<forall>j < length (slots tb).
     token (slots tb ! i) = token (slots tb ! j) \<longrightarrow> token (slots tb ! i) \<noteq> UNSET \<longrightarrow> i = j)"

definition slots_ok :: "table \<Rightarrow> bool" where
  "slots_ok tb = (\<forall>sl \<in> set (slots tb).
     1 \<le> slot_num sl \<and> (token sl = UNSET \<longrightarrow> slot_worker sl = UNSET))"

definition slot_for :: "nat \<Rightarrow> table \<Rightarrow> nat option" where
  "slot_for tok tb =
     (case find_slot tok tb of
        Some i \<Rightarrow> Some i
      | None \<Rightarrow> find_idx (\<lambda>sl. token sl = UNSET) (slots tb))"

definition table_ok :: "nat \<Rightarrow> table \<Rightarrow> bool" where
  "table_ok tok tb =
     (hook tb \<and> uniq tb \<and> slots_ok tb \<and> tok \<noteq> UNSET \<and> slot_for tok tb \<noteq> None)"

lemma uniqD:
  "uniq tb \<Longrightarrow> i < length (slots tb) \<Longrightarrow> j < length (slots tb) \<Longrightarrow>
   token (slots tb ! i) = tok \<Longrightarrow> token (slots tb ! j) = tok \<Longrightarrow> tok \<noteq> UNSET \<Longrightarrow> i = j"
  by (auto simp: uniq_def)

lemma find_slot_SomeD:
  "find_slot tok tb = Some i \<Longrightarrow> i < length (slots tb) \<and> token (slots tb ! i) = tok"
  unfolding find_slot_def by (drule find_idx_SomeD) simp

lemma find_slot_iff:
  assumes "uniq tb" "tok \<noteq> UNSET"
  shows "find_slot tok tb = Some i \<longleftrightarrow> i < length (slots tb) \<and> token (slots tb ! i) = tok"
proof
  assume i: "i < length (slots tb) \<and> token (slots tb ! i) = tok"
  then have "find_slot tok tb \<noteq> None"
    by (auto simp: find_slot_def find_idx_None_iff)
  then obtain j where "find_slot tok tb = Some j" by blast
  with find_slot_SomeD [OF this] uniqD [OF assms(1), of i j tok] i assms(2)
  show "find_slot tok tb = Some i" by simp
qed (rule find_slot_SomeD)

lemma find_slot_None: "find_slot tok tb = None \<longleftrightarrow> (\<forall>sl\<in>set (slots tb). token sl \<noteq> tok)"
  by (simp add: find_slot_def find_idx_None_iff)

lemma slot_for_None:
  "slot_for tok tb = None \<longleftrightarrow> (\<forall>sl\<in>set (slots tb). token sl \<noteq> tok \<and> token sl \<noteq> UNSET)"
  by (auto simp: slot_for_def find_idx_None_iff find_slot_None split: option.split)
     (auto simp: find_slot_def dest!: find_idx_SomeD)

lemma slot_for_SomeD:
  assumes "slot_for tok tb = Some i"
  shows "i < length (slots tb)"
    and "token (slots tb ! i) = tok \<or> (token (slots tb ! i) = UNSET \<and> find_slot tok tb = None)"
proof -
  have "i < length (slots tb) \<and>
      (token (slots tb ! i) = tok \<or> (token (slots tb ! i) = UNSET \<and> find_slot tok tb = None))"
  proof (cases "find_slot tok tb")
    case None
    then show ?thesis using assms find_idx_SomeD by (fastforce simp: slot_for_def)
  next
    case (Some j)
    then show ?thesis using assms find_idx_SomeD by (fastforce simp: slot_for_def find_slot_def)
  qed
  then show "i < length (slots tb)"
    and "token (slots tb ! i) = tok \<or> (token (slots tb ! i) = UNSET \<and> find_slot tok tb = None)"
    by simp_all
qed

lemma current_tb_at:
  "hook tb \<Longrightarrow> uniq tb \<Longrightarrow> tok \<noteq> UNSET \<Longrightarrow> i < length (slots tb) \<Longrightarrow> token (slots tb ! i) = tok \<Longrightarrow>
   current_tb tok tb = slot_identity (slots tb ! i)"
  using find_slot_iff [of tb tok i] by (simp add: current_tb_def)

lemma current_tb_absent: "hook tb \<Longrightarrow> find_slot tok tb = None \<Longrightarrow> current_tb tok tb = None"
  by (simp add: current_tb_def)

text \<open>With a slot at hand, the operation is one update of that slot.\<close>

lemma replace_tb_room:
  assumes "hook tb" "slot_for tok tb = Some i"
  defines "sl \<equiv> (slots tb ! i)\<lparr>token := tok\<rparr>"
  shows "replace_tb tok v tb =
    (slot_identity sl, tb\<lparr>slots := (slots tb)[i := bind_slot v sl]\<rparr>)"
proof -
  have i: "i < length (slots tb)" using slot_for_SomeD [OF assms(2)] by simp
  show ?thesis
  proof (cases "find_slot tok tb")
    case None
    with assms(1,2) i show ?thesis
      by (simp add: replace_tb_def slot_for_def claim_slot_def sl_def)
  next
    case (Some j)
    then have "j = i" "token (slots tb ! i) = tok"
      using assms(2) find_idx_SomeD [of _ "slots tb" j] by (auto simp: slot_for_def find_slot_def)
    moreover from this(2) have "sl = slots tb ! i" by (simp add: sl_def)
    ultimately show ?thesis using Some assms(1) by (simp add: replace_tb_def)
  qed
qed

lemma uniq_update:
  assumes u: "uniq tb" and tok: "find_slot tok tb = None \<or> token (slots tb ! i) = tok"
    and i: "i < length (slots tb)" and sl: "token sl = tok \<or> token sl = UNSET" and set: "tok \<noteq> UNSET"
  shows "uniq (tb\<lparr>slots := (slots tb)[i := sl]\<rparr>)"
proof -
  have "token (slots tb ! j) \<noteq> tok" if "j < length (slots tb)" "j \<noteq> i" for j
    using tok
  proof
    assume "find_slot tok tb = None"
    then show ?thesis using that by (simp add: find_slot_None)
  next
    assume "token (slots tb ! i) = tok"
    then show ?thesis using u that i set unfolding uniq_def by metis
  qed
  note other = this
  have "a = b" if "a < length (slots tb)" "b < length (slots tb)"
      and eq: "token ((slots tb)[i := sl] ! a) = token ((slots tb)[i := sl] ! b)"
      and ne: "token ((slots tb)[i := sl] ! a) \<noteq> UNSET" for a b
  proof (cases "a = i \<or> b = i")
    case True
    then show ?thesis using that other [of a] other [of b] sl by (cases "a = b") auto
  next
    case False
    then have "token (slots tb ! a) = token (slots tb ! b)" "token (slots tb ! a) \<noteq> UNSET"
      using eq ne by simp_all
    then show ?thesis using uniqD [OF u that(1,2) _ refl] by simp
  qed
  then show ?thesis unfolding uniq_def by simp
qed

lemma slots_ok_update:
  "slots_ok tb \<Longrightarrow> 1 \<le> slot_num sl \<Longrightarrow> (token sl = UNSET \<Longrightarrow> slot_worker sl = UNSET) \<Longrightarrow>
   slots_ok (tb\<lparr>slots := (slots tb)[i := sl]\<rparr>)"
  unfolding slots_ok_def by (auto dest: set_update_subset_insert [THEN subsetD])

lemma bind_slot_simps [simp]:
  "bind_slot None sl = sl\<lparr>slot_worker := UNSET, token := UNSET\<rparr>"
  "bind_slot (Some (w, n)) sl = sl\<lparr>slot_num := max n 1, slot_worker := w\<rparr>"
  by (simp_all add: bind_slot_def)

lemma slot_for_at:
  assumes "table_ok tok tb" "slot_for tok tb = Some i"
  shows "i < length (slots tb)" "1 \<le> slot_num (slots tb ! i)"
    "token (slots tb ! i) = UNSET \<longrightarrow> slot_worker (slots tb ! i) = UNSET"
  using assms slot_for_SomeD [OF assms(2)] by (auto simp: table_ok_def slots_ok_def)

lemma table_ok_replace:
  assumes ok: "table_ok tok tb"
  shows "table_ok tok (snd (replace_tb tok v tb))"
proof -
  obtain i where sf: "slot_for tok tb = Some i" using ok by (auto simp: table_ok_def)
  note at = slot_for_at [OF ok sf]
  let ?sl = "bind_slot v ((slots tb ! i)\<lparr>token := tok\<rparr>)"
  let ?tb = "tb\<lparr>slots := (slots tb)[i := ?sl]\<rparr>"
  have tok: "tok \<noteq> UNSET" "uniq tb" "slots_ok tb" "hook tb" using ok by (auto simp: table_ok_def)
  have t: "token ?sl = tok \<or> token ?sl = UNSET" by (cases v) auto
  then have u: "uniq ?tb"
    using tok at slot_for_SomeD(2) [OF sf] by (intro uniq_update [where tok = tok]) blast+
  have "slots_ok ?tb"
    using tok at by (intro slots_ok_update; cases v) auto
  moreover have "slot_for tok ?tb \<noteq> None"
  proof -
    have "slots ?tb ! i = ?sl" "i < length (slots ?tb)" using at by simp_all
    then have "\<exists>sl\<in>set (slots ?tb). token sl = tok \<or> token sl = UNSET" using t nth_mem by metis
    then show ?thesis unfolding slot_for_None by blast
  qed
  ultimately show ?thesis
    using u tok sf by (simp add: table_ok_def replace_tb_room)
qed

lemma replace_tb_previous:
  assumes ok: "table_ok tok tb"
  shows "fst (replace_tb tok v tb) = current_tb tok tb"
proof -
  obtain i where sf: "slot_for tok tb = Some i" using ok by (auto simp: table_ok_def)
  note at = slot_for_at [OF ok sf]
  have tok: "tok \<noteq> UNSET" "uniq tb" "hook tb" using ok by (auto simp: table_ok_def)
  from slot_for_SomeD(2) [OF sf] show ?thesis
  proof
    assume "token (slots tb ! i) = tok"
    then show ?thesis
      using at tok sf by (simp add: replace_tb_room current_tb_at [of tb tok i] slot_identity_def)
  next
    assume "token (slots tb ! i) = UNSET \<and> find_slot tok tb = None"
    then show ?thesis
      using at tok sf by (simp add: replace_tb_room current_tb_absent slot_identity_def)
  qed
qed

lemma current_tb_replace:
  assumes ok: "table_ok tok tb" and v: "pred_option real_identity v"
  shows "current_tb tok (snd (replace_tb tok v tb)) = v"
proof -
  obtain i where sf: "slot_for tok tb = Some i" using ok by (auto simp: table_ok_def)
  note at = slot_for_at [OF ok sf]
  let ?sl = "bind_slot v ((slots tb ! i)\<lparr>token := tok\<rparr>)"
  let ?tb = "tb\<lparr>slots := (slots tb)[i := ?sl]\<rparr>"
  have tb: "snd (replace_tb tok v tb) = ?tb"
    using ok sf by (simp add: replace_tb_room table_ok_def)
  then have ok': "hook ?tb" "uniq ?tb" "tok \<noteq> UNSET" and sf': "slot_for tok ?tb \<noteq> None"
    using table_ok_replace [OF ok, of v] by (simp_all add: table_ok_def)
  show ?thesis
  proof (cases v)
    case None
    have "find_slot tok ?tb = None"
    proof (rule ccontr)
      assume "find_slot tok ?tb \<noteq> None"
      then obtain j where j: "j < length (slots ?tb)" "token (slots ?tb ! j) = tok"
        using find_slot_iff [OF ok'(2,3)] by auto
      have "slots ?tb ! i = ?sl" using at by simp
      then have "j \<noteq> i" using j ok'(3) None by auto
      then have "j < length (slots tb)" "token (slots tb ! j) = tok" using j by simp_all
      with \<open>j \<noteq> i\<close> slot_for_SomeD [OF sf] ok show False
        unfolding table_ok_def uniq_def find_slot_None by (metis nth_mem)
    qed
    then show ?thesis using ok' None tb by (simp add: current_tb_absent)
  next
    case (Some x)
    then show ?thesis
      using current_tb_at [OF ok', of i] at v unfolding tb
      by (cases x) (simp add: slot_identity_def real_identity_def)
  qed
qed

lemma current_tb_real:
  assumes "table_ok tok tb"
  shows "pred_option real_identity (current_tb tok tb)"
proof (cases "find_slot tok tb")
  case (Some i)
  then have "i < length (slots tb)" using find_idx_SomeD by (auto simp: find_slot_def)
  then have "1 \<le> slot_num (slots tb ! i)" using assms by (auto simp: table_ok_def slots_ok_def)
  with Some assms show ?thesis
    by (simp add: current_tb_def table_ok_def slot_identity_def real_identity_def)
qed (use assms in \<open>simp add: current_tb_def table_ok_def\<close>)

interpretation table_store:
  identity_store "current_tb tok" "replace_tb tok" "table_ok tok" real_identity for tok
  by unfold_locales
     (simp_all add: replace_tb_previous current_tb_replace table_ok_replace current_tb_real)

section \<open>Many contexts\<close>

text \<open>What the running contexts can do to the table, one atomic operation at a time.\<close>

inductive table_step :: "table \<Rightarrow> table \<Rightarrow> bool" where
  install: "table_step tb (snd (set_hook tb))"
| rebind: "tok \<noteq> UNSET \<Longrightarrow> table_step tb (snd (replace_tb tok v tb))"

inductive_cases table_stepE: "table_step tb tb'"

definition table_inv :: "table \<Rightarrow> bool" where
  "table_inv tb = (uniq tb \<and> slots_ok tb)"

lemma table_inv_initial: "table_inv initial_table"
  by (auto simp: table_inv_def uniq_def slots_ok_def initial_table_def empty_slot_def)

lemma replace_tb_full:
  assumes "\<not> hook tb \<or> slot_for tok tb = None"
  shows "slots (snd (replace_tb tok v tb)) = slots tb \<and> hook (snd (replace_tb tok v tb)) = hook tb"
proof (cases "hook tb")
  case True
  then have "find_slot tok tb = None" "find_idx (\<lambda>sl. token sl = UNSET) (slots tb) = None"
    using assms by (auto simp: slot_for_def split: option.splits)
  then show ?thesis using True by (simp add: replace_tb_def claim_slot_def split: prod.split)
qed (simp add: replace_tb_def split: prod.split)

lemma table_inv_slots: "slots tb = slots tb' \<Longrightarrow> table_inv tb = table_inv tb'"
  by (simp add: table_inv_def uniq_def slots_ok_def)

lemma table_inv_replace:
  assumes "table_inv tb" "tok \<noteq> UNSET"
  shows "table_inv (snd (replace_tb tok v tb))"
proof (cases "\<not> hook tb \<or> slot_for tok tb = None")
  case True
  then show ?thesis using assms table_inv_slots replace_tb_full by metis
next
  case False
  then have "table_ok tok tb" using assms by (simp add: table_ok_def table_inv_def)
  from table_ok_replace [OF this, of v] show ?thesis by (simp add: table_ok_def table_inv_def)
qed

lemma table_inv_step: "table_step tb tb' \<Longrightarrow> table_inv tb \<Longrightarrow> table_inv tb'"
proof (erule table_stepE)
  assume "table_inv tb" "tb' = snd (set_hook tb)"
  then show "table_inv tb'"
    using table_inv_slots [of tb tb'] by (simp add: set_hook_def split: if_splits)
qed (simp add: table_inv_replace)

lemma table_inv_reachable: "table_step\<^sup>*\<^sup>* initial_table tb \<Longrightarrow> table_inv tb"
  by (induction rule: rtranclp_induct) (auto intro: table_inv_initial table_inv_step)

lemma replace_tb_other:
  assumes inv: "table_inv tb" "hook tb" and tok: "tok \<noteq> UNSET" "tok' \<noteq> UNSET" "tok' \<noteq> tok"
  shows "current_tb tok' (snd (replace_tb tok v tb)) = current_tb tok' tb"
proof (cases "slot_for tok tb")
  case None
  then have "slots (snd (replace_tb tok v tb)) = slots tb" "hook (snd (replace_tb tok v tb))"
    using inv(2) replace_tb_full [of tb tok v] by auto
  then show ?thesis using inv(2) by (simp add: current_tb_def find_slot_def split: option.split)
next
  case (Some i)
  let ?sl = "bind_slot v ((slots tb ! i)\<lparr>token := tok\<rparr>)"
  let ?tb = "tb\<lparr>slots := (slots tb)[i := ?sl]\<rparr>"
  have tb: "snd (replace_tb tok v tb) = ?tb" using inv Some by (simp add: replace_tb_room)
  have i: "i < length (slots tb)" "token (slots tb ! i) \<noteq> tok'"
    using slot_for_SomeD [OF Some] tok by auto
  have sl: "token ?sl \<noteq> tok'" using tok by (cases v) auto
  have u: "uniq tb" "uniq ?tb" "hook ?tb"
    using inv table_inv_replace [OF inv(1) tok(1), of v] tb by (simp_all add: table_inv_def)
  show ?thesis
  proof (cases "find_slot tok' tb")
    case None
    then have "find_slot tok' ?tb = None"
      using sl i unfolding find_slot_None by (auto dest!: set_update_subset_insert [THEN subsetD])
    then show ?thesis using None u inv tb by (simp add: current_tb_absent)
  next
    case (Some j)
    then have j: "j < length (slots tb)" "token (slots tb ! j) = tok'" "j \<noteq> i"
      using find_slot_SomeD i by auto
    then show ?thesis
      using current_tb_at [of ?tb tok' j] current_tb_at [of tb tok' j] u inv tok tb by simp
  qed
qed

text \<open>
  With a hook installed and every slot taken, the identity goes to the global
  fallback, which \<open>current\<close> never reads.
\<close>

lemma full_table_loses_identity:
  assumes "hook tb" "slot_for tok tb = None"
  shows "current_tb tok (snd (replace_tb tok v tb)) = None"
proof -
  have "find_slot tok tb = None" using assms(2) by (auto simp: slot_for_def split: option.splits)
  then show ?thesis
    using replace_tb_full [of tb tok v] assms
    by (simp add: current_tb_def find_slot_def)
qed

section \<open>Properties\<close>

text \<open>C26: Scoped worker identities nest in the slot table: as long as the body leaves the table in order,
  the identity seen after \<^verbatim>\<open>with_worker\<close> is the one seen before it.\<close>

theorem with_worker_table_restores:
  assumes "table_ok tok tb" and "w \<noteq> UNSET" and "1 \<le> n"
    and "\<And>tb1. table_ok tok tb1 \<Longrightarrow> table_ok tok (snd (body tb1))"
  shows "current_tb tok (snd (with_worker (replace_tb tok) w n body tb)) = current_tb tok tb"
  using assms by (intro table_store.with_worker_restores) (auto simp: real_identity_def)

theorem with_worker_table_restores_witness:
  "current_tb 5 (snd (with_worker (replace_tb 5) 2 4 (\<lambda>tb. (current_tb 5 tb, tb))
     (initial_table\<lparr>hook := True\<rparr>))) = None"
proof -
  have "slot_for 5 (initial_table\<lparr>hook := True\<rparr>) \<noteq> None"
    unfolding slot_for_None by (simp add: initial_table_def MAX_THREADS_def empty_slot_def)
  then have ok: "table_ok 5 (initial_table\<lparr>hook := True\<rparr>)"
    using table_inv_initial by (auto simp: table_ok_def table_inv_def UNSET_def uniq_def slots_ok_def)
  have "current_tb 5 (initial_table\<lparr>hook := True\<rparr>) = None"
    by (simp add: current_tb_def find_slot_def initial_table_def MAX_THREADS_def empty_slot_def
        find_idx_None_iff [THEN iffD2] UNSET_def)
  with with_worker_table_restores [OF ok, of 2 4 "\<lambda>tb. (current_tb 5 tb, tb)"]
  show ?thesis by (simp add: UNSET_def)
qed

text \<open>Contexts do not see each other: in every reachable table, rebinding one context leaves the
  identity of every other context as it was.\<close>

theorem table_contexts_isolated:
  assumes "table_step\<^sup>*\<^sup>* initial_table tb" and "hook tb"
    and "tok \<noteq> UNSET" and "tok' \<noteq> UNSET" and "tok' \<noteq> tok"
  shows "current_tb tok' (snd (replace_tb tok v tb)) = current_tb tok' tb"
  using assms by (intro replace_tb_other table_inv_reachable)

theorem table_contexts_isolated_witness:
  "current_tb 2 (snd (replace_tb 1 (Some (0, 3)) (initial_table\<lparr>hook := True\<rparr>))) =
   current_tb 2 (initial_table\<lparr>hook := True\<rparr>)"
proof -
  have "table_step initial_table (initial_table\<lparr>hook := True\<rparr>)"
    using table_step.install [of initial_table] by (simp add: set_hook_def initial_table_def)
  then show ?thesis
    using table_contexts_isolated [of "initial_table\<lparr>hook := True\<rparr>" 1 2]
    by (simp add: UNSET_def r_into_rtranclp)
qed

text \<open>When every slot of the table is taken by another context, binding an identity has no effect on
  what the context sees: the identity is stored in the global fallback, which \<^verbatim>\<open>current\<close> does not read.\<close>

theorem table_overflow_identity_lost:
  assumes "hook tb" and "\<forall>sl \<in> set (slots tb). token sl \<noteq> tok \<and> token sl \<noteq> UNSET"
  shows "current_tb tok (snd (replace_tb tok (Some (w, n)) tb)) = None"
  using assms by (intro full_table_loses_identity) (auto simp: slot_for_None)

theorem table_overflow_identity_lost_witness:
  "current_tb 1 (snd (replace_tb 1 (Some (2, 4))
     \<lparr>hook = True, slots = replicate MAX_THREADS \<lparr>token = 7, slot_worker = 0, slot_num = 1\<rparr>,
      fallback = (UNSET, 1)\<rparr>)) = None"
  by (rule table_overflow_identity_lost) (simp_all add: MAX_THREADS_def UNSET_def)

end
