(* ===== verification/Texts.thy ===== *)
theory Texts
  imports Errors
begin

text \<open>
  The parts of Rust's text and float handling the data model rests on: UTF-8
  validation (\<^verbatim>\<open>str::from_utf8\<close>), trimming of Unicode white space
  (\<^verbatim>\<open>str::trim\<close>), and \<^verbatim>\<open>f64\<close> values as their 64 bits with the casts from and to
  integers (\<^verbatim>\<open>as f64\<close>, \<^verbatim>\<open>as i64\<close>), rounding to nearest even and saturating as
  Rust does.
\<close>

unbundle bit_operations_syntax

section \<open>UTF-8\<close>

definition cont_byte :: "byte \<Rightarrow> bool" where
  "cont_byte b = (0x80 \<le> b \<and> b \<le> 0xBF)"

text \<open>The length of the scalar value at the head of the bytes, or \<open>None\<close> when it is malformed.\<close>
definition utf8_head :: "bytes \<Rightarrow> nat option" where
  "utf8_head bs =
     (case bs of
        [] \<Rightarrow> None
      | b # r \<Rightarrow>
          if b < 0x80 then Some 1
          else if 0xC2 \<le> b \<and> b \<le> 0xDF then
            (case r of c # _ \<Rightarrow> if cont_byte c then Some 2 else None | _ \<Rightarrow> None)
          else if 0xE0 \<le> b \<and> b \<le> 0xEF then
            (case r of
               c # d # _ \<Rightarrow>
                 if cont_byte c \<and> cont_byte d \<and> (b = 0xE0 \<longrightarrow> 0xA0 \<le> c) \<and> (b = 0xED \<longrightarrow> c \<le> 0x9F)
                 then Some 3 else None
             | _ \<Rightarrow> None)
          else if 0xF0 \<le> b \<and> b \<le> 0xF4 then
            (case r of
               c # d # e # _ \<Rightarrow>
                 if cont_byte c \<and> cont_byte d \<and> cont_byte e \<and>
                    (b = 0xF0 \<longrightarrow> 0x90 \<le> c) \<and> (b = 0xF4 \<longrightarrow> c \<le> 0x8F)
                 then Some 4 else None
             | _ \<Rightarrow> None)
          else None)"

lemma utf8_head_pos: "utf8_head bs = Some n \<Longrightarrow> 0 < n \<and> bs \<noteq> []"
  by (auto simp: utf8_head_def split: list.splits if_splits)

text \<open>The offset of the first malformed sequence.\<close>
function utf8_error :: "nat \<Rightarrow> bytes \<Rightarrow> nat option" where
  "utf8_error off bs =
     (if bs = [] then None
      else case utf8_head bs of
             None \<Rightarrow> Some off
           | Some n \<Rightarrow> utf8_error (off + n) (drop n bs))"
  by pat_completeness auto
termination
  by (relation "measure (\<lambda>(off, bs). length bs)") (auto dest: utf8_head_pos)

declare utf8_error.simps [simp del]

definition from_utf8 :: "bytes \<Rightarrow> string res" where
  "from_utf8 bs =
     (case utf8_error 0 bs of None \<Rightarrow> Inr (of_bytes bs) | Some off \<Rightarrow> Inl (Utf8 off))"

lemma utf8_error_ascii: "\<forall>b\<in>set bs. b < 0x80 \<Longrightarrow> utf8_error off bs = None"
proof (induction bs arbitrary: off)
  case Nil
  then show ?case by (subst utf8_error.simps) simp
next
  case (Cons b bs)
  then have "utf8_head (b # bs) = Some 1" by (simp add: utf8_head_def)
  then show ?case using Cons by (subst utf8_error.simps) simp
qed

lemma unat_of_char: "unat (of_char c :: byte) = of_char c"
proof -
  have "(of_char c :: byte) = of_nat (of_char c)" by (simp only: of_nat_of_char)
  then show ?thesis by (simp only: unat_of_nat) (simp add: take_bit_eq_mod)
qed

lemma of_bytes_as_bytes [simp]: "of_bytes (as_bytes s) = s"
  by (induction s) (simp_all add: of_bytes_def as_bytes_def unat_of_char)

lemma length_as_bytes [simp]: "length (as_bytes s) = length s"
  by (simp add: as_bytes_def)

lemma as_bytes_append [simp]: "as_bytes (s @ t) = as_bytes s @ as_bytes t"
  by (simp add: as_bytes_def)

lemma of_char_byte_less: "(of_char c :: byte) < 0x80 \<longleftrightarrow> (of_char c :: nat) < 0x80"
  by (simp add: word_less_nat_alt unat_of_char)

lemma from_utf8_ascii:
  assumes "\<forall>c\<in>set s. (of_char c :: nat) < 128"
  shows "from_utf8 (as_bytes s) = Inr s"
proof -
  have "\<forall>b\<in>set (as_bytes s). b < 0x80"
    using assms by (auto simp: as_bytes_def of_char_byte_less)
  then show ?thesis by (simp add: from_utf8_def utf8_error_ascii)
qed

section \<open>White space\<close>

text \<open>The UTF-8 of the characters with the Unicode property White_Space.\<close>
definition ws_seqs :: "string list" where
  "ws_seqs =
   [[CHR 0x09], [CHR 0x0A], [CHR 0x0B], [CHR 0x0C], [CHR 0x0D], [CHR 0x20],
     [CHR 0xC2, CHR 0x85], [CHR 0xC2, CHR 0xA0], [CHR 0xE1, CHR 0x9A, CHR 0x80],
     [CHR 0xE2, CHR 0x80, CHR 0x80], [CHR 0xE2, CHR 0x80, CHR 0x81],
     [CHR 0xE2, CHR 0x80, CHR 0x82], [CHR 0xE2, CHR 0x80, CHR 0x83],
     [CHR 0xE2, CHR 0x80, CHR 0x84], [CHR 0xE2, CHR 0x80, CHR 0x85],
     [CHR 0xE2, CHR 0x80, CHR 0x86], [CHR 0xE2, CHR 0x80, CHR 0x87],
     [CHR 0xE2, CHR 0x80, CHR 0x88], [CHR 0xE2, CHR 0x80, CHR 0x89],
     [CHR 0xE2, CHR 0x80, CHR 0x8A], [CHR 0xE2, CHR 0x80, CHR 0xA8],
     [CHR 0xE2, CHR 0x80, CHR 0xA9], [CHR 0xE2, CHR 0x80, CHR 0xAF],
     [CHR 0xE2, CHR 0x81, CHR 0x9F], [CHR 0xE3, CHR 0x80, CHR 0x80]]"

function drop_seqs :: "string list \<Rightarrow> string \<Rightarrow> string" where
  "drop_seqs seqs s =
     (case List.find (\<lambda>p. p \<noteq> [] \<and> prefix p s) seqs of
        None \<Rightarrow> s
      | Some p \<Rightarrow> drop_seqs seqs (drop (length p) s))"
  by pat_completeness auto
termination
proof (relation "measure (\<lambda>(q, s). length s)", goal_cases)
  case (2 seqs s p)
  then have "p \<noteq> [] \<and> prefix p s" by (auto simp: find_Some_iff)
  then have "0 < length p" "length p \<le> length s" by (auto simp: prefix_length_le)
  then have "length s - length p < length s" by linarith
  then show ?case by simp
qed simp

declare drop_seqs.simps [simp del]

definition trim_start :: "string \<Rightarrow> string" where
  "trim_start s = drop_seqs ws_seqs s"

definition trim_end :: "string \<Rightarrow> string" where
  "trim_end s = rev (drop_seqs (map rev ws_seqs) (rev s))"

definition trim :: "string \<Rightarrow> string" where
  "trim s = trim_end (trim_start s)"

lemma drop_seqs_stop:
  "(\<And>p. p \<in> set seqs \<Longrightarrow> \<not> (p \<noteq> [] \<and> prefix p s)) \<Longrightarrow> drop_seqs seqs s = s"
  by (subst drop_seqs.simps) (auto simp: find_Some_iff split: option.split dest: nth_mem)

lemma drop_seqs_step:
  assumes "p \<in> set seqs" "p \<noteq> []"
    and "\<And>q. q \<in> set seqs \<Longrightarrow> q \<noteq> [] \<Longrightarrow> prefix q (p @ s) \<Longrightarrow> q = p"
  shows "drop_seqs seqs (p @ s) = drop_seqs seqs s"
proof -
  obtain q where q: "List.find (\<lambda>p'. p' \<noteq> [] \<and> prefix p' (p @ s)) seqs = Some q"
    using assms(1,2) by (cases "List.find (\<lambda>p'. p' \<noteq> [] \<and> prefix p' (p @ s)) seqs")
      (auto simp: find_None_iff)
  then have "q = p" using assms(3) by (auto simp: find_Some_iff)
  then show ?thesis using q by (subst drop_seqs.simps) simp
qed

text \<open>Text that starts and ends with a plain ASCII character stays as it is.\<close>

definition solid :: "char \<Rightarrow> bool" where
  "solid c = (let n = of_char c :: nat in 33 \<le> n \<and> n < 128)"

lemma ws_seqs_hd: "p \<in> set ws_seqs \<Longrightarrow> p \<noteq> [] \<and> \<not> solid (hd p) \<and> \<not> solid (last p)"
proof -
  have "\<forall>p\<in>set ws_seqs. p \<noteq> [] \<and> \<not> solid (hd p) \<and> \<not> solid (last p)"
    by (simp add: ws_seqs_def solid_def)
  then show "p \<in> set ws_seqs \<Longrightarrow> ?thesis" by blast
qed

lemma trim_start_solid: "solid (hd s) \<Longrightarrow> trim_start s = s"
  unfolding trim_start_def
  by (rule drop_seqs_stop) (metis hd_append2 prefix_def ws_seqs_hd)

lemma trim_end_solid: "s \<noteq> [] \<Longrightarrow> solid (last s) \<Longrightarrow> trim_end s = s"
proof -
  assume "s \<noteq> []" "solid (last s)"
  then have "drop_seqs (map rev ws_seqs) (rev s) = rev s"
    by (intro drop_seqs_stop)
       (auto simp: prefix_def, metis hd_append2 hd_rev rev_is_Nil_conv ws_seqs_hd)
  then show ?thesis by (simp add: trim_end_def)
qed

lemma trim_solid: "s \<noteq> [] \<Longrightarrow> solid (hd s) \<Longrightarrow> solid (last s) \<Longrightarrow> trim s = s"
  by (simp add: trim_def trim_start_solid trim_end_solid)

lemma ws_space: "'' '' \<in> set ws_seqs \<and> (\<forall>q\<in>set ws_seqs. hd q = CHR '' '' \<longrightarrow> q = '' '')"
  by (simp add: ws_seqs_def)

lemma trim_start_space:
  assumes "solid c"
  shows "trim_start (CHR '' '' # c # s) = c # s"
proof -
  have "drop_seqs ws_seqs ('' '' @ c # s) = drop_seqs ws_seqs (c # s)"
  proof (rule drop_seqs_step)
    show "'' '' \<in> set ws_seqs" using ws_space by blast
    show "q = '' ''" if "q \<in> set ws_seqs" "q \<noteq> []" "prefix q ('' '' @ c # s)" for q
    proof -
      have "hd q = CHR '' ''" using that(2,3) by (cases q) auto
      then show ?thesis using ws_space that(1) by blast
    qed
  qed simp
  then show ?thesis using trim_start_solid [of "c # s"] assms by (simp add: trim_start_def)
qed

section \<open>Floating point\<close>

type_synonym f64 = "64 word"

definition f64_sign :: "f64 \<Rightarrow> bool" where "f64_sign b = bit b 63"
definition f64_exp :: "f64 \<Rightarrow> nat" where "f64_exp b = unat (drop_bit 52 b AND 0x7FF)"
definition f64_mant :: "f64 \<Rightarrow> nat" where "f64_mant b = unat (b AND 0xFFFFFFFFFFFFF)"

definition f64_nan :: "f64 \<Rightarrow> bool" where
  "f64_nan b = (f64_exp b = 0x7FF \<and> f64_mant b \<noteq> 0)"

definition f64_zero :: "f64 \<Rightarrow> bool" where
  "f64_zero b = (f64_exp b = 0 \<and> f64_mant b = 0)"

definition f64_eq :: "f64 \<Rightarrow> f64 \<Rightarrow> bool" where
  "f64_eq a b = (\<not> f64_nan a \<and> \<not> f64_nan b \<and> (a = b \<or> (f64_zero a \<and> f64_zero b)))"

text \<open>\<^verbatim>\<open>x as i64\<close>: truncation towards zero, saturating, zero for NaN.\<close>
definition f64_to_i64 :: "f64 \<Rightarrow> int" where
  "f64_to_i64 b =
     (if f64_nan b then 0
      else
        (let m = (if f64_exp b = 0 then f64_mant b else f64_mant b + 2 ^ 52);
             e = max (f64_exp b) 1;
             mag = (if f64_exp b = 0x7FF then 2 ^ 63
                    else if 1075 + 64 \<le> e then 2 ^ 63
                    else if 1075 \<le> e then m * 2 ^ (e - 1075)
                    else m div 2 ^ (1075 - e));
             v = (if f64_sign b then - int mag else int mag)
         in max (- (2 ^ 63)) (min (2 ^ 63 - 1) v)))"

fun bit_len :: "nat \<Rightarrow> nat" where
  "bit_len n = (if n = 0 then 0 else Suc (bit_len (n div 2)))"

declare bit_len.simps [simp del]

text \<open>The bits of \<open>m * 2^e\<close> for a mantissa of at most 53 bits and a normal exponent.\<close>
definition f64_dyadic :: "bool \<Rightarrow> nat \<Rightarrow> int \<Rightarrow> f64" where
  "f64_dyadic s m e =
     (if m = 0 then (if s then push_bit 63 1 else 0)
      else
        (let k = bit_len m;
             biased = nat (e + int k - 1 + 1023)
         in of_nat ((if s then 2 ^ 63 else 0) + biased * 2 ^ 52 + (m * 2 ^ (53 - k) - 2 ^ 52))))"

text \<open>\<^verbatim>\<open>x as f64\<close> from an integer: round to nearest, ties to even.\<close>
definition int_to_f64 :: "int \<Rightarrow> f64" where
  "int_to_f64 i =
     (let n = nat (abs i); k = bit_len n in
      if k \<le> 53 then f64_dyadic (i < 0) n 0
      else
        (let s = k - 53; q = n div 2 ^ s; r = n mod 2 ^ s;
             q' = (if 2 ^ (s - 1) < r \<or> (r = 2 ^ (s - 1) \<and> odd q) then q + 1 else q)
         in if q' = 2 ^ 53 then f64_dyadic (i < 0) (2 ^ 52) (int s + 1)
            else f64_dyadic (i < 0) q' (int s)))"

end
