(* ===== verification/Tensors.thy ===== *)
theory Tensors
  imports Texts
begin

text \<open>
  \<^verbatim>\<open>webdataset-core/src/tensor.rs\<close>: element types and dense tensors.  The target is
  little-endian, so the native element bytes are little-endian; \<^verbatim>\<open>usize\<close> arithmetic
  is 64 bits wide and checked.
\<close>

datatype dtype = F16 | F32 | F64 | I8 | I16 | I32 | I64 | U8 | U16 | U32 | U64

fun dtype_size :: "dtype \<Rightarrow> nat" where
  "dtype_size I8 = 1" | "dtype_size U8 = 1"
| "dtype_size F16 = 2" | "dtype_size I16 = 2" | "dtype_size U16 = 2"
| "dtype_size F32 = 4" | "dtype_size I32 = 4" | "dtype_size U32 = 4"
| "dtype_size F64 = 8" | "dtype_size I64 = 8" | "dtype_size U64 = 8"

fun long_name :: "dtype \<Rightarrow> string" where
  "long_name F16 = ''float16''" | "long_name F32 = ''float32''" | "long_name F64 = ''float64''"
| "long_name I8 = ''int8''" | "long_name I16 = ''int16''" | "long_name I32 = ''int32''"
| "long_name I64 = ''int64''" | "long_name U8 = ''uint8''" | "long_name U16 = ''uint16''"
| "long_name U32 = ''uint32''" | "long_name U64 = ''uint64''"

fun short_name :: "dtype \<Rightarrow> string" where
  "short_name F16 = ''f2''" | "short_name F32 = ''f4''" | "short_name F64 = ''f8''"
| "short_name I8 = ''i1''" | "short_name I16 = ''i2''" | "short_name I32 = ''i4''"
| "short_name I64 = ''i8''" | "short_name U8 = ''u1''" | "short_name U16 = ''u2''"
| "short_name U32 = ''u4''" | "short_name U64 = ''u8''"

definition dtype_parse :: "string \<Rightarrow> dtype res" where
  "dtype_parse name =
     (if name = ''float16'' \<or> name = ''f2'' then Inr F16
      else if name = ''float32'' \<or> name = ''f4'' then Inr F32
      else if name = ''float64'' \<or> name = ''f8'' then Inr F64
      else if name = ''int8'' \<or> name = ''i1'' then Inr I8
      else if name = ''int16'' \<or> name = ''i2'' then Inr I16
      else if name = ''int32'' \<or> name = ''i4'' then Inr I32
      else if name = ''int64'' \<or> name = ''i8'' then Inr I64
      else if name = ''uint8'' \<or> name = ''u1'' then Inr U8
      else if name = ''uint16'' \<or> name = ''u2'' then Inr U16
      else if name = ''uint32'' \<or> name = ''u4'' then Inr U32
      else if name = ''uint64'' \<or> name = ''u8'' then Inr U64
      else Inl (Unsupported ''dtype''))"

definition is_float :: "dtype \<Rightarrow> bool" where
  "is_float d = (d = F16 \<or> d = F32 \<or> d = F64)"

record tensor =
  dtype :: dtype
  shape :: "nat list"
  data :: bytes

section \<open>Checked sizes\<close>

text \<open>\<^verbatim>\<open>shape.iter().product::<usize>()\<close>: every partial product must fit.\<close>
fun product_from :: "nat \<Rightarrow> nat list \<Rightarrow> nat res" where
  "product_from acc [] = Inr acc"
| "product_from acc (d # ds) =
     (if acc * d < 2 ^ 64 then product_from (acc * d) ds
      else Inl (Panic ''attempt to multiply with overflow''))"

definition shape_product :: "nat list \<Rightarrow> nat res" where
  "shape_product ds = product_from 1 ds"

definition byte_count :: "dtype \<Rightarrow> nat list \<Rightarrow> nat res" where
  "byte_count dt ds =
     and_then (shape_product ds)
       (\<lambda>n. if n * dtype_size dt < 2 ^ 64 then Inr (n * dtype_size dt)
            else Inl (Panic ''attempt to multiply with overflow''))"

definition tensor_new :: "dtype \<Rightarrow> nat list \<Rightarrow> bytes \<Rightarrow> tensor res" where
  "tensor_new dt ds bs =
     and_then (byte_count dt ds)
       (\<lambda>expected. if length bs \<noteq> expected then Inl (Format ''tensor data size does not match its shape'')
                    else Inr \<lparr>dtype = dt, shape = ds, data = bs\<rparr>)"

definition le_bytes :: "nat \<Rightarrow> nat \<Rightarrow> bytes" where
  "le_bytes n v = map (\<lambda>i. of_nat (v div 256 ^ i)) [0..<n]"

fun from_le :: "bytes \<Rightarrow> nat" where
  "from_le [] = 0"
| "from_le (b # bs) = unat b + 256 * from_le bs"

definition from_f32_shaped :: "32 word list \<Rightarrow> nat list \<Rightarrow> tensor res" where
  "from_f32_shaped values ds =
     and_then (shape_product ds)
       (\<lambda>n. if n \<noteq> length values then Inl (Panic ''shape does not match value count'')
            else Inr \<lparr>dtype = F32, shape = ds, data = concat (map (\<lambda>v. le_bytes 4 (unat v)) values)\<rparr>)"

definition from_f32 :: "32 word list \<Rightarrow> tensor res" where
  "from_f32 values = from_f32_shaped values [length values]"

definition from_u8_shaped :: "bytes \<Rightarrow> nat list \<Rightarrow> tensor res" where
  "from_u8_shaped values ds =
     and_then (shape_product ds)
       (\<lambda>n. if n \<noteq> length values then Inl (Panic ''shape does not match value count'')
            else Inr \<lparr>dtype = U8, shape = ds, data = values\<rparr>)"

definition ndim :: "tensor \<Rightarrow> nat" where "ndim t = length (shape t)"

definition numel :: "tensor \<Rightarrow> nat res" where "numel t = shape_product (shape t)"

definition reshape :: "tensor \<Rightarrow> nat list \<Rightarrow> tensor res" where
  "reshape t ds = tensor_new (dtype t) ds (data t)"

section \<open>Elements\<close>

text \<open>
  Widening a binary16: every step of the source's arithmetic is exact, so the
  result is the dyadic number it denotes.
\<close>
definition f16_to_f64 :: "16 word \<Rightarrow> f64" where
  "f16_to_f64 bits =
     (let s = bit bits 15;
          e = unat (drop_bit 10 bits AND 0x1F);
          m = unat (bits AND 0x3FF)
      in if e = 0 then f64_dyadic s m (-24)
         else if e = 0x1F then
           (if m = 0 then (if s then 0xFFF0000000000000 else 0x7FF0000000000000)
            else 0x7FF8000000000000)
         else f64_dyadic s (1024 + m) (int e - 25))"

text \<open>\<^verbatim>\<open>f32 as f64\<close>, which is exact.\<close>
definition f32_to_f64 :: "32 word \<Rightarrow> f64" where
  "f32_to_f64 bits =
     (let s = bit bits 31;
          e = unat (drop_bit 23 bits AND 0xFF);
          m = unat (bits AND 0x7FFFFF)
      in if e = 0 then f64_dyadic s m (-149)
         else if e = 0xFF then
           of_nat ((if s then 2 ^ 63 else 0) + 0x7FF * 2 ^ 52 +
                   (if m = 0 then 0 else (m + (if m < 2 ^ 22 then 2 ^ 22 else 0)) * 2 ^ 29))
         else f64_dyadic s (2 ^ 23 + m) (int e - 150))"

definition as_signed :: "nat \<Rightarrow> nat \<Rightarrow> int" where
  "as_signed w n = (if n < 2 ^ (w - 1) then int n else int n - 2 ^ w)"

definition element_of_bytes :: "dtype \<Rightarrow> bytes \<Rightarrow> f64" where
  "element_of_bytes dt b =
     (let n = from_le b in
      case dt of
        F16 \<Rightarrow> f16_to_f64 (of_nat n)
      | F32 \<Rightarrow> f32_to_f64 (of_nat n)
      | F64 \<Rightarrow> of_nat n
      | I8 \<Rightarrow> int_to_f64 (as_signed 8 n)
      | I16 \<Rightarrow> int_to_f64 (as_signed 16 n)
      | I32 \<Rightarrow> int_to_f64 (as_signed 32 n)
      | I64 \<Rightarrow> int_to_f64 (as_signed 64 n)
      | _ \<Rightarrow> int_to_f64 (int n))"

definition element_at :: "tensor \<Rightarrow> nat \<Rightarrow> f64 res" where
  "element_at t i =
     (let s = dtype_size (dtype t) in
      if (i + 1) * s \<le> length (data t) then Inr (element_of_bytes (dtype t) (take s (drop (i * s) (data t))))
      else Inl (Panic ''range end index out of range''))"

definition to_f64_vec :: "tensor \<Rightarrow> f64 list res" where
  "to_f64_vec t = and_then (numel t) (\<lambda>n. collect_res (element_at t) [0..<n])"

definition tensor_get :: "tensor \<Rightarrow> nat \<Rightarrow> f64 res" where
  "tensor_get t i =
     and_then (numel t)
       (\<lambda>n. if i < n then element_at t i else Inl (Panic ''index out of bounds''))"

section \<open>Facts\<close>

lemma dtype_size_pos [simp]: "0 < dtype_size dt"
  by (cases dt) auto

lemma dtype_parse_names [simp]:
  "dtype_parse (short_name dt) = Inr dt" "dtype_parse (long_name dt) = Inr dt"
  by (cases dt; simp add: dtype_parse_def)+

lemma unat_byte_less: "unat (b :: byte) < 256"
proof -
  have "unat b < 2 ^ LENGTH(8)" by (rule unsigned_less)
  then show ?thesis by simp
qed

lemma length_le_bytes [simp]: "length (le_bytes n v) = n"
  by (simp add: le_bytes_def)

lemma le_bytes_Suc: "le_bytes (Suc n) v = of_nat v # le_bytes n (v div 256)"
  unfolding le_bytes_def
  by (simp add: upt_conv_Cons map_Suc_upt [symmetric] div_mult2_eq del: upt_Suc)

lemma from_le_le_bytes: "from_le (le_bytes n v) = v mod 256 ^ n"
proof (induction n arbitrary: v)
  case (Suc n)
  then show ?case
    by (simp add: le_bytes_Suc unat_of_nat mod_mult2_eq)
qed (simp add: le_bytes_def)

lemma from_le_le_bytes_id: "v < 256 ^ n \<Longrightarrow> from_le (le_bytes n v) = v"
  by (simp add: from_le_le_bytes)

lemma le_bytes_from_le: "le_bytes (length bs) (from_le bs) = bs"
proof (induction bs)
  case (Cons b bs)
  have "unat b < 256" by (rule unat_byte_less)
  moreover have "(of_nat (unat b + 256 * from_le bs) :: byte) = b"
  proof -
    have "(256 :: byte) = 0" by simp
    then show ?thesis by (simp only: of_nat_add of_nat_mult of_nat_numeral) simp
  qed
  ultimately show ?case using Cons by (simp add: le_bytes_Suc)
qed (simp add: le_bytes_def)

lemma from_le_bound: "from_le bs < 256 ^ length bs"
proof (induction bs)
  case (Cons b bs)
  have "unat b < 256" by (rule unat_byte_less)
  with Cons show ?case by simp
qed simp

lemma product_from_Inr: "product_from acc ds = Inr n \<Longrightarrow> n = acc * prod_list ds \<and> (n < 2 ^ 64 \<or> ds = [])"
  by (induction acc ds rule: product_from.induct) (auto split: if_splits)

lemma shape_product_Inr: "shape_product ds = Inr n \<Longrightarrow> n = prod_list ds \<and> n < 2 ^ 64"
  unfolding shape_product_def by (drule product_from_Inr) auto

lemma byte_count_Inr:
  "byte_count dt ds = Inr n \<Longrightarrow> n = prod_list ds * dtype_size dt \<and> n < 2 ^ 64"
  by (auto simp: byte_count_def and_then_Inr_iff split: if_splits dest: shape_product_Inr)

text \<open>The invariant \<^verbatim>\<open>Tensor::new\<close> establishes.\<close>

definition tensor_ok :: "tensor \<Rightarrow> bool" where
  "tensor_ok t = (byte_count (dtype t) (shape t) = Inr (length (data t)))"

lemma tensor_new_Inr_iff:
  "tensor_new dt ds bs = Inr t \<longleftrightarrow>
     t = \<lparr>dtype = dt, shape = ds, data = bs\<rparr> \<and> tensor_ok t"
  by (auto simp: tensor_new_def tensor_ok_def and_then_Inr_iff split: if_splits)

lemma tensor_ok_length: "tensor_ok t \<Longrightarrow> length (data t) = prod_list (shape t) * dtype_size (dtype t)"
  unfolding tensor_ok_def by (drule byte_count_Inr) simp

lemma tensor_ok_numel: "tensor_ok t \<Longrightarrow> numel t = Inr (prod_list (shape t))"
  by (auto simp: tensor_ok_def byte_count_def numel_def and_then_Inr_iff dest: shape_product_Inr)

lemma reshape_ok: "reshape t ds = Inr u \<Longrightarrow> tensor_ok u \<and> data u = data t \<and> shape u = ds"
  by (auto simp: reshape_def tensor_new_Inr_iff)

text \<open>Reading the elements of a tensor never goes out of bounds.\<close>

lemma element_at_ok:
  assumes "tensor_ok t" "i < prod_list (shape t)"
  shows "element_at t i = Inr (element_of_bytes (dtype t)
    (take (dtype_size (dtype t)) (drop (i * dtype_size (dtype t)) (data t))))"
proof -
  have "(i + 1) * dtype_size (dtype t) \<le> prod_list (shape t) * dtype_size (dtype t)"
    using assms(2) by (intro mult_le_mono1) simp
  then show ?thesis using assms(1) by (simp add: element_at_def tensor_ok_length Let_def)
qed

lemma to_f64_vec_ok:
  assumes "tensor_ok t"
  shows "\<exists>xs. to_f64_vec t = Inr xs \<and> length xs = prod_list (shape t)"
proof -
  let ?g = "\<lambda>i. element_of_bytes (dtype t)
    (take (dtype_size (dtype t)) (drop (i * dtype_size (dtype t)) (data t)))"
  have "collect_res (element_at t) [0..<prod_list (shape t)] = Inr (map ?g [0..<prod_list (shape t)])"
    using element_at_ok [OF assms] by (intro collect_res_all_Inr) simp
  then show ?thesis using assms by (simp add: to_f64_vec_def tensor_ok_numel)
qed

end
