(* ===== verification/Npy.thy ===== *)
theory Npy
  imports Tensors
begin

text \<open>
  \<^verbatim>\<open>webdataset-core/src/npy.rs\<close>: the NumPy container format.  The encoder writes
  version 1.0 with a header padded to 64 bytes; the decoder accepts versions 1 to 3
  in either byte order.
\<close>

definition npy_magic :: bytes where "npy_magic = [0x93, 0x4E, 0x55, 0x4D, 0x50, 0x59]"

definition alignment :: nat where "alignment = 64"

definition order_char :: string where "order_char = ''<''"

definition shape_text :: "nat list \<Rightarrow> string" where
  "shape_text ds =
     (case ds of
        [] \<Rightarrow> ''()''
      | [one] \<Rightarrow> ''('' @ show_nat one @ '',)''
      | _ \<Rightarrow> ''('' @ join_with '', '' (map show_nat ds) @ '')'')"

definition npy_dict :: "tensor \<Rightarrow> string" where
  "npy_dict t =
     ''{'' @ [CHR 39] @ ''descr'' @ [CHR 39] @ '': '' @ [CHR 39] @ order_char @ short_name (dtype t) @ [CHR 39] @
     '', '' @ [CHR 39] @ ''fortran_order'' @ [CHR 39] @ '': False, '' @
     [CHR 39] @ ''shape'' @ [CHR 39] @ '': '' @ shape_text (shape t) @ '', }''"

definition npy_header :: "tensor \<Rightarrow> string" where
  "npy_header t =
     (let dict = npy_dict t;
          unpadded = 6 + 2 + 2 + length dict + 1;
          padding = (alignment - unpadded mod alignment) mod alignment
      in dict @ replicate padding CHR '' '' @ [CHR 10])"

text \<open>The header length is cast to \<^verbatim>\<open>u16\<close>, so it wraps.\<close>
definition npy_block :: "tensor \<Rightarrow> bytes" where
  "npy_block t =
     npy_magic @ [1, 0] @ le_bytes 2 (length (npy_header t) mod 2 ^ 16) @ as_bytes (npy_header t)"

definition to_npy :: "tensor \<Rightarrow> bytes" where
  "to_npy t = npy_block t @ data t"

definition npy_extract :: "string \<Rightarrow> string \<Rightarrow> string option" where
  "npy_extract header key =
     (case split_once ([CHR 39] @ key @ [CHR 39, CHR '':'']) header of
        None \<Rightarrow> None
      | Some (_, rest) \<Rightarrow>
          (case trim_start rest of
             [] \<Rightarrow> None
           | quote # body \<Rightarrow>
               if quote \<noteq> CHR 39 \<and> quote \<noteq> CHR 34 then None
               else map_option fst (split_once [quote] body)))"

definition parse_descr :: "string \<Rightarrow> (dtype \<times> bool) res" where
  "parse_descr descr =
     (let (big_endian, name) =
        (case descr of
           c # cs \<Rightarrow>
             if c = CHR ''<'' \<or> c = CHR ''|'' \<or> c = CHR ''='' then (False, cs)
             else if c = CHR ''>'' then (True, cs)
             else (False, descr)
         | [] \<Rightarrow> (False, descr))
      in map_res (\<lambda>dt. (dt, big_endian)) (dtype_parse name))"

definition parse_shape :: "string \<Rightarrow> nat list res" where
  "parse_shape header =
     (case Option.bind (split_once ([CHR 39] @ ''shape'' @ [CHR 39, CHR '':'']) header)
             (\<lambda>(_, rest). Option.bind (split_once ''('' rest)
                (\<lambda>(_, r). map_option fst (split_once '')'' r))) of
        None \<Rightarrow> Inl (Format ''no shape in .npy header'')
      | Some inner \<Rightarrow>
          collect_res (\<lambda>s. ok_or (Format ''bad shape entry'') (parse_uint 64 10 s))
            (filter (\<lambda>s. s \<noteq> []) (map trim (split_on '','' inner))))"

definition parse_header :: "string \<Rightarrow> (dtype \<times> bool \<times> bool \<times> nat list) res" where
  "parse_header header =
     (case npy_extract header ''descr'' of
        None \<Rightarrow> Inl (Format ''no descr in .npy header'')
      | Some descr \<Rightarrow>
          and_then (parse_descr descr)
            (\<lambda>(dt, big_endian).
               let fortran = contains_sub ([CHR 39] @ ''fortran_order'' @ [CHR 39] @ '': True'') header
               in map_res (\<lambda>ds. (dt, big_endian, fortran, ds)) (parse_shape header)))"

text \<open>\<^verbatim>\<open>chunks_exact_mut(n)\<close> with each chunk reversed; a short tail is left alone.\<close>
function rev_chunks :: "nat \<Rightarrow> bytes \<Rightarrow> bytes" where
  "rev_chunks n bs =
     (if n = 0 \<or> length bs < n then bs else rev (take n bs) @ rev_chunks n (drop n bs))"
  by pat_completeness auto
termination by (relation "measure (\<lambda>(n, bs). length bs)") auto

declare rev_chunks.simps [simp del]

definition npy_body :: "dtype \<Rightarrow> bool \<Rightarrow> bool \<Rightarrow> nat list \<Rightarrow> bytes \<Rightarrow> tensor res" where
  "npy_body dt big_endian fortran ds body =
     and_then (byte_count dt ds)
       (\<lambda>expected.
          if length body < expected then Inl (Format ''.npy body too short'')
          else if fortran then Inl (Unsupported ''Fortran-ordered .npy arrays'')
          else
            (let body = take expected body;
                 body = (if big_endian \<and> 1 < dtype_size dt then rev_chunks (dtype_size dt) body else body)
             in tensor_new dt ds body))"

definition from_npy :: "bytes \<Rightarrow> tensor res" where
  "from_npy bs =
     (if length bs < 10 \<or> take 6 bs \<noteq> npy_magic then Inl (Format ''not a .npy file (bad magic)'')
      else
        and_then
          (let major = bs ! 6 in
           if major = 1 then Inr (from_le (take 2 (drop 8 bs)), 10)
           else if major = 2 \<or> major = 3 then
             (if length bs < 12 then Inl (Format ''truncated .npy header'')
              else Inr (from_le (take 4 (drop 8 bs)), 12))
           else Inl (Unsupported ''.npy version''))
          (\<lambda>(header_len, header_start).
             let header_end = header_start + header_len in
             if length bs < header_end then Inl (Format ''truncated .npy header'')
             else
               and_then (from_utf8 (take header_len (drop header_start bs)))
                 (\<lambda>header.
                    and_then (parse_header header)
                      (\<lambda>(dt, big_endian, fortran, ds).
                         npy_body dt big_endian fortran ds (drop header_end bs)))))"

section \<open>The shape survives printing and parsing\<close>

lemma find_sub_absent: "c \<notin> set s \<Longrightarrow> find_sub (c # p) s = None"
  by (induction s) (auto simp: starts_with_prefix)

lemma find_sub_char: "c \<notin> set s \<Longrightarrow> find_sub [c] (s @ c # r) = Some (length s)"
  by (induction s) (auto simp: starts_with_prefix)

lemma split_once_char: "c \<notin> set s \<Longrightarrow> split_once [c] (s @ c # r) = Some (s, r)"
  by (simp add: split_once_def find_sub_char)

lemma split_on_absent: "c \<notin> set s \<Longrightarrow> split_on [c] s = [s]"
  by (subst split_on.simps) (simp add: find_sub_absent)

lemma split_on_char: "c \<notin> set s \<Longrightarrow> split_on [c] (s @ c # r) = s # split_on [c] r"
  by (subst split_on.simps) (simp add: find_sub_char)

lemma show_nat_no_comma:
  "CHR '','' \<notin> set (show_nat n)" "CHR '')'' \<notin> set (show_nat n)" "CHR 39 \<notin> set (show_nat n)"
proof -
  have "\<not> is_ascii_digit CHR '',''" "\<not> is_ascii_digit CHR '')''" "\<not> is_ascii_digit CHR 39"
    by (simp_all add: is_ascii_digit_def)
  with show_nat_digits [of n] show
    "CHR '','' \<notin> set (show_nat n)" "CHR '')'' \<notin> set (show_nat n)" "CHR 39 \<notin> set (show_nat n)"
    by blast+
qed

lemma trim_show_nat: "trim (show_nat n) = show_nat n" "trim (CHR '' '' # show_nat n) = show_nat n"
proof -
  have d: "is_ascii_digit c \<Longrightarrow> solid c" for c
    by (auto simp: is_ascii_digit_def solid_def Let_def)
  have s: "solid (hd (show_nat n))" "solid (last (show_nat n))"
    using show_nat_digits [of n] d hd_in_set last_in_set show_nat_not_Nil by blast+
  then show "trim (show_nat n) = show_nat n" by (simp add: trim_solid)
  have "trim_start (CHR '' '' # show_nat n) = show_nat n"
    using trim_start_space [of "hd (show_nat n)" "tl (show_nat n)"] s(1) by simp
  then show "trim (CHR '' '' # show_nat n) = show_nat n"
    using s by (simp add: trim_def trim_end_solid)
qed

definition shape_inner :: "nat list \<Rightarrow> string" where
  "shape_inner ds =
     (case ds of [] \<Rightarrow> [] | [one] \<Rightarrow> show_nat one @ '','' | _ \<Rightarrow> join_with '', '' (map show_nat ds))"

lemma shape_text_inner: "shape_text ds = ''('' @ shape_inner ds @ '')''"
  by (simp add: shape_text_def shape_inner_def split: list.split)

lemma split_join_shape:
  "map trim (split_on '','' (join_with '', '' (map show_nat (d # ds)))) = map show_nat (d # ds) \<and>
   map trim (split_on '','' (CHR '' '' # join_with '', '' (map show_nat (d # ds)))) = map show_nat (d # ds)"
proof (induction ds arbitrary: d)
  case Nil
  then show ?case by (simp add: split_on_absent show_nat_no_comma trim_show_nat)
next
  case (Cons e ds)
  let ?rest = "join_with '', '' (map show_nat (e # ds))"
  have "CHR '','' \<notin> set (CHR '' '' # show_nat d)" using show_nat_no_comma(1) by simp
  from split_on_char [OF this, of "CHR '' '' # ?rest"]
    split_on_char [OF show_nat_no_comma(1) [of d], of "CHR '' '' # ?rest"] Cons.IH [of e]
  show ?case by (simp add: trim_show_nat)
qed

lemma trim_Nil: "trim [] = []"
  by code_simp

lemma parse_shape_entries:
  "filter (\<lambda>s. s \<noteq> []) (map trim (split_on '','' (shape_inner ds))) = map show_nat ds"
proof -
  consider "ds = []" | d where "ds = [d]" | d e r where "ds = d # e # r"
    by (cases ds rule: remdups_adj.cases) auto
  then show ?thesis
  proof cases
    case 1
    then show ?thesis by (simp add: shape_inner_def split_on_absent trim_Nil)
  next
    case 2
    then show ?thesis
      using split_on_char [OF show_nat_no_comma(1) [of d], of "[]"]
      by (simp add: shape_inner_def split_on_absent trim_Nil trim_show_nat)
  next
    case 3
    then show ?thesis
      using split_join_shape [of d "e # r"] by (simp add: shape_inner_def)
  qed
qed

section \<open>The header parses back\<close>

definition dict_head :: "dtype \<Rightarrow> string" where
  "dict_head dt =
     ''{'' @ [CHR 39] @ ''descr'' @ [CHR 39] @ '': '' @ [CHR 39] @ order_char @ short_name dt @ [CHR 39] @
     '', '' @ [CHR 39] @ ''fortran_order'' @ [CHR 39] @ '': False, ''"

definition dict_tail :: "tensor \<Rightarrow> string" where
  "dict_tail t =
     '' '' @ shape_text (shape t) @ '', }'' @
     replicate ((alignment - (6 + 2 + 2 + length (npy_dict t) + 1) mod alignment) mod alignment) CHR '' '' @ [CHR 10]"

definition shape_needle :: string where
  "shape_needle = [CHR 39] @ ''shape'' @ [CHR 39, CHR '':'']"

lemma npy_header_split: "npy_header t = dict_head (dtype t) @ shape_needle @ dict_tail t"
  by (simp add: npy_header_def npy_dict_def dict_head_def dict_tail_def shape_needle_def Let_def)

lemma set_join_with: "set (join_with p xs) \<subseteq> set p \<union> \<Union> (set ` set xs)"
  by (induction p xs rule: join_with.induct) auto

lemma shape_inner_chars: "c \<in> set (shape_inner ds) \<Longrightarrow> is_ascii_digit c \<or> c = CHR '','' \<or> c = CHR '' ''"
proof -
  assume c: "c \<in> set (shape_inner ds)"
  have d: "c \<in> set (show_nat n) \<Longrightarrow> is_ascii_digit c" for n using show_nat_digits by blast
  have "c \<in> set (join_with '', '' (map show_nat ds)) \<Longrightarrow> is_ascii_digit c \<or> c = CHR '','' \<or> c = CHR '' ''"
    using set_join_with [of "'', ''" "map show_nat ds"] d by fastforce
  moreover have "c \<in> set (join_with '', '' (map show_nat ds)) \<or>
      (\<exists>n. c \<in> set (show_nat n)) \<or> c = CHR '',''"
    using c by (cases ds rule: remdups_adj.cases) (auto simp: shape_inner_def)
  ultimately show ?thesis using d by blast
qed

lemma dict_tail_chars:
  "c \<in> set (dict_tail t) \<Longrightarrow>
     is_ascii_digit c \<or> c \<in> {CHR '','', CHR '' '', CHR ''('', CHR '')'', CHR ''}'', CHR 10}"
  using shape_inner_chars [of c "shape t"]
  by (auto simp: dict_tail_def shape_text_inner split: if_splits)

lemma dict_tail_no_quote: "CHR 39 \<notin> set (dict_tail t)"
proof
  assume "CHR 39 \<in> set (dict_tail t)"
  from dict_tail_chars [OF this] show False by (simp add: is_ascii_digit_def)
qed

lemma shape_needle_found:
  "find_sub shape_needle (dict_head dt @ shape_needle @ r) = Some (length (dict_head dt))"
  by (cases dt) (simp_all add: shape_needle_def dict_head_def order_char_def starts_with_def)

lemma not_fortran:
  assumes "CHR 39 \<notin> set r"
  shows "find_sub ([CHR 39] @ ''fortran_order'' @ [CHR 39] @ '': True'') (dict_head dt @ shape_needle @ r) = None"
  using find_sub_absent [OF assms, of "''fortran_order'' @ [CHR 39] @ '': True''"]
  by (cases dt) (simp_all add: shape_needle_def dict_head_def order_char_def starts_with_def)

lemma descr_found: "npy_extract (dict_head dt @ r) ''descr'' = Some (order_char @ short_name dt)"
proof -
  let ?tail = "'', '' @ [CHR 39] @ ''fortran_order'' @ [CHR 39] @ '': False, '' @ r"
  have h: "dict_head dt @ r = ''{'' @ ([CHR 39] @ ''descr'' @ [CHR 39, CHR '':'']) @
      CHR '' '' # CHR 39 # (order_char @ short_name dt) @ CHR 39 # ?tail"
    by (simp add: dict_head_def)
  have "split_once ([CHR 39] @ ''descr'' @ [CHR 39, CHR '':'']) (dict_head dt @ r) =
      Some (''{'', CHR '' '' # CHR 39 # (order_char @ short_name dt) @ CHR 39 # ?tail)"
    unfolding h by (simp add: split_once_def starts_with_def)
  moreover have nq: "CHR 39 \<notin> set (order_char @ short_name dt)"
    by (cases dt) (simp_all add: order_char_def)
  moreover have "solid CHR 39" by (simp add: solid_def)
  moreover from nq have "split_once [CHR 39] ((order_char @ short_name dt) @ CHR 39 # ?tail) =
      Some (order_char @ short_name dt, ?tail)"
    by (rule split_once_char)
  ultimately show ?thesis
    by (simp add: npy_extract_def trim_start_space)
qed

lemma parse_shape_header: "\<forall>d\<in>set (shape t). d < 2 ^ 64 \<Longrightarrow> parse_shape (npy_header t) = Inr (shape t)"
proof -
  assume small: "\<forall>d\<in>set (shape t). d < 2 ^ 64"
  obtain rest where tail: "dict_tail t = '' '' @ ''('' @ shape_inner (shape t) @ '')'' @ rest"
    by (simp add: dict_tail_def shape_text_inner)
  have "split_once shape_needle (npy_header t) = Some (dict_head (dtype t), dict_tail t)"
    by (simp add: split_once_def npy_header_split shape_needle_found)
  moreover have "split_once ''('' (dict_tail t) = Some ('' '', shape_inner (shape t) @ '')'' @ rest)"
    using split_once_char [of "CHR ''(''" "'' ''"] by (simp add: tail)
  moreover have "CHR '')'' \<notin> set (shape_inner (shape t))"
  proof
    assume "CHR '')'' \<in> set (shape_inner (shape t))"
    from shape_inner_chars [OF this] show False by (simp add: is_ascii_digit_def)
  qed
  then have "split_once '')'' (shape_inner (shape t) @ '')'' @ rest) = Some (shape_inner (shape t), rest)"
    using split_once_char by simp
  moreover have "collect_res (\<lambda>s. ok_or (Format ''bad shape entry'') (parse_uint 64 10 s)) (map show_nat (shape t)) = Inr (shape t)"
    using small by (simp add: collect_res_Inr_iff list_all2_conv_all_nth parse_uint_show_nat)
  ultimately show ?thesis
    by (simp add: parse_shape_def shape_needle_def parse_shape_entries)
qed

lemma parse_header_npy_header:
  assumes "\<forall>d\<in>set (shape t). d < 2 ^ 64"
  shows "parse_header (npy_header t) = Inr (dtype t, False, False, shape t)"
proof -
  have "npy_extract (npy_header t) ''descr'' = Some (order_char @ short_name (dtype t))"
    by (simp add: npy_header_split descr_found)
  moreover have "\<not> contains_sub ([CHR 39] @ ''fortran_order'' @ [CHR 39] @ '': True'') (npy_header t)"
    using not_fortran [OF dict_tail_no_quote, of "dtype t" t]
    by (simp only: contains_sub_def npy_header_split simp_thms)
  ultimately show ?thesis
    by (simp add: parse_header_def parse_descr_def order_char_def parse_shape_header [OF assms] Let_def)
qed

lemma npy_header_ascii: "\<forall>c\<in>set (npy_header t). (of_char c :: nat) < 128"
proof
  fix c assume "c \<in> set (npy_header t)"
  then have "c \<in> set (dict_head (dtype t) @ shape_needle) \<or> c \<in> set (dict_tail t)"
    by (auto simp: npy_header_split)
  moreover have "\<forall>c\<in>set (dict_head (dtype t) @ shape_needle). (of_char c :: nat) < 128"
    by (cases "dtype t") (simp_all add: dict_head_def shape_needle_def order_char_def)
  moreover have "c \<in> set (dict_tail t) \<Longrightarrow> (of_char c :: nat) < 128"
    using dict_tail_chars [of c t] by (auto simp: is_ascii_digit_def Let_def)
  ultimately show "(of_char c :: nat) < 128" by blast
qed

lemma prod_list_zero_or_bound:
  "shape_product ds = Inr n \<Longrightarrow> 0 \<notin> set ds \<Longrightarrow> \<forall>d\<in>set ds. d < 2 ^ 64"
proof -
  have "product_from acc ds = Inr n \<Longrightarrow> 0 < acc \<Longrightarrow> 0 \<notin> set ds \<Longrightarrow> \<forall>d\<in>set ds. d < 2 ^ 64" for acc
  proof (induction acc ds rule: product_from.induct)
    case (2 acc d ds)
    then have "acc * d < 2 ^ 64" "d \<le> acc * d" by (auto split: if_splits)
    then have "d < 2 ^ 64" by linarith
    with 2 show ?case by (auto split: if_splits)
  qed simp
  then show "shape_product ds = Inr n \<Longrightarrow> 0 \<notin> set ds \<Longrightarrow> ?thesis" by (auto simp: shape_product_def)
qed

lemma from_npy_to_npy:
  assumes small: "\<forall>d\<in>set (shape t). d < 2 ^ 64"
    and len: "length (npy_header t) < 2 ^ 16"
  shows "from_npy (to_npy t) = npy_body (dtype t) False False (shape t) (data t)"
proof -
  let ?h = "as_bytes (npy_header t)"
  have b: "to_npy t = npy_magic @ [1, 0] @ le_bytes 2 (length (npy_header t)) @ ?h @ data t"
    using len by (simp add: to_npy_def npy_block_def)
  have l: "length npy_magic = 6" "length (le_bytes 2 (length (npy_header t))) = 2"
    by (simp_all add: npy_magic_def)
  have parts: "take 6 (to_npy t) = npy_magic" "to_npy t ! 6 = 1"
      "take 2 (drop 8 (to_npy t)) = le_bytes 2 (length (npy_header t))"
      "drop 10 (to_npy t) = ?h @ data t" "10 \<le> length (to_npy t)"
      "length (to_npy t) = 10 + length (npy_header t) + length (data t)"
    by (simp_all add: b npy_magic_def)
  have "from_le (le_bytes 2 (length (npy_header t))) = length (npy_header t)"
    using len by (simp add: from_le_le_bytes_id)
  moreover have "drop (10 + length (npy_header t)) (to_npy t) = data t"
    by (metis add.commute append_eq_conv_conj drop_drop length_as_bytes parts(4))
  ultimately show ?thesis
    using parts
    by (simp add: from_npy_def from_utf8_ascii [OF npy_header_ascii] parse_header_npy_header [OF small] Let_def)
qed

section \<open>Properties\<close>

text \<open>C16: A tensor written as \<^verbatim>\<open>.npy\<close> reads back as itself: element type, shape and data, for every
  well-formed tensor whose header fits the 16-bit length of version 1.0.\<close>

theorem npy_round_trip:
  assumes "tensor_ok t" and "\<forall>d\<in>set (shape t). d < 2 ^ 64" and "length (npy_header t) < 2 ^ 16"
  shows "from_npy (to_npy t) = Inr t"
  using assms by (simp add: from_npy_to_npy npy_body_def tensor_ok_def tensor_new_def Let_def)

theorem npy_round_trip_witness:
  "from_npy (to_npy \<lparr>dtype = U16, shape = [2, 3], data = [1, 0, 2, 0, 3, 0, 4, 0, 5, 0, 6, 0]\<rparr>) =
   Inr \<lparr>dtype = U16, shape = [2, 3], data = [1, 0, 2, 0, 3, 0, 4, 0, 5, 0, 6, 0]\<rparr>"
proof (rule npy_round_trip)
  have n: "show_nat 2 = ''2''" "show_nat 3 = ''3''" by code_simp+
  show "length (npy_header \<lparr>dtype = U16, shape = [2, 3], data = [1, 0, 2, 0, 3, 0, 4, 0, 5, 0, 6, 0]\<rparr>) < 2 ^ 16"
    by (simp add: npy_header_def npy_dict_def order_char_def shape_text_def n alignment_def)
qed (simp_all add: tensor_ok_def byte_count_def shape_product_def)

text \<open>A well-formed header can make the decoder panic: a file of 128 bytes that claims a shape of
  \<open>2\<^sup>3\<^sup>2 \<times> 2\<^sup>3\<^sup>2\<close> elements overflows the size computation before any check against the body.\<close>

theorem npy_huge_shape_panics:
  "from_npy (to_npy \<lparr>dtype = F32, shape = [4294967296, 4294967296], data = []\<rparr>) =
   Inl (Panic ''attempt to multiply with overflow'')"
proof -
  let ?t = "\<lparr>dtype = F32, shape = [4294967296, 4294967296], data = []\<rparr>"
  have n: "show_nat 4294967296 = ''4294967296''"
    by (simp add: show_nat_eval)
  have "length (npy_header ?t) < 2 ^ 16"
    by (simp add: npy_header_def npy_dict_def order_char_def shape_text_def n alignment_def)
  then show ?thesis
    by (subst from_npy_to_npy) (simp_all add: npy_body_def byte_count_def shape_product_def)
qed

end
