(* ===== verification/Streams.thy ===== *)
theory Streams
  imports Tensors
begin

text \<open>
  Byte sources as the readers see them (\<^verbatim>\<open>impl Read\<close>): the bytes still to come
  and, after them, the end of the stream or an I/O failure.  How the bytes are
  cut into single \<^verbatim>\<open>read\<close> calls does not matter to the loops that use them, which
  read until a buffer is full.  Framed formats share the interface \<open>framing\<close>.
\<close>

record stream =
  pending :: bytes
  fault :: "error option"

definition stream_of :: "bytes \<Rightarrow> stream" where
  "stream_of bs = \<lparr>pending = bs, fault = None\<rparr>"

definition stream_end :: "error \<Rightarrow> stream \<Rightarrow> error" where
  "stream_end eof s = (case fault s of Some e \<Rightarrow> e | None \<Rightarrow> eof)"

text \<open>\<^verbatim>\<open>Read::read_exact\<close>.\<close>
definition read_exact :: "nat \<Rightarrow> stream \<Rightarrow> bytes res \<times> stream" where
  "read_exact n s =
     (if n \<le> length (pending s) then (Inr (take n (pending s)), s\<lparr>pending := drop n (pending s)\<rparr>)
      else (Inl (stream_end (Io ''failed to fill whole buffer'') s), s\<lparr>pending := []\<rparr>))"

text \<open>\<^verbatim>\<open>Read::read_to_end\<close>.\<close>
definition read_to_end :: "stream \<Rightarrow> bytes res \<times> stream" where
  "read_to_end s =
     (case fault s of
        None \<Rightarrow> (Inr (pending s), s\<lparr>pending := []\<rparr>)
      | Some e \<Rightarrow> (Inl e, s\<lparr>pending := []\<rparr>))"

lemma read_exact_append [simp]:
  "length a = n \<Longrightarrow> read_exact n \<lparr>pending = a @ r, fault = f\<rparr> = (Inr a, \<lparr>pending = r, fault = f\<rparr>)"
  by (auto simp: read_exact_def)

lemma read_exact_shrinks:
  "read_exact n s = (x, s') \<Longrightarrow> length (pending s') \<le> length (pending s)"
  by (auto simp: read_exact_def split: if_splits)

lemma read_exact_fault [simp]: "fault (snd (read_exact n s)) = fault s"
  by (simp add: read_exact_def)

section \<open>Framed sequences\<close>

text \<open>Decode frames until the input is empty; a frame has to consume something.\<close>
function decode_all :: "('b list \<Rightarrow> ('a \<times> 'b list) res) \<Rightarrow> 'b list \<Rightarrow> 'a list res" where
  "decode_all dec bs =
     (if bs = [] then Inr []
      else case dec bs of
             Inl e \<Rightarrow> Inl e
           | Inr (x, rest) \<Rightarrow>
               if length rest < length bs then map_res ((#) x) (decode_all dec rest)
               else Inl (Panic ''frame without progress''))"
  by pat_completeness auto
termination by (relation "measure (\<lambda>(dec, bs). length bs)") auto

declare decode_all.simps [simp del]

locale framing =
  fixes enc :: "'a \<Rightarrow> 'b list"
    and dec :: "'b list \<Rightarrow> ('a \<times> 'b list) res"
    and ok :: "'a \<Rightarrow> bool"
  assumes dec_enc: "ok x \<Longrightarrow> dec (enc x @ r) = Inr (x, r)"
    and enc_grows: "ok x \<Longrightarrow> enc x \<noteq> []"
begin

lemma decode_all_enc: "list_all ok xs \<Longrightarrow> decode_all dec (concat (map enc xs)) = Inr xs"
proof (induction xs)
  case Nil
  then show ?case by (subst decode_all.simps) simp
next
  case (Cons x xs)
  then have "enc x \<noteq> []" "decode_all dec (concat (map enc xs)) = Inr xs"
    by (simp_all add: enc_grows)
  with Cons.prems show ?case
    by (subst decode_all.simps) (simp add: dec_enc)
qed

lemma enc_injective: "ok x \<Longrightarrow> ok y \<Longrightarrow> enc x = enc y \<Longrightarrow> x = y"
  by (metis Pair_inject dec_enc sum.inject(2))

lemma enc_prefix_free: "ok x \<Longrightarrow> ok y \<Longrightarrow> enc x @ r = enc y @ s \<Longrightarrow> x = y \<and> r = s"
  by (metis Pair_inject dec_enc sum.inject(2))

end

end
