(* ===== verification/Tenbin.thy ===== *)
theory Tenbin
  imports Streams
begin

text \<open>
  \<^verbatim>\<open>webdataset-tenbin/src/lib.rs\<close>: the 64-byte aligned tensor format.  Chunks are the
  framed layer (\<open>push_chunk\<close>, \<open>decode_chunk\<close>), arrays pair a header chunk with a data
  chunk.  The target is little-endian.
\<close>

definition ten_magic :: bytes where
  "ten_magic = [0x7E, 0x54, 0x65, 0x6E, 0x42, 0x69, 0x6E, 0x7E]"

definition ALIGNMENT :: nat where "ALIGNMENT = 64"

record labelled =
  item_tensor :: tensor
  info :: string

definition roundup :: "nat \<Rightarrow> nat \<Rightarrow> nat" where
  "roundup n k = k * ((n + k - 1) div k)"

definition field :: "string \<Rightarrow> bytes res" where
  "field text =
     (let bs = as_bytes text in
      if 8 < length bs then Inl (Value ''tenbin label is longer than 8 bytes'')
      else Inr (bs @ replicate (8 - length bs) 0))"

definition unfield :: "bytes \<Rightarrow> string res" where
  "unfield bs =
     (let end' = (case find_idx (\<lambda>b. b = 0) bs of Some i \<Rightarrow> i | None \<Rightarrow> length bs)
      in from_utf8 (take end' bs))"

definition push_chunk :: "bytes \<Rightarrow> bytes" where
  "push_chunk payload =
     ten_magic @ le_bytes 8 (length payload) @ payload @
     replicate (roundup (length payload) ALIGNMENT - length payload) 0"

definition i64_of :: "bytes \<Rightarrow> int" where
  "i64_of bs = as_signed 64 (from_le bs)"

text \<open>One round of the loop of \<^verbatim>\<open>decode_chunks\<close>, on the bytes from the current offset on.\<close>
definition decode_chunk :: "bytes \<Rightarrow> (bytes \<times> bytes) res" where
  "decode_chunk bs =
     (if length bs < 16 then Inl (Format ''truncated tenbin chunk header'')
      else if take 8 bs \<noteq> ten_magic then Inl (Format ''tenbin magic mismatch'')
      else
        (let len = i64_of (take 8 (drop 8 bs)) in
         if len < 0 then Inl (Format ''negative tenbin chunk length'')
         else
           (let n = nat len in
            if length bs < 16 + n then Inl (Format ''truncated tenbin chunk payload'')
            else Inr (take n (drop 16 bs), drop (16 + roundup n ALIGNMENT) bs))))"

definition decode_chunks :: "bytes \<Rightarrow> bytes list res" where
  "decode_chunks bs = decode_all decode_chunk bs"

definition encode_header :: "labelled \<Rightarrow> bytes res" where
  "encode_header item =
     (let t = item_tensor item in
      if 10 \<le> ndim t then Inl (Value ''tenbin supports at most 9 dimensions'')
      else
        and_then (field (short_name (dtype t)))
          (\<lambda>dt. and_then (field (info item))
             (\<lambda>label. Inr (dt @ label @ le_bytes 8 (ndim t) @ concat (map (le_bytes 8) (shape t))))))"

fun decode_dims :: "nat \<Rightarrow> bytes \<Rightarrow> nat list res" where
  "decode_dims 0 bs = Inr []"
| "decode_dims (Suc n) bs =
     (let dim = i64_of (take 8 bs) in
      if dim < 0 then Inl (Format ''negative tenbin dimension'')
      else map_res ((#) (nat dim)) (decode_dims n (drop 8 bs)))"

definition decode_array :: "bytes \<Rightarrow> bytes \<Rightarrow> labelled res" where
  "decode_array header payload =
     (if length header < 24 then Inl (Format ''tenbin header is too short'')
      else
        and_then (and_then (unfield (take 8 header)) dtype_parse)
          (\<lambda>dt. and_then (unfield (take 8 (drop 8 header)))
             (\<lambda>label.
                let rank = i64_of (take 8 (drop 16 header)) in
                if rank < 0 \<or> 10 < rank then Inl (Format ''tenbin rank is out of range'')
                else
                  (let n = nat rank in
                   if length header < 24 + n * 8
                   then Inl (Format ''tenbin header is shorter than its rank implies'')
                   else
                     and_then (decode_dims n (drop 24 header))
                       (\<lambda>ds. and_then (tensor_new dt ds payload)
                          (\<lambda>t. Inr \<lparr>item_tensor = t, info = label\<rparr>))))))"

fun decode_pairs :: "bytes list \<Rightarrow> labelled list res" where
  "decode_pairs (h # d # cs) =
     and_then (decode_array h d) (\<lambda>x. map_res ((#) x) (decode_pairs cs))"
| "decode_pairs _ = Inr []"

definition decode_labelled :: "bytes \<Rightarrow> labelled list res" where
  "decode_labelled bs =
     and_then (decode_chunks bs)
       (\<lambda>chunks.
          if odd (length chunks) then Inl (Format ''tenbin buffer ends with a header but no data'')
          else decode_pairs chunks)"

definition decode_buffer :: "bytes \<Rightarrow> tensor list res" where
  "decode_buffer bs = map_res (map item_tensor) (decode_labelled bs)"

definition encode_item :: "labelled \<Rightarrow> bytes res" where
  "encode_item item =
     map_res (\<lambda>h. push_chunk h @ push_chunk (data (item_tensor item))) (encode_header item)"

definition encode_labelled :: "labelled list \<Rightarrow> bytes res" where
  "encode_labelled items = map_res concat (collect_res encode_item items)"

definition unlabelled :: "tensor list \<Rightarrow> labelled list" where
  "unlabelled ts = map (\<lambda>t. \<lparr>item_tensor = t, info = []\<rparr>) ts"

definition encode_buffer :: "tensor list \<Rightarrow> bytes res" where
  "encode_buffer ts =
     (case encode_labelled (unlabelled ts) of
        Inr bs \<Rightarrow> Inr bs
      | Inl _ \<Rightarrow> Inl (Panic ''empty labels always fit''))"

section \<open>Streams\<close>

text \<open>\<^verbatim>\<open>read_exact_or_eof\<close>: \<open>None\<close> when the stream ended before the first byte.\<close>
definition read_exact_or_eof :: "nat \<Rightarrow> stream \<Rightarrow> bytes option res \<times> stream" where
  "read_exact_or_eof n s =
     (if n \<le> length (pending s) then
        (Inr (Some (take n (pending s))), s\<lparr>pending := drop n (pending s)\<rparr>)
      else
        (case fault s of
           Some e \<Rightarrow> (Inl e, s\<lparr>pending := []\<rparr>)
         | None \<Rightarrow>
             if pending s = [] then (Inr None, s)
             else (Inl (Format ''truncated tenbin chunk''), s\<lparr>pending := []\<rparr>)))"

definition read_chunk :: "stream \<Rightarrow> bytes option res \<times> stream" where
  "read_chunk s =
     (case read_exact_or_eof 8 s of
        (Inl e, s) \<Rightarrow> (Inl e, s)
      | (Inr None, s) \<Rightarrow> (Inr None, s)
      | (Inr (Some magic), s) \<Rightarrow>
          if magic \<noteq> ten_magic then (Inl (Format ''tenbin magic mismatch''), s)
          else
            (case read_exact 8 s of
               (Inl e, s) \<Rightarrow> (Inl e, s)
             | (Inr lenb, s) \<Rightarrow>
                 (let len = i64_of lenb in
                  if len < 0 then (Inl (Format ''negative tenbin chunk length''), s)
                  else
                    (case read_exact (nat len) s of
                       (Inl e, s) \<Rightarrow> (Inl e, s)
                     | (Inr payload, s) \<Rightarrow>
                         (case read_exact (roundup (nat len) ALIGNMENT - nat len) s of
                            (Inl e, s) \<Rightarrow> (Inl e, s)
                          | (Inr _, s) \<Rightarrow> (Inr (Some payload), s))))))"

definition write_labelled :: "labelled list \<Rightarrow> bytes res" where
  "write_labelled items = encode_labelled items"

text \<open>\<^verbatim>\<open>read_labelled\<close>; each round consumes at least a chunk header.\<close>
fun read_labelled :: "nat \<Rightarrow> stream \<Rightarrow> labelled list res" where
  "read_labelled 0 s = Inl (Panic ''out of fuel'')"
| "read_labelled (Suc n) s =
     (case read_chunk s of
        (Inl e, s) \<Rightarrow> Inl e
      | (Inr None, s) \<Rightarrow> Inr []
      | (Inr (Some header), s) \<Rightarrow>
          (case read_chunk s of
             (Inl e, s) \<Rightarrow> Inl e
           | (Inr None, s) \<Rightarrow> Inl (Format ''tenbin stream ends after a header'')
           | (Inr (Some payload), s) \<Rightarrow>
               and_then (decode_array header payload)
                 (\<lambda>x. map_res ((#) x) (read_labelled n s))))"

definition read_stream :: "stream \<Rightarrow> labelled list res" where
  "read_stream s = read_labelled (Suc (length (pending s))) s"

section \<open>Chunks frame\<close>

lemma roundup_ge: "0 < k \<Longrightarrow> n \<le> roundup n k"
proof -
  assume k: "0 < k"
  have "n + k - 1 < k * ((n + k - 1) div k) + k"
    using k by (metis add.commute mod_less_divisor mult_div_mod_eq nat_add_left_cancel_less)
  then show ?thesis using k by (simp add: roundup_def)
qed

lemma roundup_mult: "k dvd roundup n k"
  by (simp add: roundup_def)

lemma i64_of_le_bytes: "v < 2 ^ 63 \<Longrightarrow> i64_of (le_bytes 8 v) = int v"
  by (simp add: i64_of_def from_le_le_bytes_id as_signed_def)

lemma length_push_chunk: "length (push_chunk p) = 16 + roundup (length p) ALIGNMENT"
  using roundup_ge [of ALIGNMENT "length p"] by (simp add: push_chunk_def ten_magic_def ALIGNMENT_def)

interpretation chunk_frames: framing push_chunk decode_chunk "\<lambda>p. length p < 2 ^ 63"
proof
  fix p r :: bytes assume len: "length p < 2 ^ 63"
  let ?pad = "replicate (roundup (length p) ALIGNMENT - length p) (0 :: byte)"
  have "push_chunk p @ r = ten_magic @ le_bytes 8 (length p) @ p @ ?pad @ r"
    by (simp add: push_chunk_def)
  moreover have "length ten_magic = 8" by (simp add: ten_magic_def)
  moreover have "drop (16 + roundup (length p) ALIGNMENT) (push_chunk p @ r) = r"
    by (simp add: length_push_chunk)
  ultimately show "decode_chunk (push_chunk p @ r) = Inr (p, r)"
    using len by (simp add: decode_chunk_def i64_of_le_bytes Let_def)
qed (simp add: push_chunk_def ten_magic_def)

section \<open>Arrays\<close>

definition label_ok :: "string \<Rightarrow> bool" where
  "label_ok s = (length s \<le> 8 \<and> 0 \<notin> set (as_bytes s) \<and> utf8_error 0 (as_bytes s) = None)"

definition item_ok :: "labelled \<Rightarrow> bool" where
  "item_ok x =
     (tensor_ok (item_tensor x) \<and> ndim (item_tensor x) < 10 \<and> label_ok (info x) \<and>
      (\<forall>d\<in>set (shape (item_tensor x)). d < 2 ^ 63) \<and> length (data (item_tensor x)) < 2 ^ 63)"

lemma field_ok: "length s \<le> 8 \<Longrightarrow> field s = Inr (as_bytes s @ replicate (8 - length s) 0)"
  by (simp add: field_def Let_def)

lemma unfield_field:
  assumes "label_ok s"
  shows "unfield (as_bytes s @ replicate k 0) = Inr s"
proof -
  have "find_idx (\<lambda>b. b = 0) (as_bytes s) = None"
    using assms by (auto simp: find_idx_None_iff label_ok_def)
  then have "(case find_idx (\<lambda>b. b = 0) (as_bytes s @ replicate k 0) of
      Some i \<Rightarrow> i | None \<Rightarrow> length (as_bytes s @ replicate k (0 :: byte))) = length s"
    by (cases k) (simp_all add: find_idx_append)
  then show ?thesis using assms by (simp add: unfield_def from_utf8_def label_ok_def)
qed

lemma decode_dims_le_bytes:
  "\<forall>d\<in>set ds. d < 2 ^ 63 \<Longrightarrow> decode_dims (length ds) (concat (map (le_bytes 8) ds) @ r) = Inr ds"
  by (induction ds) (simp_all add: i64_of_le_bytes Let_def)

lemma short_name_label: "label_ok (short_name dt) \<and> length (short_name dt) = 2"
  by (cases dt) (simp_all add: label_ok_def as_bytes_def utf8_error_ascii)

lemma length_dims: "length (concat (map (le_bytes 8) ds)) = length ds * 8"
  by (induction ds) auto

lemma decode_array_encode:
  assumes ok: "item_ok x"
  shows "\<exists>h. encode_header x = Inr h \<and> length h < 2 ^ 63 \<and>
    decode_array h (data (item_tensor x)) = Inr x"
proof -
  let ?t = "item_tensor x"
  let ?dt = "as_bytes (short_name (dtype ?t)) @ replicate 6 0"
  let ?label = "as_bytes (info x) @ replicate (8 - length (info x)) 0"
  let ?dims = "concat (map (le_bytes 8) (shape ?t))"
  let ?h = "?dt @ ?label @ le_bytes 8 (ndim ?t) @ ?dims"
  have x: "tensor_ok ?t" "ndim ?t < 10" "label_ok (info x)" "\<forall>d\<in>set (shape ?t). d < 2 ^ 63"
    using ok by (simp_all add: item_ok_def)
  have li: "length (info x) \<le> 8" using x(3) by (simp add: label_ok_def)
  have sn: "length (short_name (dtype ?t)) = 2" "label_ok (short_name (dtype ?t))"
    using short_name_label by auto
  have h: "encode_header x = Inr ?h"
    using x(2) li sn by (simp add: encode_header_def field_ok Let_def)
  have len: "length ?dt = 8" "length ?label = 8" using sn li by simp_all
  have parts: "take 8 ?h = ?dt" "take 8 (drop 8 ?h) = ?label"
      "take 8 (drop 16 ?h) = le_bytes 8 (ndim ?t)" "drop 24 ?h = ?dims" "length ?h = 24 + ndim ?t * 8"
    using len by (simp_all add: length_dims ndim_def)
  have rank: "i64_of (le_bytes 8 (ndim ?t)) = int (ndim ?t)" using x(2) by (simp add: i64_of_le_bytes)
  have dims: "decode_dims (ndim ?t) ?dims = Inr (shape ?t)"
    using decode_dims_le_bytes [OF x(4), of "[]"] by (simp add: ndim_def)
  have new: "tensor_new (dtype ?t) (shape ?t) (data ?t) = Inr ?t"
    using x(1) by (simp add: tensor_new_Inr_iff)
  have "decode_array ?h (data ?t) = Inr x"
    unfolding decode_array_def parts
    using x(2) by (simp add: unfield_field sn x(3) rank dims new Let_def)
  moreover have "length ?h < 2 ^ 63" using x(2) parts(5) by simp
  ultimately show ?thesis using h by blast
qed

text \<open>The encoding is the list of its chunks, framed.\<close>

lemma encode_labelled_chunks:
  "list_all item_ok xs \<Longrightarrow>
   \<exists>cs. encode_labelled xs = Inr (concat (map push_chunk cs)) \<and> list_all (\<lambda>p. length p < 2 ^ 63) cs \<and>
        even (length cs) \<and> decode_pairs cs = Inr xs"
proof (induction xs)
  case Nil
  then show ?case by (intro exI [of _ "[]"]) (simp add: encode_labelled_def)
next
  case (Cons x xs)
  then obtain cs where cs: "encode_labelled xs = Inr (concat (map push_chunk cs))"
      "list_all (\<lambda>p. length p < 2 ^ 63) cs" "even (length cs)" "decode_pairs cs = Inr xs" by auto
  obtain h where h: "encode_header x = Inr h" "length h < 2 ^ 63"
      "decode_array h (data (item_tensor x)) = Inr x"
    using decode_array_encode Cons.prems by auto
  have "encode_labelled (x # xs) = Inr (concat (map push_chunk (h # data (item_tensor x) # cs)))"
    using cs(1) h(1) by (auto simp: encode_labelled_def encode_item_def map_res_Inr_iff)
  then show ?case
    using cs h Cons.prems by (intro exI [of _ "h # data (item_tensor x) # cs"]) (simp add: item_ok_def)
qed

lemma decode_encode_labelled:
  assumes "list_all item_ok xs"
  shows "\<exists>bs. encode_labelled xs = Inr bs \<and> decode_labelled bs = Inr xs"
proof -
  obtain cs where cs: "encode_labelled xs = Inr (concat (map push_chunk cs))"
      "list_all (\<lambda>p. length p < 2 ^ 63) cs" "even (length cs)" "decode_pairs cs = Inr xs"
    using encode_labelled_chunks [OF assms] by blast
  then have "decode_chunks (concat (map push_chunk cs)) = Inr cs"
    by (simp add: decode_chunks_def chunk_frames.decode_all_enc)
  with cs show ?thesis by (simp add: decode_labelled_def)
qed

section \<open>Streams deliver the same arrays\<close>

lemma read_chunk_push:
  assumes "length p < 2 ^ 63"
  shows "read_chunk \<lparr>pending = push_chunk p @ r, fault = f\<rparr> = (Inr (Some p), \<lparr>pending = r, fault = f\<rparr>)"
proof -
  let ?pad = "replicate (roundup (length p) ALIGNMENT - length p) (0 :: byte)"
  have e: "push_chunk p @ r = ten_magic @ le_bytes 8 (length p) @ p @ ?pad @ r"
    by (simp add: push_chunk_def)
  have m: "length ten_magic = 8" by (simp add: ten_magic_def)
  have "read_exact_or_eof 8 \<lparr>pending = push_chunk p @ r, fault = f\<rparr> =
      (Inr (Some ten_magic), \<lparr>pending = le_bytes 8 (length p) @ p @ ?pad @ r, fault = f\<rparr>)"
    unfolding e by (simp add: read_exact_or_eof_def m)
  then show ?thesis
    using assms by (simp add: read_chunk_def i64_of_le_bytes Let_def)
qed

lemma read_chunk_end: "read_chunk (stream_of []) = (Inr None, stream_of [])"
  by (simp add: read_chunk_def read_exact_or_eof_def stream_of_def)

lemma read_end: "0 < n \<Longrightarrow> read_labelled n (stream_of []) = Inr []"
  by (cases n) (simp_all add: read_chunk_end)

lemma read_labelled_chunks:
  "list_all (\<lambda>p. length p < 2 ^ 63) cs \<Longrightarrow> even (length cs) \<Longrightarrow> length cs < 2 * n \<Longrightarrow>
   read_labelled n (stream_of (concat (map push_chunk cs))) = decode_pairs cs"
proof (induction cs arbitrary: n rule: decode_pairs.induct)
  case (1 h d cs)
  then obtain m where n: "n = Suc m" by (cases n) auto
  have "read_labelled m (stream_of (concat (map push_chunk cs))) = decode_pairs cs"
    if "decode_array h d = Inr x" for x
    using 1 n that by auto
  with 1(2) show ?case
    by (cases "decode_array h d") (simp_all add: n read_chunk_push stream_of_def)
qed (auto simp: read_end)

lemma read_stream_encode:
  assumes "list_all item_ok xs"
  shows "\<exists>bs. write_labelled xs = Inr bs \<and> read_stream (stream_of bs) = Inr xs"
proof -
  obtain cs where cs: "encode_labelled xs = Inr (concat (map push_chunk cs))"
      "list_all (\<lambda>p. length p < 2 ^ 63) cs" "even (length cs)" "decode_pairs cs = Inr xs"
    using encode_labelled_chunks [OF assms] by blast
  have "length cs \<le> length (concat (map push_chunk cs))"
    by (induction cs) (auto simp: length_push_chunk)
  then have "length cs < 2 * Suc (length (concat (map push_chunk cs)))" by simp
  with cs show ?thesis
    using read_labelled_chunks [of cs "Suc (length (concat (map push_chunk cs)))"]
    by (simp add: write_labelled_def read_stream_def stream_of_def)
qed

section \<open>Properties\<close>

text \<open>C17: A list of labelled arrays that is encoded decodes to the same list, from memory and from a
  stream, for arrays of at most nine dimensions and labels of at most eight bytes without a NUL.\<close>

theorem tenbin_round_trip:
  assumes "list_all item_ok xs"
  shows "\<exists>bs. encode_labelled xs = Inr bs \<and> decode_labelled bs = Inr xs \<and>
    read_stream (stream_of bs) = Inr xs"
  using decode_encode_labelled [OF assms] read_stream_encode [OF assms]
  by (auto simp: write_labelled_def)

theorem tenbin_round_trip_witness:
  "\<exists>bs. encode_labelled [\<lparr>item_tensor = \<lparr>dtype = U8, shape = [2, 2], data = [1, 2, 3, 4]\<rparr>, info = ''img''\<rparr>] = Inr bs \<and>
     decode_labelled bs = Inr [\<lparr>item_tensor = \<lparr>dtype = U8, shape = [2, 2], data = [1, 2, 3, 4]\<rparr>, info = ''img''\<rparr>] \<and>
     read_stream (stream_of bs) =
       Inr [\<lparr>item_tensor = \<lparr>dtype = U8, shape = [2, 2], data = [1, 2, 3, 4]\<rparr>, info = ''img''\<rparr>]"
  by (rule tenbin_round_trip)
     (simp add: item_ok_def tensor_ok_def byte_count_def shape_product_def ndim_def label_ok_def
       as_bytes_def utf8_error_ascii)

text \<open>Encoding an array of ten or more dimensions panics, although the decoder accepts rank ten: the
  rank check of the header is taken for a label that does not fit.\<close>

theorem tenbin_rank_ten_panics:
  assumes "10 \<le> ndim t"
  shows "encode_buffer (t # ts) = Inl (Panic ''empty labels always fit'')"
  using assms by (simp add: encode_buffer_def encode_labelled_def unlabelled_def encode_item_def encode_header_def Let_def)

theorem tenbin_rank_ten_panics_witness:
  "encode_buffer [\<lparr>dtype = U8, shape = [1, 1, 1, 1, 1, 1, 1, 1, 1, 1], data = [7]\<rparr>] =
   Inl (Panic ''empty labels always fit'')"
  by (rule tenbin_rank_ten_panics) (simp add: ndim_def)

end
