(* ===== verification/FieldMap.thy ===== *)
theory FieldMap
  imports Errors
begin

text \<open>
  \<^verbatim>\<open>webdataset-core/src/fields.rs\<close>: the insertion-ordered map behind a sample
  (\<^verbatim>\<open>IndexMap\<close>), represented as the list of its entries in order.  The interface
  \<open>ordered_map\<close> states what the crates rely on; it is interpreted on the list
  operations below.
\<close>

type_synonym 'v fields = "(string \<times> 'v) list"

definition get :: "string \<Rightarrow> 'v fields \<Rightarrow> 'v option" where
  "get k m = map_of m k"

definition contains_key :: "string \<Rightarrow> 'v fields \<Rightarrow> bool" where
  "contains_key k m = (get k m \<noteq> None)"

definition keys :: "'v fields \<Rightarrow> string list" where
  "keys m = map fst m"

text \<open>\<^verbatim>\<open>insert\<close> replaces the value in place, or appends a new entry.\<close>
fun put :: "string \<Rightarrow> 'v \<Rightarrow> 'v fields \<Rightarrow> 'v fields" where
  "put k v [] = [(k, v)]"
| "put k v ((k', v') # m) = (if k' = k then (k, v) # m else (k', v') # put k v m)"

text \<open>\<^verbatim>\<open>shift_remove\<close> keeps the order of the others.\<close>
fun del :: "string \<Rightarrow> 'v fields \<Rightarrow> 'v fields" where
  "del k [] = []"
| "del k ((k', v') # m) = (if k' = k then m else (k', v') # del k m)"

definition index_of :: "string \<Rightarrow> 'v fields \<Rightarrow> nat option" where
  "index_of k m = find_idx (\<lambda>e. fst e = k) m"

text \<open>
  \<^verbatim>\<open>shift_insert\<close>: a new key may go to any position up to the end; a key that
  exists is moved, and then the position has to be one of the map's own.
\<close>
definition shift_insert :: "nat \<Rightarrow> string \<Rightarrow> 'v \<Rightarrow> 'v fields \<Rightarrow> 'v fields res" where
  "shift_insert i k v m =
     (if contains_key k m
      then if i < length m then (let m' = del k m in Inr (take i m' @ (k, v) # drop i m'))
           else Inl (Panic ''index out of bounds'')
      else if i \<le> length m then Inr (take i m @ (k, v) # drop i m)
           else Inl (Panic ''index out of bounds''))"

definition from_pairs :: "(string \<times> 'v) list \<Rightarrow> 'v fields" where
  "from_pairs ps = foldl (\<lambda>m (k, v). put k v m) [] ps"

definition well_keyed :: "'v fields \<Rightarrow> bool" where
  "well_keyed m = distinct (keys m)"

section \<open>The interface\<close>

locale ordered_map =
  fixes look :: "'k \<Rightarrow> 'm \<Rightarrow> 'v option"
    and ins :: "'k \<Rightarrow> 'v \<Rightarrow> 'm \<Rightarrow> 'm"
    and rem :: "'k \<Rightarrow> 'm \<Rightarrow> 'm"
    and order :: "'m \<Rightarrow> 'k list"
    and inv :: "'m \<Rightarrow> bool"
  assumes look_ins: "inv m \<Longrightarrow> look a (ins k v m) = (if a = k then Some v else look a m)"
    and look_rem: "inv m \<Longrightarrow> look a (rem k m) = (if a = k then None else look a m)"
    and inv_ins: "inv m \<Longrightarrow> inv (ins k v m)"
    and inv_rem: "inv m \<Longrightarrow> inv (rem k m)"
    and order_ins: "inv m \<Longrightarrow> order (ins k v m) = (if look k m = None then order m @ [k] else order m)"
    and order_rem: "inv m \<Longrightarrow> order (rem k m) = filter ((\<noteq>) k) (order m)"
    and order_look: "inv m \<Longrightarrow> k \<in> set (order m) \<longleftrightarrow> look k m \<noteq> None"
begin

lemma look_foldl_ins:
  "inv m \<Longrightarrow> look a (foldl (\<lambda>m (k, v). ins k v m) m ps) =
     (case map_of (rev ps) a of Some v \<Rightarrow> Some v | None \<Rightarrow> look a m)"
proof (induction ps arbitrary: m)
  case (Cons p ps)
  obtain k v where p: "p = (k, v)" by fastforce
  show ?case
    using Cons.IH [of "ins k v m"] Cons.prems
    by (auto simp: p look_ins inv_ins map_add_def split: option.splits)
qed simp

lemma inv_foldl_ins: "inv m \<Longrightarrow> inv (foldl (\<lambda>m (k, v). ins k v m) m ps)"
  by (induction ps arbitrary: m) (auto simp: inv_ins)

lemma ins_keeps_others: "inv m \<Longrightarrow> look a m = Some v \<Longrightarrow> a \<noteq> k \<Longrightarrow> look a (ins k w m) = Some v"
  by (simp add: look_ins)

lemma rem_ins_order: "inv m \<Longrightarrow> look k m = None \<Longrightarrow> order (rem k (ins k v m)) = order m"
  using order_look [of m k]
  by (auto simp: order_rem order_ins inv_ins filter_id_conv)

end

section \<open>The list operations satisfy it\<close>

lemma keys_simps [simp]: "keys [] = []" "keys ((k, v) # m) = k # keys m" "keys (m @ n) = keys m @ keys n"
  by (simp_all add: keys_def)

lemma get_simps [simp]: "get k [] = None" "get k ((k', v) # m) = (if k' = k then Some v else get k m)"
  by (simp_all add: get_def)

lemma get_None_iff: "get k m = None \<longleftrightarrow> k \<notin> set (keys m)"
  by (induction m) (auto split: if_splits)

lemma contains_key_iff: "contains_key k m \<longleftrightarrow> k \<in> set (keys m)"
  by (auto simp: contains_key_def get_None_iff)

lemma get_put: "get a (put k v m) = (if a = k then Some v else get a m)"
  by (induction k v m rule: put.induct) auto

lemma keys_put: "keys (put k v m) = (if get k m = None then keys m @ [k] else keys m)"
  by (induction k v m rule: put.induct) auto

lemma keys_del: "well_keyed m \<Longrightarrow> keys (del k m) = filter ((\<noteq>) k) (keys m)"
  by (induction k m rule: del.induct)
     (auto simp: well_keyed_def intro!: filter_True [symmetric])

lemma get_del: "well_keyed m \<Longrightarrow> get a (del k m) = (if a = k then None else get a m)"
  by (induction k m rule: del.induct) (auto simp: well_keyed_def get_None_iff)

lemma well_keyed_put: "well_keyed m \<Longrightarrow> well_keyed (put k v m)"
  by (auto simp: well_keyed_def keys_put get_None_iff)

lemma well_keyed_del: "well_keyed m \<Longrightarrow> well_keyed (del k m)"
  using keys_del [of m k] by (simp add: well_keyed_def)

interpretation fields_map: ordered_map get put del keys well_keyed
  by unfold_locales
     (simp_all add: get_put get_del well_keyed_put well_keyed_del keys_put keys_del get_None_iff)

lemma well_keyed_Nil [simp]: "well_keyed []"
  by (simp add: well_keyed_def)

lemma from_pairs_ok: "well_keyed (from_pairs ps)" "get a (from_pairs ps) = map_of (rev ps) a"
  using fields_map.inv_foldl_ins [of "[]" ps] fields_map.look_foldl_ins [of "[]" a ps]
  by (auto simp: from_pairs_def split: option.splits)

lemma put_new: "get k m = None \<Longrightarrow> put k v m = m @ [(k, v)]"
  by (induction k v m rule: put.induct) (auto split: if_splits)

lemma from_pairs_distinct: "distinct (map fst ps) \<Longrightarrow> from_pairs ps = ps"
proof (induction ps rule: rev_induct)
  case (snoc p ps)
  obtain k v where p: "p = (k, v)" by fastforce
  with snoc have "from_pairs ps = ps" "k \<notin> set (keys ps)" by (auto simp: keys_def)
  then show ?case by (simp add: p from_pairs_def put_new get_None_iff)
qed (simp add: from_pairs_def)

lemma index_of_None_iff: "index_of k m = None \<longleftrightarrow> get k m = None"
  by (induction m) (auto simp: index_of_def)

lemma index_of_split:
  assumes "index_of k m = Some i"
  obtains xs v ys where "m = xs @ (k, v) # ys" "length xs = i" "k \<notin> set (keys xs)"
proof -
  have i: "i < length m" "fst (m ! i) = k" "k \<notin> set (keys (take i m))"
    using assms find_idx_SomeD [of "\<lambda>e. fst e = k" m i] by (auto simp: index_of_def keys_def)
  moreover have "m = take i m @ m ! i # drop (Suc i) m" using i(1) by (simp add: id_take_nth_drop)
  moreover have "m ! i = (k, snd (m ! i))" using i(2) by (metis prod.collapse)
  ultimately show ?thesis
    using that [of "take i m" "snd (m ! i)" "drop (Suc i) m"] by simp
qed

lemma del_split: "k \<notin> set (keys xs) \<Longrightarrow> del k (xs @ (k, v) # ys) = xs @ ys"
  by (induction xs) auto

lemma length_put: "length (put k v m) = (if get k m = None then Suc (length m) else length m)"
  by (induction k v m rule: put.induct) auto

end
