(* ===== verification/Samples.thy ===== *)
theory Samples
  imports Tensors FieldMap
begin

text \<open>
  \<^verbatim>\<open>webdataset-core/src/value.rs\<close> and \<^verbatim>\<open>sample.rs\<close>: the dynamically typed values
  and the sample, an ordered map from file extension to value.  Images and
  user-defined values are shared references in the source; here they are the
  number of the reference.
\<close>

datatype field_value =
    Null
  | Bool bool
  | IntV int
  | Float f64
  | Text string
  | Bytes bytes
  | List "field_value list"
  | Map "(string \<times> field_value) list"
  | Tensor tensor
  | Image nat
  | Custom nat

type_synonym sample = "field_value fields"

definition type_name :: "field_value \<Rightarrow> string" where
  "type_name v =
     (case v of
        Null \<Rightarrow> ''null'' | Bool _ \<Rightarrow> ''bool'' | IntV _ \<Rightarrow> ''int'' | Float _ \<Rightarrow> ''float''
      | Text _ \<Rightarrow> ''text'' | Bytes _ \<Rightarrow> ''bytes'' | List _ \<Rightarrow> ''list'' | Map _ \<Rightarrow> ''map''
      | Tensor _ \<Rightarrow> ''tensor'' | Image _ \<Rightarrow> ''image'' | Custom _ \<Rightarrow> ''custom'')"

definition value_bytes :: "field_value \<Rightarrow> bytes option" where
  "value_bytes v = (case v of Bytes b \<Rightarrow> Some b | _ \<Rightarrow> None)"

definition value_str :: "field_value \<Rightarrow> string option" where
  "value_str v = (case v of Text s \<Rightarrow> Some s | _ \<Rightarrow> None)"

definition value_i64 :: "field_value \<Rightarrow> int option" where
  "value_i64 v =
     (case v of
        IntV i \<Rightarrow> Some i
      | Bool b \<Rightarrow> Some (if b then 1 else 0)
      | Float f \<Rightarrow> if f64_eq f (int_to_f64 (f64_to_i64 f)) then Some (f64_to_i64 f) else None
      | _ \<Rightarrow> None)"

definition value_f64 :: "field_value \<Rightarrow> f64 option" where
  "value_f64 v = (case v of Float f \<Rightarrow> Some f | IntV i \<Rightarrow> Some (int_to_f64 i) | _ \<Rightarrow> None)"

definition value_list :: "field_value \<Rightarrow> field_value list option" where
  "value_list v = (case v of List xs \<Rightarrow> Some xs | _ \<Rightarrow> None)"

definition value_map :: "field_value \<Rightarrow> field_value fields option" where
  "value_map v = (case v of Map m \<Rightarrow> Some m | _ \<Rightarrow> None)"

definition value_tensor :: "field_value \<Rightarrow> tensor option" where
  "value_tensor v = (case v of Tensor t \<Rightarrow> Some t | _ \<Rightarrow> None)"

definition value_image :: "field_value \<Rightarrow> nat option" where
  "value_image v = (case v of Image i \<Rightarrow> Some i | _ \<Rightarrow> None)"

definition expect_bytes :: "field_value \<Rightarrow> bytes res" where
  "expect_bytes v = ok_or (Value ''expected bytes'') (value_bytes v)"

text \<open>
  \<^verbatim>\<open>PartialEq\<close>: floats compare as floats, maps by content, images and custom values
  never.
\<close>
fun value_eq :: "field_value \<Rightarrow> field_value \<Rightarrow> bool" where
  "value_eq Null w = (w = Null)"
| "value_eq (Bool a) w = (w = Bool a)"
| "value_eq (IntV a) w = (w = IntV a)"
| "value_eq (Float a) w = (case w of Float b \<Rightarrow> f64_eq a b | _ \<Rightarrow> False)"
| "value_eq (Text a) w = (w = Text a)"
| "value_eq (Bytes a) w = (w = Bytes a)"
| "value_eq (List a) w = (case w of List b \<Rightarrow> list_all2 (\<lambda>x y. value_eq x y) a b | _ \<Rightarrow> False)"
| "value_eq (Map a) w =
     (case w of
        Map b \<Rightarrow>
          length a = length b \<and>
          list_all (\<lambda>e. case map_of b (fst e) of Some u \<Rightarrow> value_eq (snd e) u | None \<Rightarrow> False) a
      | _ \<Rightarrow> False)"
| "value_eq (Tensor a) w = (w = Tensor a)"
| "value_eq (Image a) w = False"
| "value_eq (Custom a) w = False"

definition of_usize :: "nat \<Rightarrow> field_value" where
  "of_usize n = IntV (as_signed 64 n)"

section \<open>Samples\<close>

definition KEY :: string where "KEY = ''__key__''"
definition URL :: string where "URL = ''__url__''"
definition LOCAL_PATH :: string where "LOCAL_PATH = ''__local_path__''"
definition BAD :: string where "BAD = ''__bad__''"
definition META_PREFIX :: string where "META_PREFIX = ''__''"

definition is_meta :: "string \<Rightarrow> bool" where
  "is_meta name = starts_with META_PREFIX name"

definition sample_insert :: "string \<Rightarrow> field_value \<Rightarrow> sample \<Rightarrow> sample" where
  "sample_insert k v s = put k v s"

definition sample_remove :: "string \<Rightarrow> sample \<Rightarrow> field_value option \<times> sample" where
  "sample_remove k s = (get k s, del k s)"

definition with_key :: "string \<Rightarrow> sample" where
  "with_key k = sample_insert KEY (Text k) []"

definition sample_key :: "sample \<Rightarrow> string option" where
  "sample_key s = Option.bind (get KEY s) value_str"

definition sample_url :: "sample \<Rightarrow> string option" where
  "sample_url s = Option.bind (get URL s) value_str"

definition local_path :: "sample \<Rightarrow> string option" where
  "local_path s = Option.bind (get LOCAL_PATH s) value_str"

definition set_key :: "string \<Rightarrow> sample \<Rightarrow> sample" where
  "set_key k s = sample_insert KEY (Text k) s"

definition set_url :: "string \<Rightarrow> sample \<Rightarrow> sample" where
  "set_url u s = sample_insert URL (Text u) s"

fun find_map :: "('a \<Rightarrow> 'b option) \<Rightarrow> 'a list \<Rightarrow> 'b option" where
  "find_map f [] = None"
| "find_map f (x # xs) = (case f x of Some y \<Rightarrow> Some y | None \<Rightarrow> find_map f xs)"

definition get_first :: "string list \<Rightarrow> sample \<Rightarrow> field_value option" where
  "get_first names s = find_map (\<lambda>n. get n s) names"

definition get_first_spec :: "string \<Rightarrow> sample \<Rightarrow> field_value option" where
  "get_first_spec spec s = find_map (\<lambda>n. get n s) (split_on '';'' spec)"

definition require_first_spec :: "string \<Rightarrow> sample \<Rightarrow> field_value res" where
  "require_first_spec spec s =
     ok_or (MissingKey (split_on '';'' spec) (keys s)) (get_first_spec spec s)"

definition field_names :: "sample \<Rightarrow> string list" where
  "field_names s = filter (\<lambda>k. \<not> is_meta k) (keys s)"

definition is_valid :: "sample \<Rightarrow> bool" where
  "is_valid s = (s \<noteq> [] \<and> get BAD s \<noteq> Some (Bool True))"

definition rename :: "string \<Rightarrow> string \<Rightarrow> sample \<Rightarrow> (bool \<times> sample) res" where
  "rename old new s =
     (case index_of old s of
        None \<Rightarrow> Inr (False, s)
      | Some i \<Rightarrow>
          map_res (Pair True)
            (shift_insert i new (snd (s ! i)) (take i s @ drop (Suc i) s)))"

definition sample_index :: "string \<Rightarrow> sample \<Rightarrow> field_value res" where
  "sample_index name s = ok_or (Panic ''no field in sample'') (get name s)"

section \<open>Facts\<close>

lemma find_map_Some_iff:
  "find_map f xs = Some y \<longleftrightarrow>
     (\<exists>as x bs. xs = as @ x # bs \<and> (\<forall>a\<in>set as. f a = None) \<and> f x = Some y)"
proof (induction xs)
  case (Cons x xs)
  show ?case
  proof (cases "f x")
    case None
    show ?thesis
    proof
      assume "find_map f (x # xs) = Some y"
      then show "\<exists>as z bs. x # xs = as @ z # bs \<and> (\<forall>a\<in>set as. f a = None) \<and> f z = Some y"
        using None Cons by (auto intro: exI [of _ "x # as" for as]) (metis append_Cons set_ConsD)
    next
      assume "\<exists>as z bs. x # xs = as @ z # bs \<and> (\<forall>a\<in>set as. f a = None) \<and> f z = Some y"
      then obtain as z bs where *: "x # xs = as @ z # bs" "\<forall>a\<in>set as. f a = None" "f z = Some y"
        by blast
      with None obtain as' where "as = x # as'" by (cases as) auto
      with * None Cons show "find_map f (x # xs) = Some y" by auto
    qed
  next
    case (Some z)
    then show ?thesis by (force simp: Cons_eq_append_conv)
  qed
qed simp

lemma find_map_None_iff: "find_map f xs = None \<longleftrightarrow> (\<forall>x\<in>set xs. f x = None)"
  by (induction xs) (auto split: option.splits)

lemma sample_key_with_key [simp]: "sample_key (with_key k) = Some k"
  by (simp add: sample_key_def with_key_def sample_insert_def value_str_def)

lemma sample_key_put: "sample_key (put k v s) = (if k = KEY then value_str v else sample_key s)"
  by (simp add: sample_key_def get_put)

lemma rename_absent: "get old s = None \<Longrightarrow> rename old new s = Inr (False, s)"
  by (simp add: rename_def index_of_None_iff [THEN iffD2])

text \<open>Renaming to a new name keeps the order and the value.\<close>

lemma rename_fresh:
  assumes wk: "well_keyed s" and old: "get old s = Some v" and new: "get new s = None"
  shows "rename old new s = Inr (True, map (\<lambda>(k, w). (if k = old then new else k, w)) s)"
proof -
  have "index_of old s \<noteq> None"
    using old by (simp add: index_of_None_iff)
  then obtain i where i: "index_of old s = Some i" by blast
  from index_of_split [OF i] obtain xs w ys where s: "s = xs @ (old, w) # ys" "length xs = i" by metis
  have nin: "old \<notin> set (keys (xs @ ys))" "new \<notin> set (keys (xs @ ys))"
    using wk new by (auto simp: s(1) well_keyed_def get_None_iff)
  have same: "map (\<lambda>(k, u). (if k = old then new else k, u)) zs = zs" if "set zs \<subseteq> set (xs @ ys)" for zs
    using nin that by (auto simp: keys_def image_iff intro!: map_idI) force+
  have "rename old new s = map_res (Pair True) (shift_insert i new w (xs @ ys))"
  proof -
    have "index_of old (xs @ (old, w) # ys) = Some (length xs)" using i s by simp
    moreover have "(xs @ (old, w) # ys) ! i = (old, w)" using s(2) by (metis nth_append_length)
    ultimately show ?thesis using s(2) by (simp add: rename_def s(1))
  qed
  also have "... = Inr (True, xs @ (new, w) # ys)"
    using nin(2) s(2) by (simp add: shift_insert_def contains_key_iff)
  finally show ?thesis using same [of xs] same [of ys] by (simp add: s(1))
qed

section \<open>Properties\<close>

text \<open>Renaming a field to a fresh name keeps its position, its value and every other field.\<close>

theorem rename_in_place:
  assumes "well_keyed s" and "get old s = Some v" and "get new s = None"
  shows "rename old new s = Inr (True, map (\<lambda>(k, w). (if k = old then new else k, w)) s)"
  using assms by (rule rename_fresh)

theorem rename_in_place_witness:
  "rename ''a'' ''z'' [(''__key__'', Text ''k''), (''a'', IntV 1), (''b'', IntV 2)] =
   Inr (True, [(''__key__'', Text ''k''), (''z'', IntV 1), (''b'', IntV 2)])"
  using rename_in_place [of "[(''__key__'', Text ''k''), (''a'', IntV 1), (''b'', IntV 2)]" "''a''" "IntV 1" "''z''"]
  by (simp add: well_keyed_def)

text \<open>Renaming the last field of a sample to the name of another field panics: the field is removed
  first, and the map then refuses to move the existing entry to a position past its end.\<close>

theorem rename_last_to_existing_panics:
  "rename ''b'' ''a'' [(''a'', IntV 1), (''b'', IntV 2)] = Inl (Panic ''index out of bounds'')"
  by code_simp

text \<open>The float \<open>2\<^sup>6\<^sup>3\<close> lies outside the range of \<^verbatim>\<open>i64\<close>, yet it is read as the largest integer: the
  cast saturates and rounding the result back gives the float again.\<close>

theorem value_i64_saturates:
  "value_i64 (Float 0x43E0000000000000) = Some (2 ^ 63 - 1)"
proof -
  have parts: "f64_exp 0x43E0000000000000 = 1086" "f64_mant 0x43E0000000000000 = 0"
    "\<not> f64_sign 0x43E0000000000000"
    by (simp_all add: f64_exp_def f64_mant_def f64_sign_def)
  have trunc: "f64_to_i64 0x43E0000000000000 = 2 ^ 63 - 1"
    by (simp add: f64_to_i64_def f64_nan_def parts)
  have "int_to_f64 (2 ^ 63 - 1) = 0x43E0000000000000"
    by (simp add: int_to_f64_def f64_dyadic_def bit_len.simps)
  then show ?thesis
    by (simp add: value_i64_def trunc f64_eq_def f64_nan_def parts)
qed

end
