(* ===== verification/Floats.thy ===== *)
theory Floats
  imports Tensors
begin

text \<open>
  Exactness of the casts between integers and \<^verbatim>\<open>f64\<close>: an integer of at most 53 bits
  survives the trip.
\<close>

lemma bit_len_bounds: "0 < m \<Longrightarrow> 2 ^ (bit_len m - 1) \<le> m \<and> m < 2 ^ bit_len m \<and> 0 < bit_len m"
proof (induction m rule: bit_len.induct)
  case (1 m)
  show ?case
  proof (cases "m = 1")
    case True
    then show ?thesis by (simp add: bit_len.simps)
  next
    case False
    then have h: "0 < m div 2" using 1(2) by simp
    with 1 have IH: "2 ^ (bit_len (m div 2) - 1) \<le> m div 2" "m div 2 < 2 ^ bit_len (m div 2)"
      "0 < bit_len (m div 2)" by auto
    have b: "bit_len m = Suc (bit_len (m div 2))" using 1(2) by (simp add: bit_len.simps [of m])
    obtain j where j: "bit_len (m div 2) = Suc j" using IH(3) by (cases "bit_len (m div 2)") auto
    show ?thesis using IH unfolding b j by auto
  qed
qed

lemma unat_of_nat_64: "N < 2 ^ 64 \<Longrightarrow> unat (of_nat N :: 64 word) = N"
  by (simp add: unat_of_nat)

lemma f64_fields:
  assumes "N < 2 ^ 64"
  shows "f64_exp (of_nat N) = N div 2 ^ 52 mod 2 ^ 11"
    and "f64_mant (of_nat N) = N mod 2 ^ 52"
    and "f64_sign (of_nat N) = odd (N div 2 ^ 63)"
proof -
  have 1: "(0x7FF :: 64 word) = mask 11" and 2: "(0xFFFFFFFFFFFFF :: 64 word) = mask 52"
    by (simp_all add: mask_eq_exp_minus_1)
  have t: "unat (of_nat N :: 64 word) = N" using assms by (rule unat_of_nat_64)
  show "f64_exp (of_nat N) = N div 2 ^ 52 mod 2 ^ 11"
    unfolding f64_exp_def 1 take_bit_eq_mask [symmetric] unsigned_take_bit_eq unsigned_drop_bit_eq t
    using assms by (simp add: drop_bit_eq_div take_bit_eq_mod)
  show "f64_mant (of_nat N) = N mod 2 ^ 52"
    unfolding f64_mant_def 2 take_bit_eq_mask [symmetric] unsigned_take_bit_eq t
    by (simp add: take_bit_eq_mod)
  have "bit (of_nat N :: 64 word) 63 = bit (unat (of_nat N :: 64 word)) 63"
    by (simp add: bit_unsigned_iff)
  then show "f64_sign (of_nat N) = odd (N div 2 ^ 63)"
    by (simp only: f64_sign_def t bit_iff_odd)
qed

lemma split_digit: "r < B \<Longrightarrow> (r + q * B) mod B = r" "r < B \<Longrightarrow> (r + q * B) div B = (q :: nat)"
  by simp_all

lemma int_f64_exact:
  assumes "\<bar>i\<bar> < 2 ^ 53"
  shows "f64_to_i64 (int_to_f64 i) = i"
proof (cases "i = 0")
  case True
  then show ?thesis
    using f64_fields [of 0]
    by (simp add: int_to_f64_def f64_dyadic_def bit_len.simps f64_to_i64_def f64_nan_def Let_def)
next
  case False
  define n where "n = nat \<bar>i\<bar>"
  define k where "k = bit_len n"
  have n: "0 < n" "n < 2 ^ 53" using False assms by (auto simp: n_def nat_less_iff)
  have k: "2 ^ (k - 1) \<le> n" "n < 2 ^ k" "0 < k" using bit_len_bounds [OF n(1)] by (auto simp: k_def)
  have "(2 :: nat) ^ (k - 1) < 2 ^ 53" using k(1) n(2) by linarith
  then have "k - 1 < 53" by (rule power_less_imp_less_exp [rotated]) simp
  then have k53: "k \<le> 53" by simp
  define M where "M = n * 2 ^ (53 - k)"
  have M: "2 ^ 52 \<le> M" "M < 2 ^ 53"
  proof -
    have "(2 :: nat) ^ 52 = 2 ^ (k - 1) * 2 ^ (53 - k)" using k53 k(3) by (simp flip: power_add)
    also have "\<dots> \<le> M" unfolding M_def using k(1) by (rule mult_le_mono1)
    finally show "2 ^ 52 \<le> M" .
    have "M < 2 ^ k * 2 ^ (53 - k)" unfolding M_def using k(2) by simp
    also have "\<dots> = 2 ^ 53" using k53 by (simp flip: power_add)
    finally show "M < 2 ^ 53" .
  qed
  define N where "N = (if i < 0 then 2 ^ 63 else 0) + (k + 1022) * 2 ^ 52 + (M - 2 ^ 52)"
  have b: "int_to_f64 i = of_nat N"
  proof -
    have "nat (int k - 1 + 1023) = k + 1022" by simp
    then show ?thesis using n k53 unfolding int_to_f64_def f64_dyadic_def Let_def
      by (simp add: N_def M_def n_def [symmetric] k_def [symmetric])
  qed
  have mant: "N mod 2 ^ 52 = M - 2 ^ 52"
  proof -
    have "N = (M - 2 ^ 52) + ((if i < 0 then 2 ^ 11 else 0) + (k + 1022)) * 2 ^ 52"
      by (simp add: N_def algebra_simps)
    moreover have "M - 2 ^ 52 < 2 ^ 52" using M by simp
    ultimately show ?thesis by (simp only: split_digit)
  qed
  have exp: "N div 2 ^ 52 = (if i < 0 then 2 ^ 11 else 0) + (k + 1022)"
  proof -
    have "N = (M - 2 ^ 52) + ((if i < 0 then 2 ^ 11 else 0) + (k + 1022)) * 2 ^ 52"
      by (simp add: N_def algebra_simps)
    moreover have "M - 2 ^ 52 < 2 ^ 52" using M by simp
    ultimately show ?thesis by (simp only: split_digit)
  qed
  have N: "N < 2 ^ 64" using M k53 by (simp add: N_def)
  have sgn: "odd (N div 2 ^ 63) = (i < 0)"
  proof -
    have "N div 2 ^ 63 = N div 2 ^ 52 div 2 ^ 11" by (simp flip: div_mult2_eq)
    moreover have "(3070 + k) div 2048 = 1" using k53 by simp
    ultimately show ?thesis unfolding exp using k53 by simp
  qed
  have "(3070 + k) mod 2048 = k + 1022"
    using split_digit(1) [of "k + 1022" 2048 1] k53 by (simp add: add.commute)
  then have e: "f64_exp (of_nat N) = k + 1022" unfolding f64_fields(1) [OF N] exp using k53 by simp
  have m: "f64_mant (of_nat N) = M - 2 ^ 52" unfolding f64_fields(2) [OF N] by (rule mant)
  have s: "f64_sign (of_nat N) = (i < 0)" unfolding f64_fields(3) [OF N] by (rule sgn)
  have m': "f64_mant (of_nat N) + 2 ^ 52 = M" using m M(1) by simp
  have mag: "k = 53 \<Longrightarrow> M = n" "M div 2 ^ (53 - k) = n" by (simp_all add: M_def)
  have "int n = \<bar>i\<bar>" by (simp add: n_def)
  then have sv: "(if i < 0 then - int n else int n) = i" by simp
  have "\<not> f64_nan (of_nat N)" using k53 by (simp add: f64_nan_def e)
  then have "f64_to_i64 (of_nat N) =
      max (- (2 ^ 63)) (min (2 ^ 63 - 1) (if i < 0 then - int n else int n))"
    unfolding f64_to_i64_def Let_def e s m' using k53 k(3) mag m'
    by (cases "k = 53") (simp_all add: e)
  then show ?thesis using assms unfolding b sv by simp
qed

end
