(* ===== verification/Batching.thy ===== *)
theory Batching
  imports Samples Floats
begin

text \<open>
  \<^verbatim>\<open>webdataset/src/batch.rs\<close>: stacking the columns of a batch and splitting a
  batch into its rows again.
\<close>

section \<open>Collating\<close>

text \<open>\<^verbatim>\<open>i64::to_ne_bytes\<close> on a little-endian target.\<close>
definition i64_bytes :: "int \<Rightarrow> bytes" where
  "i64_bytes v = le_bytes 8 (nat (v mod 2 ^ 64))"

definition stack_tensors :: "field_value list \<Rightarrow> field_value res" where
  "stack_tensors column =
     (let tensors = List.map_filter value_tensor column in
      if length tensors \<noteq> length column then Inr (List column)
      else
        (let t0 = hd tensors in
         if \<not> list_all (\<lambda>t. shape t = shape t0 \<and> dtype t = dtype t0) tensors
         then Inl (Value ''cannot stack tensors of differing shapes'')
         else
           map_res Tensor
             (tensor_new (dtype t0) (length tensors # shape t0) (concat (map data tensors)))))"

definition collate_ints :: "field_value list \<Rightarrow> field_value res" where
  "collate_ints column =
     (if list_all (\<lambda>v. value_i64 v \<noteq> None) column then
        (let values = List.map_filter value_i64 column
         in map_res Tensor (tensor_new I64 [length values] (concat (map i64_bytes values))))
      else Inr (List column))"

definition collate_values :: "field_value list \<Rightarrow> field_value res" where
  "collate_values column =
     (case column of
        [] \<Rightarrow> Inr (List [])
      | first # _ \<Rightarrow>
          (case first of
             Tensor _ \<Rightarrow> stack_tensors column
           | IntV _ \<Rightarrow> collate_ints column
           | Bool _ \<Rightarrow> collate_ints column
           | Float _ \<Rightarrow>
               if list_all (\<lambda>v. value_f64 v \<noteq> None) column then
                 (let values = List.map_filter value_f64 column
                  in map_res Tensor
                       (tensor_new F64 [length values] (concat (map (\<lambda>v. le_bytes 8 (unat v)) values))))
               else Inr (List column)
           | _ \<Rightarrow> Inr (List column)))"

definition collate_samples :: "sample list \<Rightarrow> sample res" where
  "collate_samples samples =
     (case samples of
        [] \<Rightarrow> Inl (Value ''cannot collate an empty batch'')
      | first # rest \<Rightarrow>
          (let names = keys first in
           if list_ex (\<lambda>s. length s \<noteq> length names \<or> list_ex (\<lambda>n. \<not> contains_key n s) names) rest
           then Inl (Value ''sample has other fields than the batch expects'')
           else
             map_res from_pairs
               (collect_res
                  (\<lambda>name.
                     and_then (collect_res (\<lambda>s. ok_or (Panic ''checked above'') (get name s)) samples)
                       (\<lambda>column. map_res (Pair name) (collate_values column)))
                  names)))"

definition collate_tuples :: "field_value list list \<Rightarrow> field_value list res" where
  "collate_tuples rows =
     (case rows of
        [] \<Rightarrow> Inl (Value ''cannot collate an empty batch'')
      | first # _ \<Rightarrow>
          (let width = length first in
           if list_ex (\<lambda>row. length row \<noteq> width) rows
           then Inl (Value ''row has another width than the batch expects'')
           else collect_res (\<lambda>i. collate_values (map (\<lambda>row. row ! i) rows)) [0..<width]))"

section \<open>Splitting\<close>

definition row_count :: "field_value \<Rightarrow> nat res" where
  "row_count v =
     (case v of
        Tensor t \<Rightarrow> (case shape t of [] \<Rightarrow> Inl (Value ''field is not batched'') | n # _ \<Rightarrow> Inr n)
      | List items \<Rightarrow> Inr (length items)
      | _ \<Rightarrow> Inl (Value ''field is not batched''))"

fun batch_size :: "nat option \<Rightarrow> sample \<Rightarrow> nat option res" where
  "batch_size sz [] = Inr sz"
| "batch_size sz ((name, v) # m) =
     and_then (row_count v)
       (\<lambda>n. case sz of
              None \<Rightarrow> batch_size (Some n) m
            | Some k \<Rightarrow>
                if k \<noteq> n then Inl (Value ''field has another number of rows than the batch'')
                else batch_size sz m)"

definition tensor_row :: "tensor \<Rightarrow> nat \<Rightarrow> field_value res" where
  "tensor_row t i =
     (let inner = drop 1 (shape t) in
      and_then (byte_count (dtype t) inner)
        (\<lambda>stride.
           if i * stride + stride \<le> length (data t) then
             (let slice = take stride (drop (i * stride) (data t)) in
              if inner = [] then
                and_then (tensor_new (dtype t) [] slice)
                  (\<lambda>scalar.
                     map_res (\<lambda>x. if is_float (dtype t) then Float x else IntV (f64_to_i64 x))
                       (tensor_get scalar 0))
              else map_res Tensor (tensor_new (dtype t) inner slice))
           else Inl (Panic ''range end out of bounds'')))"

definition row :: "field_value \<Rightarrow> nat \<Rightarrow> field_value res" where
  "row v i =
     (case v of
        List items \<Rightarrow> if i < length items then Inr (items ! i) else Inl (Panic ''index out of bounds'')
      | Tensor t \<Rightarrow> tensor_row t i
      | _ \<Rightarrow> Inl (Value ''cannot unbatch''))"

text \<open>The loop over the fields is outside the loop over the rows: the first failing field
  decides the error.\<close>

fun insert_rows :: "string \<Rightarrow> field_value \<Rightarrow> nat \<Rightarrow> sample list \<Rightarrow> sample list res" where
  "insert_rows name v i [] = Inr []"
| "insert_rows name v i (s # ss) =
     and_then (row v i)
       (\<lambda>x. map_res ((#) (sample_insert name x s)) (insert_rows name v (Suc i) ss))"

fun fill_rows :: "sample \<Rightarrow> sample list \<Rightarrow> sample list res" where
  "fill_rows [] out = Inr out"
| "fill_rows ((name, v) # m) out = and_then (insert_rows name v 0 out) (fill_rows m)"

definition uncollate_sample :: "sample \<Rightarrow> sample list res" where
  "uncollate_sample batch =
     and_then (batch_size None batch)
       (\<lambda>sz. fill_rows batch (replicate (case sz of None \<Rightarrow> 0 | Some n \<Rightarrow> n) []))"

section \<open>Columns that stack\<close>

definition small_ints :: "field_value list \<Rightarrow> bool" where
  "small_ints col = list_all (\<lambda>v. case v of IntV i \<Rightarrow> \<bar>i\<bar> < 2 ^ 53 | _ \<Rightarrow> False) col"

definition floats :: "field_value list \<Rightarrow> bool" where
  "floats col = list_all (\<lambda>v. case v of Float _ \<Rightarrow> True | _ \<Rightarrow> False) col"

definition same_tensors :: "field_value list \<Rightarrow> bool" where
  "same_tensors col =
     (case col of
        Tensor t # _ \<Rightarrow>
          shape t \<noteq> [] \<and>
          list_all (\<lambda>v. case v of
              Tensor u \<Rightarrow> shape u = shape t \<and> dtype u = dtype t \<and> tensor_ok u | _ \<Rightarrow> False) col \<and>
          byte_count (dtype t) (length col # shape t) = Inr (length col * length (data t))
      | _ \<Rightarrow> False)"

definition unstacked :: "field_value list \<Rightarrow> bool" where
  "unstacked col = (case col of v # _ \<Rightarrow> (case v of Tensor _ \<Rightarrow> False | IntV _ \<Rightarrow> False | Bool _ \<Rightarrow> False | Float _ \<Rightarrow> False | _ \<Rightarrow> True) | [] \<Rightarrow> False)"

text \<open>Columns that come back from a batch as they went in.\<close>

definition column_ok :: "field_value list \<Rightarrow> bool" where
  "column_ok col =
     (col \<noteq> [] \<and> length col * 8 < 2 ^ 64 \<and>
      (small_ints col \<or> floats col \<or> same_tensors col \<or> unstacked col))"

lemma chunk_concat:
  "list_all (\<lambda>x. length x = k) xs \<Longrightarrow> i < length xs \<Longrightarrow> take k (drop (i * k) (concat xs)) = xs ! i"
proof (induction xs arbitrary: i)
  case (Cons x xs)
  then show ?case by (cases i) simp_all
qed simp

lemma length_concat_chunks: "list_all (\<lambda>x. length x = k) xs \<Longrightarrow> length (concat xs) = length xs * k"
  by (induction xs) simp_all

lemma byte_count_vector: "n * 8 < 2 ^ 64 \<Longrightarrow> dtype_size dt = 8 \<Longrightarrow> byte_count dt [n] = Inr (n * 8)"
  by (simp add: byte_count_def shape_product_def)

lemma scalar_row:
  assumes "list_all (\<lambda>x. length x = 8) xs" "i < length xs" "dtype_size dt = 8"
  shows "tensor_row \<lparr>dtype = dt, shape = [length xs], data = concat xs\<rparr> i =
    Inr (let x = element_of_bytes dt (xs ! i) in if is_float dt then Float x else IntV (f64_to_i64 x))"
proof -
  have fits: "i * 8 + 8 \<le> length (concat xs)"
  proof -
    have "Suc i * 8 \<le> length xs * 8" using assms(2) by (intro mult_le_mono1) simp
    then show ?thesis by (simp add: length_concat_chunks [OF assms(1)])
  qed
  have c: "take 8 (drop (i * 8) (concat xs)) = xs ! i" by (rule chunk_concat [OF assms(1,2)])
  have l: "length (xs ! i) = 8" using assms(1,2) by (simp add: list_all_length)
  have b: "byte_count dt [] = Inr 8" using assms(3) by (simp add: byte_count_def shape_product_def)
  show ?thesis
    using fits c l b assms(3)
    by (simp add: tensor_row_def tensor_new_def tensor_get_def numel_def shape_product_def
        element_at_def Let_def)
qed

lemma length_i64_bytes [simp]: "length (i64_bytes i) = 8"
  by (simp add: i64_bytes_def)

lemma int_mod_shift: "- m \<le> i \<Longrightarrow> i < 0 \<Longrightarrow> i mod m = i + (m :: int)"
  by (smt (verit) mod_add_self2 mod_pos_pos_trivial)

lemma i64_bytes_element:
  assumes "- (2 ^ 63) \<le> i" "i < 2 ^ 63"
  shows "element_of_bytes I64 (i64_bytes i) = int_to_f64 i"
proof -
  have "nat (i mod 2 ^ 64) < 256 ^ 8" by (simp add: nat_less_iff)
  then have "from_le (i64_bytes i) = nat (i mod 2 ^ 64)"
    unfolding i64_bytes_def by (rule from_le_le_bytes_id)
  moreover have "as_signed 64 (nat (i mod 2 ^ 64)) = i"
  proof (cases "0 \<le> i")
    case True
    then have "i mod 2 ^ 64 = i" using assms by simp
    then show ?thesis using assms True by (simp add: as_signed_def nat_less_iff)
  next
    case False
    then have "i mod 2 ^ 64 = i + 2 ^ 64"
      using assms by (intro int_mod_shift) auto
    then show ?thesis using assms False by (simp add: as_signed_def nat_less_iff)
  qed
  ultimately show ?thesis by (simp add: element_of_bytes_def Let_def)
qed

lemma i64_bytes_back: "\<bar>i\<bar> < 2 ^ 53 \<Longrightarrow> f64_to_i64 (element_of_bytes I64 (i64_bytes i)) = i"
  using int_f64_exact [of i] i64_bytes_element [of i] by simp

lemma f64_bytes_back: "element_of_bytes F64 (le_bytes 8 (unat (x :: f64))) = x"
proof -
  have "unat x < 256 ^ 8" using unsigned_less [of x] by simp
  then have "from_le (le_bytes 8 (unat x)) = unat x" by (rule from_le_le_bytes_id)
  then show ?thesis by (simp add: element_of_bytes_def)
qed

text \<open>A batched column: its rows and their number.\<close>

definition batched_as :: "field_value \<Rightarrow> field_value list \<Rightarrow> bool" where
  "batched_as v col =
     (row_count v = Inr (length col) \<and> (\<forall>i<length col. row v i = Inr (col ! i)))"

lemma batched_list: "batched_as (List col) col"
  by (simp add: batched_as_def row_count_def row_def)

lemma map_filter_map:
  "(\<And>x. f (g x) = Some (h x)) \<Longrightarrow> List.map_filter f (map g xs) = map h xs"
  by (induction xs) (auto simp: map_filter_def)

lemma small_intsE:
  assumes "small_ints col"
  obtains ns where "col = map IntV ns" "list_all (\<lambda>i. \<bar>i\<bar> < 2 ^ 53) ns"
proof -
  have "\<exists>ns. col = map IntV ns \<and> list_all (\<lambda>i. \<bar>i\<bar> < 2 ^ 53) ns"
    using assms
  proof (induction col)
    case (Cons v col)
    then obtain i ns where "v = IntV i" "\<bar>i\<bar> < 2 ^ 53" "col = map IntV ns"
      "list_all (\<lambda>i. \<bar>i\<bar> < 2 ^ 53) ns"
      by (auto simp: small_ints_def split: field_value.splits)
    then show ?case by (intro exI [of _ "i # ns"]) simp
  qed simp
  then show thesis using that by blast
qed

lemma floatsE:
  assumes "floats col"
  obtains xs where "col = map Float xs"
proof -
  have "\<exists>xs. col = map Float xs"
    using assms
  proof (induction col)
    case (Cons v col)
    then obtain x xs where "v = Float x" "col = map Float xs"
      by (auto simp: floats_def split: field_value.splits)
    then show ?case by (intro exI [of _ "x # xs"]) simp
  qed simp
  then show thesis using that by blast
qed

lemma list_all_tensors:
  assumes "list_all (\<lambda>v. case v of Tensor u \<Rightarrow> P u | _ \<Rightarrow> False) col"
  shows "\<exists>ts. col = map Tensor ts \<and> list_all P ts"
  using assms
proof (induction col)
  case (Cons v col)
  then obtain u ts where "v = Tensor u" "P u" "col = map Tensor ts" "list_all P ts"
    by (auto split: field_value.splits)
  then show ?case by (intro exI [of _ "u # ts"]) simp
qed simp

lemma scalar_column:
  assumes enc: "\<And>x. length (enc x) = 8" and dt: "dtype_size dt = 8" and n: "length xs * 8 < 2 ^ 64"
    and decodes: "\<And>x. x \<in> set xs \<Longrightarrow>
      (let y = element_of_bytes dt (enc x) in if is_float dt then Float y else IntV (f64_to_i64 y)) = con x"
  shows "\<exists>t. tensor_new dt [length xs] (concat (map enc xs)) = Inr t \<and>
    batched_as (Tensor t) (map con xs)"
proof -
  have ln: "list_all (\<lambda>x. length x = 8) (map enc xs)" using enc by (simp add: list_all_iff)
  let ?t = "\<lparr>dtype = dt, shape = [length (map enc xs)], data = concat (map enc xs)\<rparr>"
  have "tensor_new dt [length xs] (concat (map enc xs)) = Inr ?t"
    using n dt length_concat_chunks [OF ln] by (simp add: tensor_new_def byte_count_vector)
  moreover have "row (Tensor ?t) i = Inr (map con xs ! i)" if "i < length xs" for i
    using scalar_row [OF ln _ dt, of i] that decodes [of "xs ! i"] by (simp add: row_def Let_def)
  ultimately show ?thesis by (auto simp: batched_as_def row_count_def)
qed

lemma collate_small_ints:
  assumes "small_ints col" "col \<noteq> []" "length col * 8 < 2 ^ 64"
  shows "\<exists>v. collate_values col = Inr v \<and> batched_as v col"
proof -
  obtain ns where ns: "col = map IntV ns" "list_all (\<lambda>i. \<bar>i\<bar> < 2 ^ 53) ns"
    using small_intsE [OF assms(1)] .
  have mf: "List.map_filter value_i64 (map IntV ns) = ns"
    using map_filter_map [of value_i64 IntV "\<lambda>x. x" ns] by (simp add: value_i64_def)
  have "\<exists>t. tensor_new I64 [length ns] (concat (map i64_bytes ns)) = Inr t \<and>
      batched_as (Tensor t) (map IntV ns)"
    using assms(3) ns by (intro scalar_column)
      (auto simp: is_float_def list_all_iff Let_def i64_bytes_back)
  moreover have "collate_values col = map_res Tensor (tensor_new I64 [length ns] (concat (map i64_bytes ns)))"
    using assms(2) mf
    by (cases ns) (simp_all add: ns(1) collate_values_def collate_ints_def list_all_iff value_i64_def Let_def)
  ultimately show ?thesis using ns(1) by auto
qed

lemma collate_floats:
  assumes "floats col" "col \<noteq> []" "length col * 8 < 2 ^ 64"
  shows "\<exists>v. collate_values col = Inr v \<and> batched_as v col"
proof -
  obtain xs where xs: "col = map Float xs" using floatsE [OF assms(1)] .
  have mf: "List.map_filter value_f64 (map Float xs) = xs"
    using map_filter_map [of value_f64 Float "\<lambda>x. x" xs] by (simp add: value_f64_def)
  have "\<exists>t. tensor_new F64 [length xs] (concat (map (\<lambda>v. le_bytes 8 (unat v)) xs)) = Inr t \<and>
      batched_as (Tensor t) (map Float xs)"
    using assms(3) xs by (intro scalar_column) (auto simp: is_float_def f64_bytes_back Let_def)
  moreover have "collate_values col =
      map_res Tensor (tensor_new F64 [length xs] (concat (map (\<lambda>v. le_bytes 8 (unat v)) xs)))"
    using assms(2) mf
    by (cases xs) (simp_all add: xs collate_values_def list_all_iff value_f64_def Let_def)
  ultimately show ?thesis using xs by auto
qed

lemma collate_same_tensors:
  assumes "same_tensors col"
  shows "\<exists>v. collate_values col = Inr v \<and> batched_as v col"
proof -
  obtain t rest where c: "col = Tensor t # rest" "shape t \<noteq> []"
    "list_all (\<lambda>v. case v of Tensor u \<Rightarrow> shape u = shape t \<and> dtype u = dtype t \<and> tensor_ok u | _ \<Rightarrow> False) col"
    and size: "byte_count (dtype t) (length col # shape t) = Inr (length col * length (data t))"
    using assms by (auto simp: same_tensors_def split: list.splits field_value.splits)
  obtain ts where ts: "col = map Tensor ts"
    "list_all (\<lambda>u. shape u = shape t \<and> dtype u = dtype t \<and> tensor_ok u) ts"
    using list_all_tensors [OF c(3)] by blast
  obtain ts' where ts': "ts = t # ts'" using c(1) ts(1) by (cases ts) auto
  have len: "list_all (\<lambda>x. length x = length (data t)) (map data ts)"
    using ts(2) ts' tensor_ok_length by (auto simp: list_all_iff)
  have mf: "List.map_filter value_tensor col = ts"
    using map_filter_map [of value_tensor Tensor "\<lambda>x. x" ts] ts(1) by (simp add: value_tensor_def)
  let ?t = "\<lparr>dtype = dtype t, shape = length ts # shape t, data = concat (map data ts)\<rparr>"
  have "stack_tensors col = Inr (Tensor ?t)"
    using mf ts ts' size length_concat_chunks [OF len]
    by (auto simp: stack_tensors_def Let_def list_all_iff tensor_new_def)
  then have cv: "collate_values col = Inr (Tensor ?t)" by (simp add: c(1) collate_values_def)
  have ok: "byte_count (dtype t) (shape t) = Inr (length (data t))"
    using ts(2) ts' by (simp add: tensor_ok_def)
  have "row (Tensor ?t) i = Inr (col ! i)" if i: "i < length col" for i
  proof -
    have il: "i < length ts" using i ts(1) by simp
    have u: "shape (ts ! i) = shape t" "dtype (ts ! i) = dtype t" "length (data (ts ! i)) = length (data t)"
      using ts(2) len il by (auto simp: list_all_length)
    have "Suc i * length (data t) \<le> length ts * length (data t)" using il by (intro mult_le_mono1) simp
    moreover have "take (length (data t)) (drop (i * length (data t)) (concat (map data ts))) = data (ts ! i)"
      using chunk_concat [OF len, of i] il by simp
    ultimately show ?thesis
      using ok c(2) u il ts(1) length_concat_chunks [OF len]
      by (simp add: row_def tensor_row_def tensor_new_def Let_def)
  qed
  then show ?thesis using cv ts(1) by (auto simp: batched_as_def row_count_def)
qed

lemma collate_column:
  assumes "column_ok col"
  shows "\<exists>v. collate_values col = Inr v \<and> batched_as v col"
proof -
  have "\<exists>v. collate_values col = Inr v \<and> batched_as v col" if "unstacked col"
    using that batched_list
    by (auto simp: unstacked_def collate_values_def split: list.splits field_value.splits)
  then show ?thesis
    using assms collate_small_ints collate_floats collate_same_tensors
    unfolding column_ok_def by blast
qed

section \<open>A batch of samples\<close>

definition project :: "string list \<Rightarrow> sample \<Rightarrow> sample" where
  "project ns s = map (\<lambda>n. (n, the (get n s))) ns"

definition column :: "sample list \<Rightarrow> string \<Rightarrow> field_value list" where
  "column ss n = map (\<lambda>s. the (get n s)) ss"

lemma project_keys: "well_keyed s \<Longrightarrow> project (keys s) s = s"
proof (induction s)
  case (Cons e s)
  obtain k v where e: "e = (k, v)" by fastforce
  have k: "k \<notin> set (keys s)" "well_keyed s" using Cons.prems by (simp_all add: e well_keyed_def)
  have "project (keys s) (e # s) = project (keys s) s"
    unfolding project_def using k(1) by (intro map_cong refl) (auto simp: e)
  moreover have "project (keys (e # s)) (e # s) = (k, v) # project (keys s) (e # s)"
    by (simp add: e project_def)
  ultimately show ?case using Cons.IH [OF k(2)] e by simp
qed (simp add: project_def)

lemma keys_project [simp]: "keys (project ns s) = ns"
  by (simp add: project_def keys_def comp_def)

lemma insert_rows_map:
  assumes "\<And>j. j < length ss \<Longrightarrow> row v (i + j) = Inr (g (ss ! j))"
  shows "insert_rows n v i (map f ss) = Inr (map (\<lambda>s. put n (g s) (f s)) ss)"
  using assms
proof (induction ss arbitrary: i)
  case (Cons s ss)
  have "row v (Suc i + j) = Inr (g (ss ! j))" if "j < length ss" for j
    using Cons.prems [of "Suc j"] that by simp
  then show ?case using Cons.IH [of "Suc i"] Cons.prems [of 0] by (simp add: sample_insert_def)
qed simp

lemma fill_rows_project:
  assumes "\<And>n. n \<in> set ns \<Longrightarrow> batched_as (V n) (column ss n)" and "distinct (pre @ ns)"
  shows "fill_rows (map (\<lambda>n. (n, V n)) ns) (map (project pre) ss) = Inr (map (project (pre @ ns)) ss)"
  using assms
proof (induction ns arbitrary: pre)
  case (Cons n ns)
  have "insert_rows n (V n) 0 (map (project pre) ss) =
      Inr (map (\<lambda>s. put n (the (get n s)) (project pre s)) ss)"
    using Cons.prems(1) [of n] by (intro insert_rows_map) (simp add: batched_as_def column_def)
  moreover have "put n (the (get n s)) (project pre s) = project (pre @ [n]) s" for s
  proof -
    have "get n (project pre s) = None" using Cons.prems(2) by (simp add: get_None_iff)
    then show ?thesis by (simp add: put_new project_def)
  qed
  ultimately show ?case using Cons.IH [of "pre @ [n]"] Cons.prems by simp
qed simp

lemma batch_size_known:
  "(\<And>n. n \<in> set ns \<Longrightarrow> row_count (V n) = Inr k) \<Longrightarrow>
   batch_size (Some k) (map (\<lambda>n. (n, V n)) ns) = Inr (Some k)"
  by (induction ns) simp_all

lemma collate_samples_columns:
  assumes "ss \<noteq> []" and names: "\<And>s. s \<in> set ss \<Longrightarrow> well_keyed s \<and> keys s = ns"
    and vals: "\<And>n. n \<in> set ns \<Longrightarrow> collate_values (column ss n) = Inr (V n)"
  shows "collate_samples ss = Inr (map (\<lambda>n. (n, V n)) ns)"
proof -
  obtain s0 rest where ss: "ss = s0 # rest" using assms(1) by (cases ss) auto
  have ns: "keys s0 = ns" "distinct ns" using names [of s0] ss by (auto simp: well_keyed_def)
  have len: "length s = length ns" if "s \<in> set ss" for s
    using names [OF that] by (metis keys_def length_map)
  have has: "get n s = Some (the (get n s))" if "s \<in> set ss" "n \<in> set ns" for s n
    using names [OF that(1)] that(2) get_None_iff [of n s] by auto
  have "collect_res (\<lambda>s. ok_or (Panic ''checked above'') (get n s)) ss = Inr (column ss n)"
    if "n \<in> set ns" for n
    unfolding column_def using has [OF _ that]
    by (intro collect_res_all_Inr) (metis ok_or_simps(2))
  then have "collect_res (\<lambda>n. and_then (collect_res (\<lambda>s. ok_or (Panic ''checked above'') (get n s)) ss)
      (\<lambda>col. map_res (Pair n) (collate_values col))) ns = Inr (map (\<lambda>n. (n, V n)) ns)"
    using vals by (intro collect_res_all_Inr) simp
  moreover have "\<not> list_ex (\<lambda>s. length s \<noteq> length ns \<or> list_ex (\<lambda>n. \<not> contains_key n s) ns) rest"
    using len names ss by (auto simp: list_ex_iff contains_key_iff)
  moreover have "from_pairs (map (\<lambda>n. (n, V n)) ns) = map (\<lambda>n. (n, V n)) ns"
    using ns(2) by (intro from_pairs_distinct) (simp add: comp_def)
  ultimately show ?thesis by (simp add: collate_samples_def ss ns(1) Let_def)
qed

lemma batch_round_trip_lemma:
  assumes "ss \<noteq> []" "ns \<noteq> []" and names: "\<And>s. s \<in> set ss \<Longrightarrow> well_keyed s \<and> keys s = ns"
    and cols: "\<And>n. n \<in> set ns \<Longrightarrow> column_ok (column ss n)"
  shows "\<exists>b. collate_samples ss = Inr b \<and> uncollate_sample b = Inr ss"
proof -
  define V where "V = (\<lambda>n. SOME v. collate_values (column ss n) = Inr v \<and> batched_as v (column ss n))"
  have V: "collate_values (column ss n) = Inr (V n)" "batched_as (V n) (column ss n)" if "n \<in> set ns" for n
    using someI_ex [OF collate_column [OF cols [OF that]]] by (simp_all add: V_def)
  let ?b = "map (\<lambda>n. (n, V n)) ns"
  have c: "collate_samples ss = Inr ?b"
    using collate_samples_columns [of ss ns V, OF assms(1) names V(1)] by blast
  have rc: "row_count (V n) = Inr (length ss)" if "n \<in> set ns" for n
    using V(2) [OF that] by (simp add: batched_as_def column_def)
  obtain n0 ns' where ns: "ns = n0 # ns'" using assms(2) by (cases ns) auto
  have size: "batch_size None ?b = Inr (Some (length ss))"
    using rc batch_size_known [of ns' V "length ss"] by (simp add: ns)
  have "distinct ns" using names assms(1) by (cases ss) (auto simp: well_keyed_def)
  then have "fill_rows ?b (map (project []) ss) = Inr (map (project ns) ss)"
    using fill_rows_project [of ns V ss "[]"] V(2) by simp
  moreover have "map (project []) ss = replicate (length ss) []"
    by (induction ss) (simp_all add: project_def)
  moreover have "map (project ns) ss = ss"
    using names project_keys by (metis map_idI)
  ultimately show ?thesis using c size by (simp add: uncollate_sample_def)
qed

section \<open>Properties\<close>

text \<open>C39: batching is undone by unbatching: samples with the same fields in the same order,
  each column integers below \<open>2^53\<close>, floats of any value, tensors of one shape and type, or
  values that do not stack, come back unchanged from \<^verbatim>\<open>uncollate_sample\<close> of
  \<^verbatim>\<open>collate_samples\<close>.\<close>
theorem batch_round_trip:
  assumes "ss \<noteq> []" and "ns \<noteq> []"
    and "list_all (\<lambda>s. well_keyed s \<and> keys s = ns) ss"
    and "list_all (\<lambda>n. column_ok (column ss n)) ns"
  shows "\<exists>b. collate_samples ss = Inr b \<and> uncollate_sample b = Inr ss"
  using assms by (intro batch_round_trip_lemma [of ss ns]) (auto simp: list_all_iff)

theorem batch_round_trip_witness:
  "\<exists>b. collate_samples
      [[(''__key__'', Text ''a''), (''cls'', IntV 3), (''w'', Float 1)],
       [(''__key__'', Text ''b''), (''cls'', IntV (-7)), (''w'', Float 0)]] = Inr b \<and>
    uncollate_sample b = Inr
      [[(''__key__'', Text ''a''), (''cls'', IntV 3), (''w'', Float 1)],
       [(''__key__'', Text ''b''), (''cls'', IntV (-7)), (''w'', Float 0)]]"
  by (rule batch_round_trip [where ns = "[''__key__'', ''cls'', ''w'']"])
     (simp_all add: well_keyed_def column_def column_ok_def small_ints_def floats_def unstacked_def)

text \<open>Batching changes values it stacks: an integer above \<open>2^53\<close> comes back as its nearest
  float, and a boolean as an integer.\<close>
theorem batch_loses_precision:
  "and_then (collate_samples [[(''n'', IntV 9007199254740993), (''b'', Bool True)]]) uncollate_sample =
    Inr [[(''n'', IntV 9007199254740992), (''b'', IntV 1)]]"
proof -
  have "int_to_f64 9007199254740993 = 0x4340000000000000"
    by (simp add: int_to_f64_def f64_dyadic_def bit_len.simps)
  moreover have parts: "f64_exp 0x4340000000000000 = 1076" "f64_mant 0x4340000000000000 = 0"
    "\<not> f64_sign 0x4340000000000000"
    by (simp_all add: f64_exp_def f64_mant_def f64_sign_def)
  moreover have "f64_to_i64 0x4340000000000000 = 9007199254740992"
    by (simp add: f64_to_i64_def f64_nan_def parts)
  ultimately have big: "f64_to_i64 (element_of_bytes I64 (i64_bytes 9007199254740993)) = 9007199254740992"
    by (simp add: i64_bytes_element)
  have one: "f64_to_i64 (element_of_bytes I64 (i64_bytes 1)) = 1" by (rule i64_bytes_back) simp
  have t: "tensor_new I64 [1] (i64_bytes i) = Inr \<lparr>dtype = I64, shape = [1], data = i64_bytes i\<rparr>" for i
    by (simp add: tensor_new_def byte_count_vector)
  have "row (Tensor \<lparr>dtype = I64, shape = [1], data = i64_bytes i\<rparr>) 0 =
      Inr (IntV (f64_to_i64 (element_of_bytes I64 (i64_bytes i))))" for i
    using scalar_row [of "[i64_bytes i]" 0 I64] by (simp add: row_def is_float_def Let_def)
  then have "row (Tensor \<lparr>dtype = I64, shape = [1], data = i64_bytes 9007199254740993\<rparr>) 0 = Inr (IntV 9007199254740992)"
    "row (Tensor \<lparr>dtype = I64, shape = [1], data = i64_bytes 1\<rparr>) 0 = Inr (IntV 1)"
    using big one by simp_all
  moreover have "collate_samples [[(''n'', IntV 9007199254740993), (''b'', Bool True)]] =
      Inr [(''n'', Tensor \<lparr>dtype = I64, shape = [1], data = i64_bytes 9007199254740993\<rparr>),
           (''b'', Tensor \<lparr>dtype = I64, shape = [1], data = i64_bytes 1\<rparr>)]"
    using t by (simp add: collate_samples_def collate_values_def collate_ints_def value_i64_def
        map_filter_def from_pairs_def Let_def)
  ultimately show ?thesis
    by (simp add: uncollate_sample_def row_count_def sample_insert_def)
qed

end
