(* ===== verification/Iterators.thy ===== *)
theory Iterators
  imports Errors
begin

text \<open>
  Pull iterators as functions from a state to the next item, if any, and the
  state after it.  \<open>drain\<close> collects what an iterator yields; the interface
  \<open>pull\<close> (a measure that every yielded item decreases) makes a drained iterator
  independent of the bound.  Upstream iterators of the pipeline stages are the
  lists of the items still to come.
\<close>

fun drain :: "nat \<Rightarrow> ('s \<Rightarrow> 'a option \<times> 's) \<Rightarrow> 's \<Rightarrow> 'a list" where
  "drain 0 nxt s = []"
| "drain (Suc n) nxt s =
     (case nxt s of (None, s') \<Rightarrow> [] | (Some x, s') \<Rightarrow> x # drain n nxt s')"

definition list_next :: "'a list \<Rightarrow> 'a option \<times> 'a list" where
  "list_next xs = (case xs of [] \<Rightarrow> (None, []) | y # ys \<Rightarrow> (Some y, ys))"

text \<open>The iterator yields exactly these items and then ends.\<close>

inductive yields :: "('s \<Rightarrow> 'a option \<times> 's) \<Rightarrow> 's \<Rightarrow> 'a list \<Rightarrow> bool" for nxt where
  stop: "nxt s = (None, s') \<Longrightarrow> yields nxt s []"
| item: "nxt s = (Some x, s') \<Longrightarrow> yields nxt s' xs \<Longrightarrow> yields nxt s (x # xs)"

inductive_cases yields_NilE: "yields nxt s []"
inductive_cases yields_ConsE: "yields nxt s (x # xs)"

lemma yields_same_next: "nxt s = nxt s' \<Longrightarrow> yields nxt s' xs \<Longrightarrow> yields nxt s xs"
  by (cases xs) (auto elim!: yields_NilE yields_ConsE intro: yields.intros)

lemma yields_drain: "yields nxt s xs \<Longrightarrow> length xs < n \<Longrightarrow> drain n nxt s = xs"
proof (induction arbitrary: n rule: yields.induct)
  case (stop s s')
  then show ?case by (cases n) auto
next
  case (item s x s' xs)
  then show ?case by (cases n) auto
qed

lemma yields_unique: "yields nxt s xs \<Longrightarrow> yields nxt s ys \<Longrightarrow> xs = ys"
  using yields_drain [of nxt s xs "Suc (length xs + length ys)"]
    yields_drain [of nxt s ys "Suc (length xs + length ys)"] by simp

lemma drain_same_next: "nxt s = nxt s' \<Longrightarrow> drain n nxt s = drain n nxt s'"
  by (cases n) simp_all

lemma yields_list: "yields list_next xs xs"
  by (induction xs) (auto simp: list_next_def intro: yields.intros)

locale pull =
  fixes nxt :: "'s \<Rightarrow> 'a option \<times> 's" and left :: "'s \<Rightarrow> nat"
  assumes progress: "nxt s = (Some x, s') \<Longrightarrow> left s' < left s"
begin

lemma drain_enough: "left s < n \<Longrightarrow> left s < m \<Longrightarrow> drain n nxt s = drain m nxt s"
proof (induction n arbitrary: m s)
  case (Suc n)
  then obtain k where m: "m = Suc k" by (cases m) auto
  show ?case
  proof (cases "nxt s")
    case (Pair y s')
    show ?thesis
    proof (cases y)
      case (Some x)
      then have "left s' < left s" using Pair progress by blast
      then have "left s' < n" "left s' < k" using Suc.prems m by auto
      then have "drain n nxt s' = drain k nxt s'" by (rule Suc.IH)
      then show ?thesis using Pair Some m by simp
    qed (simp add: Pair m)
  qed
qed simp

lemma length_drain_le: "length (drain n nxt s) \<le> left s"
proof (induction n arbitrary: s)
  case (Suc n)
  show ?case
  proof (cases "nxt s")
    case (Pair y s')
    show ?thesis
    proof (cases y)
      case (Some x)
      then have "left s' < left s" using Pair progress by blast
      then show ?thesis using Suc [of s'] Pair Some by simp
    qed (simp add: Pair)
  qed
qed simp

lemma yields_all: "yields nxt s (drain (Suc (left s)) nxt s)"
proof (induction "left s" arbitrary: s rule: less_induct)
  case less
  show ?case
  proof (cases "nxt s")
    case (Pair y s')
    show ?thesis
    proof (cases y)
      case None
      then show ?thesis using Pair by (auto intro: yields.intros)
    next
      case (Some x)
      then have lt: "left s' < left s" using Pair progress by blast
      then have "drain (left s) nxt s' = drain (Suc (left s')) nxt s'" by (intro drain_enough) auto
      then have "drain (Suc (left s)) nxt s = x # drain (Suc (left s')) nxt s'"
        using Pair Some by simp
      then show ?thesis using less [OF lt] Pair Some by (simp add: yields.item)
    qed
  qed
qed

lemma drain_unfold:
  "left s < n \<Longrightarrow> drain n nxt s =
     (case nxt s of (None, s') \<Rightarrow> [] | (Some x, s') \<Rightarrow> x # drain n nxt s')"
proof -
  assume n: "left s < n"
  then obtain k where k: "n = Suc k" by (cases n) auto
  show ?thesis
  proof (cases "nxt s")
    case (Pair y s')
    show ?thesis
    proof (cases y)
      case (Some x)
      then have "left s' < left s" using Pair progress by blast
      then have "drain k nxt s' = drain n nxt s'" using n k by (intro drain_enough) auto
      then show ?thesis using Pair Some k by simp
    qed (simp add: Pair k)
  qed
qed

end

interpretation list_pull: pull list_next length
  by unfold_locales (auto simp: list_next_def split: list.splits)

lemma drain_list: "length xs < n \<Longrightarrow> drain n list_next xs = xs"
  by (induction n arbitrary: xs) (auto simp: list_next_def split: list.splits)

section \<open>Nothing lost, nothing invented\<close>

text \<open>The items of a result list, and its errors.\<close>

fun rights :: "'a res list \<Rightarrow> 'a list" where
  "rights [] = []"
| "rights (Inl e # xs) = rights xs"
| "rights (Inr x # xs) = x # rights xs"

fun lefts :: "'a res list \<Rightarrow> error list" where
  "lefts [] = []"
| "lefts (Inl e # xs) = e # lefts xs"
| "lefts (Inr x # xs) = lefts xs"

lemma rights_append: "rights (xs @ ys) = rights xs @ rights ys"
  by (induction xs rule: rights.induct) auto

lemma rights_Inr [simp]: "rights (map Inr xs) = xs"
  by (induction xs) simp_all

lemma lefts_Inr [simp]: "lefts (map Inr xs) = []"
  by (induction xs) simp_all

text \<open>An iterator that only reorders what it still holds: every step delivers one of the items
  (or errors) that are left, and it ends when nothing is left.\<close>

locale conserving =
  fixes nxt :: "'s \<Rightarrow> 'a res option \<times> 's"
    and content :: "'s \<Rightarrow> 'a multiset"
    and failures :: "'s \<Rightarrow> error multiset"
    and inv :: "'s \<Rightarrow> bool"
  assumes inv_step: "inv s \<Longrightarrow> nxt s = (r, s') \<Longrightarrow> inv s'"
    and gives: "inv s \<Longrightarrow> nxt s = (Some (Inr x), s') \<Longrightarrow>
      content s = add_mset x (content s') \<and> failures s = failures s'"
    and fails: "inv s \<Longrightarrow> nxt s = (Some (Inl e), s') \<Longrightarrow>
      content s = content s' \<and> failures s = add_mset e (failures s')"
    and ends: "inv s \<Longrightarrow> nxt s = (None, s') \<Longrightarrow> content s = {#} \<and> failures s = {#}"
begin

lemma yields_content:
  "yields nxt s xs \<Longrightarrow> inv s \<Longrightarrow> mset (rights xs) = content s \<and> mset (lefts xs) = failures s"
proof (induction rule: yields.induct)
  case (stop s s')
  then show ?case using ends by auto
next
  case (item s x s' xs)
  have "inv s'" by (rule inv_step [OF item.prems item.hyps(1)])
  then show ?case using item gives [of s _ s'] fails [of s _ s'] by (cases x) auto
qed

lemma finite_total:
  assumes "inv s"
  shows "\<exists>xs. yields nxt s xs \<and> length xs = size (content s) + size (failures s)"
  using assms
proof (induction "size (content s) + size (failures s)" arbitrary: s rule: less_induct)
  case less
  obtain r s' where r: "nxt s = (r, s')" by fastforce
  show ?case
  proof (cases r)
    case None
    then show ?thesis using r ends [OF less.prems] by (intro exI [of _ "[]"]) (auto intro: yields.stop)
  next
    case (Some x)
    have inv: "inv s'" by (rule inv_step [OF less.prems r])
    have sz: "size (content s) + size (failures s) = Suc (size (content s') + size (failures s'))"
      using gives [OF less.prems, of _ s'] fails [OF less.prems, of _ s'] r Some by (cases x) auto
    then obtain xs where "yields nxt s' xs" "length xs = size (content s') + size (failures s')"
      using less.hyps [of s'] inv by auto
    then show ?thesis using r Some sz
      by (intro exI [of _ "x # xs"]) (auto intro: yields.item)
  qed
qed

end

end
