(* ===== verification/Filters.thy ===== *)
theory Filters
  imports Complex_Main Batching Iterators
begin

text \<open>
  \<^verbatim>\<open>webdataset/src/filters.rs\<close>: the iterator adapters between the reader and the
  training loop.  An adapter's upstream is the list of the items still to come; an
  upstream that has ended stays ended.  A closure (\<^verbatim>\<open>FnMut\<close>) is a function that also
  takes and returns its own state; the random generator is a state \<open>'g\<close> with a
  function that draws an index below a bound.  Patterns of the third-party \<^verbatim>\<open>glob\<close>
  crate are values \<open>'p\<close> with a parameter that decides a match.
\<close>

section \<open>Shuffling\<close>

text \<open>\<^verbatim>\<open>Vec::swap_remove\<close>: the last element fills the hole.\<close>
definition swap_remove :: "nat \<Rightarrow> 'a list \<Rightarrow> 'a \<times> 'a list" where
  "swap_remove i xs = (xs ! i, (butlast xs)[i := last xs])"

definition pick :: "(nat \<Rightarrow> 'g \<Rightarrow> nat \<times> 'g) \<Rightarrow> 'a list \<Rightarrow> 'g \<Rightarrow> 'a option \<times> 'a list \<times> 'g" where
  "pick draw buf g =
     (if buf = [] then (None, buf, g)
      else
        (case draw (length buf) g of
           (i, g') \<Rightarrow> (case swap_remove i buf of (x, buf') \<Rightarrow> (Some x, buf', g'))))"

record ('a, 'g) shuffle =
  sh_source :: "'a res list"
  buffer :: "'a list"
  bufsize :: nat
  initial :: nat
  rng :: 'g
  drained :: bool

definition shuffle_new :: "'a res list \<Rightarrow> nat \<Rightarrow> nat \<Rightarrow> 'g \<Rightarrow> ('a, 'g) shuffle" where
  "shuffle_new src n init g =
     (let n = max n 1
      in \<lparr>sh_source = src, buffer = [], bufsize = n, initial = min (max init 1) n, rng = g,
          drained = False\<rparr>)"

text \<open>\<^verbatim>\<open>shuffled(bufsize, seed)\<close>: the warm-up is a tenth of the buffer.\<close>
definition shuffled :: "'a res list \<Rightarrow> nat \<Rightarrow> 'g \<Rightarrow> ('a, 'g) shuffle" where
  "shuffled src n g = shuffle_new src n (max ((n + 9) div 10) 1) g"

definition pick_from :: "(nat \<Rightarrow> 'g \<Rightarrow> nat \<times> 'g) \<Rightarrow> ('a, 'g) shuffle \<Rightarrow> 'a res option \<times> ('a, 'g) shuffle" where
  "pick_from draw s =
     (case pick draw (buffer s) (rng s) of
        (x, buf, g) \<Rightarrow> (map_option Inr x, s\<lparr>buffer := buf, rng := g\<rparr>))"

function shuffle_next :: "(nat \<Rightarrow> 'g \<Rightarrow> nat \<times> 'g) \<Rightarrow> ('a, 'g) shuffle \<Rightarrow> 'a res option \<times> ('a, 'g) shuffle" where
  "shuffle_next draw s =
     (if drained s then pick_from draw s
      else
        (case sh_source s of
           [] \<Rightarrow> shuffle_next draw (s\<lparr>drained := True\<rparr>)
         | Inl e # rest \<Rightarrow> (Some (Inl e), s\<lparr>sh_source := rest\<rparr>)
         | Inr x # rest \<Rightarrow>
             (let s = s\<lparr>sh_source := rest, buffer := buffer s @ [x]\<rparr> in
              if length (buffer s) < bufsize s then
                (case rest of
                   Inl e # rest' \<Rightarrow> (Some (Inl e), s\<lparr>sh_source := rest'\<rparr>)
                 | Inr y # rest' \<Rightarrow>
                     (let s = s\<lparr>sh_source := rest', buffer := buffer s @ [y]\<rparr> in
                      if initial s \<le> length (buffer s) then pick_from draw s else shuffle_next draw s)
                 | [] \<Rightarrow>
                     (let s = s\<lparr>drained := True\<rparr> in
                      if initial s \<le> length (buffer s) then pick_from draw s else shuffle_next draw s))
              else if initial s \<le> length (buffer s) then pick_from draw s
              else shuffle_next draw s)))"
  by pat_completeness auto
termination
  by (relation "measure (\<lambda>(draw, s). length (sh_source s) + (if drained s then 0 else 1))")
     (auto split: if_splits)

declare shuffle_next.simps [simp del]

section \<open>Selecting and mapping\<close>

record ('a, 'c) closure_stage =
  st_source :: "'a res list"
  st_fun :: 'c
  st_handler :: handler
  st_done :: bool

fun select_loop :: "('a \<Rightarrow> 'c \<Rightarrow> bool \<times> 'c) \<Rightarrow> 'a res list \<Rightarrow> 'c \<Rightarrow> 'a res option \<times> 'a res list \<times> 'c" where
  "select_loop p [] c = (None, [], c)"
| "select_loop p (Inl e # xs) c = (Some (Inl e), xs, c)"
| "select_loop p (Inr x # xs) c =
     (case p x c of (b, c') \<Rightarrow> if b then (Some (Inr x), xs, c') else select_loop p xs c')"

definition select_next ::
  "('a \<Rightarrow> 'c \<Rightarrow> bool \<times> 'c) \<Rightarrow> 'a res list \<times> 'c \<Rightarrow> 'a res option \<times> 'a res list \<times> 'c" where
  "select_next p s = (case s of (xs, c) \<Rightarrow> select_loop p xs c)"

text \<open>The loop \<^verbatim>\<open>MapSamples\<close>, \<^verbatim>\<open>ToTuple\<close>, \<^verbatim>\<open>ExtractKeys\<close> and \<^verbatim>\<open>MapTuple\<close> have in common: pull, apply,
  and let the handler decide about a failure.\<close>

fun handled_loop ::
  "('a \<Rightarrow> 'c \<Rightarrow> 'b option res \<times> 'c) \<Rightarrow> handler \<Rightarrow> 'a res list \<Rightarrow> 'c \<Rightarrow>
   'b res option \<times> 'a res list \<times> 'c \<times> bool" where
  "handled_loop f h [] c = (None, [], c, False)"
| "handled_loop f h (Inl e # xs) c = (Some (Inl e), xs, c, False)"
| "handled_loop f h (Inr x # xs) c =
     (case f x c of
        (Inr (Some y), c') \<Rightarrow> (Some (Inr y), xs, c', False)
      | (Inr None, c') \<Rightarrow> handled_loop f h xs c'
      | (Inl e, c') \<Rightarrow>
          (case h e of
             Continue \<Rightarrow> handled_loop f h xs c'
           | Stop \<Rightarrow> (None, xs, c', True)
           | Reraise \<Rightarrow> (Some (Inl e), xs, c', False)))"

definition handled_next ::
  "('a \<Rightarrow> 'c \<Rightarrow> 'b option res \<times> 'c) \<Rightarrow> ('a, 'c) closure_stage \<Rightarrow>
   'b res option \<times> ('a, 'c) closure_stage" where
  "handled_next f s =
     (if st_done s then (None, s)
      else
        (case handled_loop f (st_handler s) (st_source s) (st_fun s) of
           (r, xs, c, d) \<Rightarrow> (r, s\<lparr>st_source := xs, st_fun := c, st_done := d\<rparr>)))"

text \<open>\<^verbatim>\<open>MapSamples\<close>: the key survives the mapping.\<close>
definition map_body ::
  "(sample \<Rightarrow> 'c \<Rightarrow> sample option res \<times> 'c) \<Rightarrow> sample \<Rightarrow> 'c \<Rightarrow> sample option res \<times> 'c" where
  "map_body f s c =
     (case f s c of
        (Inr (Some m), c') \<Rightarrow>
          (Inr (Some
             (case sample_key s of
                Some k \<Rightarrow> if contains_key KEY m then m else set_key k m
              | None \<Rightarrow> m)), c')
      | (r, c') \<Rightarrow> (r, c'))"

definition map_samples_next ::
  "(sample \<Rightarrow> 'c \<Rightarrow> sample option res \<times> 'c) \<Rightarrow> (sample, 'c) closure_stage \<Rightarrow>
   sample res option \<times> (sample, 'c) closure_stage" where
  "map_samples_next f s = handled_next (map_body f) s"

fun tuple_row :: "bool \<Rightarrow> sample \<Rightarrow> string list \<Rightarrow> field_value list res" where
  "tuple_row missing s [] = Inr []"
| "tuple_row missing s (spec # specs) =
     (case get_first_spec spec s of
        Some v \<Rightarrow> map_res ((#) v) (tuple_row missing s specs)
      | None \<Rightarrow>
          if missing then Inl (MissingKey (split_on '';'' spec) (keys s))
          else map_res ((#) Null) (tuple_row missing s specs))"

definition to_tuple_next ::
  "string list \<Rightarrow> bool \<Rightarrow> (sample, unit) closure_stage \<Rightarrow>
   field_value list res option \<times> (sample, unit) closure_stage" where
  "to_tuple_next specs missing s =
     handled_next (\<lambda>x c. (map_res Some (tuple_row missing x specs), c)) s"

definition matching ::
  "('p \<Rightarrow> string \<Rightarrow> bool) \<Rightarrow> 'p list \<Rightarrow> sample \<Rightarrow> string list" where
  "matching matches alts s =
     filter (\<lambda>n. list_ex (\<lambda>p. matches p n \<or> matches p (CHR ''.'' # n)) alts) (keys s)"

fun extract_row ::
  "('p \<Rightarrow> string \<Rightarrow> bool) \<Rightarrow> ('p \<Rightarrow> string) \<Rightarrow> sample \<Rightarrow> bool \<Rightarrow> bool \<Rightarrow> 'p list list \<Rightarrow>
   field_value list res" where
  "extract_row matches txt s dup ignore [] = Inr []"
| "extract_row matches txt s dup ignore (alts # ps) =
     (case matching matches alts s of
        [] \<Rightarrow>
          if ignore then extract_row matches txt s dup ignore ps
          else Inl (MissingKey (map txt alts) (keys s))
      | n # others \<Rightarrow>
          if others \<noteq> [] \<and> dup then Inl (Value ''several fields match'')
          else
            and_then (ok_or (Panic ''name came from the sample'') (get n s))
              (\<lambda>v. map_res ((#) v) (extract_row matches txt s dup ignore ps)))"

definition extract_keys_next ::
  "('p \<Rightarrow> string \<Rightarrow> bool) \<Rightarrow> ('p \<Rightarrow> string) \<Rightarrow> 'p list list \<Rightarrow> bool \<Rightarrow> bool \<Rightarrow>
   (sample, unit) closure_stage \<Rightarrow> field_value list res option \<times> (sample, unit) closure_stage" where
  "extract_keys_next matches txt pats dup ignore s =
     handled_next (\<lambda>x c. (map_res Some (extract_row matches txt x dup ignore pats), c)) s"

text \<open>\<^verbatim>\<open>extract_keys\<close> parses its patterns first; \<open>parse\<close> is \<^verbatim>\<open>glob::Pattern::new\<close>.\<close>
definition parse_patterns :: "(string \<Rightarrow> 'p option) \<Rightarrow> string list \<Rightarrow> 'p list list res" where
  "parse_patterns parse specs =
     collect_res (\<lambda>spec. collect_res (\<lambda>p. ok_or (Value ''bad pattern'') (parse p)) (split_on '';'' spec)) specs"

fun map_tuple_row ::
  "(field_value \<Rightarrow> field_value res) option list \<Rightarrow> field_value list \<Rightarrow> field_value list res" where
  "map_tuple_row [] vs = Inr vs"
| "map_tuple_row fs [] = Inr []"
| "map_tuple_row (None # fs) (v # vs) = map_res ((#) v) (map_tuple_row fs vs)"
| "map_tuple_row (Some f # fs) (v # vs) =
     and_then (f v) (\<lambda>w. map_res ((#) w) (map_tuple_row fs vs))"

definition map_tuple_next ::
  "(field_value \<Rightarrow> field_value res) option list \<Rightarrow> (field_value list, unit) closure_stage \<Rightarrow>
   field_value list res option \<times> (field_value list, unit) closure_stage" where
  "map_tuple_next fs s = handled_next (\<lambda>x c. (map_res Some (map_tuple_row fs x), c)) s"

section \<open>Grouping items\<close>

record 'a listed =
  ls_source :: "'a res list"
  ls_size :: nat
  ls_partial :: bool

definition listed :: "'a res list \<Rightarrow> nat \<Rightarrow> bool \<Rightarrow> 'a listed" where
  "listed src n part = \<lparr>ls_source = src, ls_size = max n 1, ls_partial = part\<rparr>"

text \<open>The loop of \<^verbatim>\<open>Listed::next\<close>: the group so far is a local of the call.\<close>
fun fill_group :: "nat \<Rightarrow> 'a list \<Rightarrow> 'a res list \<Rightarrow> 'a list res \<times> 'a res list" where
  "fill_group n items [] = (Inr items, [])"
| "fill_group n items (x # xs) =
     (if length items < n then
        (case x of
           Inr y \<Rightarrow> fill_group n (items @ [y]) xs
         | Inl e \<Rightarrow> (Inl e, xs))
      else (Inr items, x # xs))"

definition listed_next :: "'a listed \<Rightarrow> 'a list res option \<times> 'a listed" where
  "listed_next s =
     (case fill_group (ls_size s) [] (ls_source s) of
        (Inl e, rest) \<Rightarrow> (Some (Inl e), s\<lparr>ls_source := rest\<rparr>)
      | (Inr items, rest) \<Rightarrow>
          (if items = [] then None
           else if length items < ls_size s \<and> \<not> ls_partial s then None
           else Some (Inr items), s\<lparr>ls_source := rest\<rparr>))"

definition batched_next :: "sample listed \<Rightarrow> sample res option \<times> sample listed" where
  "batched_next s =
     (case listed_next s of
        (None, s') \<Rightarrow> (None, s')
      | (Some (Inl e), s') \<Rightarrow> (Some (Inl e), s')
      | (Some (Inr items), s') \<Rightarrow> (Some (collate_samples items), s'))"

definition batched_tuples_next ::
  "field_value list listed \<Rightarrow> field_value list res option \<times> field_value list listed" where
  "batched_tuples_next s =
     (case listed_next s of
        (None, s') \<Rightarrow> (None, s')
      | (Some (Inl e), s') \<Rightarrow> (Some (Inl e), s')
      | (Some (Inr rows), s') \<Rightarrow> (Some (collate_tuples rows), s'))"

text \<open>\<^verbatim>\<open>Unbatched\<close>: the upstream and the samples of the current batch.\<close>
fun unbatch_loop :: "sample res list \<Rightarrow> sample res option \<times> sample res list \<times> sample list" where
  "unbatch_loop [] = (None, [], [])"
| "unbatch_loop (Inl e # xs) = (Some (Inl e), xs, [])"
| "unbatch_loop (Inr b # xs) =
     (case uncollate_sample b of
        Inl e \<Rightarrow> (Some (Inl e), xs, [])
      | Inr [] \<Rightarrow> unbatch_loop xs
      | Inr (s # ss) \<Rightarrow> (Some (Inr s), xs, ss))"

definition unbatched_next ::
  "sample res list \<times> sample list \<Rightarrow> sample res option \<times> sample res list \<times> sample list" where
  "unbatched_next st =
     (case st of
        (src, s # ss) \<Rightarrow> (Some (Inr s), src, ss)
      | (src, []) \<Rightarrow> unbatch_loop src)"

section \<open>Sampling, slicing, guarding\<close>

text \<open>\<open>uniform\<close> draws from \<^verbatim>\<open>0..1\<close>; the probability is a number (a NaN keeps nothing).\<close>
fun subsample_loop ::
  "('g \<Rightarrow> rat \<times> 'g) \<Rightarrow> rat \<Rightarrow> 'a res list \<Rightarrow> 'g \<Rightarrow> 'a res option \<times> 'a res list \<times> 'g" where
  "subsample_loop uniform p [] g = (None, [], g)"
| "subsample_loop uniform p (Inl e # xs) g = (Some (Inl e), xs, g)"
| "subsample_loop uniform p (Inr x # xs) g =
     (case uniform g of
        (u, g') \<Rightarrow> if u < p then (Some (Inr x), xs, g') else subsample_loop uniform p xs g')"

definition rsample_new :: "rat \<Rightarrow> rat" where
  "rsample_new p = max 0 (min p 1)"

fun step_by :: "nat \<Rightarrow> 'a list \<Rightarrow> 'a list" where
  "step_by k [] = []"
| "step_by k (x # xs) = x # step_by k (drop (k - 1) xs)"

definition sliced :: "'a list \<Rightarrow> nat \<Rightarrow> nat option \<Rightarrow> nat \<Rightarrow> 'a list" where
  "sliced xs start limit step =
     (let stepped = step_by (max step 1) (drop start xs)
      in case limit of Some n \<Rightarrow> take n stepped | None \<Rightarrow> stepped)"

record 'a non_empty =
  ne_source :: "'a res list"
  ne_seen :: nat
  ne_message :: string
  ne_reported :: bool

definition non_empty :: "'a res list \<Rightarrow> string \<Rightarrow> 'a non_empty" where
  "non_empty src msg = \<lparr>ne_source = src, ne_seen = 0, ne_message = msg, ne_reported = False\<rparr>"

definition non_empty_next :: "'a non_empty \<Rightarrow> 'a res option \<times> 'a non_empty" where
  "non_empty_next s =
     (case ne_source s of
        x # rest \<Rightarrow> (Some x, s\<lparr>ne_source := rest, ne_seen := Suc (ne_seen s)\<rparr>)
      | [] \<Rightarrow>
          if ne_seen s = 0 \<and> \<not> ne_reported s
          then (Some (Inl (Empty (ne_message s))), s\<lparr>ne_reported := True\<rparr>)
          else (None, s))"

section \<open>Renaming fields\<close>

fun insert_renamed :: "sample \<Rightarrow> (string \<times> string) list \<Rightarrow> sample \<Rightarrow> sample res" where
  "insert_renamed s [] out = Inr out"
| "insert_renamed s ((target, source) # rs) out =
     and_then (require_first_spec source s) (\<lambda>v. insert_renamed s rs (sample_insert target v out))"

definition rename_fields :: "sample \<Rightarrow> (string \<times> string) list \<Rightarrow> bool \<Rightarrow> sample res" where
  "rename_fields s renames keep =
     (let consumed = concat (map (\<lambda>(_, source). split_on '';'' source) renames);
          kept = (if keep then filter (\<lambda>(n, v). n \<notin> set consumed) s
                  else filter (\<lambda>(n, v). is_meta n) s)
      in insert_renamed s renames (foldl (\<lambda>out (n, v). sample_insert n v out) [] kept))"

text \<open>\<^verbatim>\<open>renames.iter().enumerate().rev().find(...)\<close>: the last pattern that matches.\<close>
definition last_hit :: "('p \<Rightarrow> string \<Rightarrow> bool) \<Rightarrow> ('p \<times> string) list \<Rightarrow> string \<Rightarrow> nat option" where
  "last_hit matches renames name = rfind_idx (\<lambda>(p, _). matches p name) renames"

definition base_lower :: "string \<Rightarrow> string" where
  "base_lower path = to_ascii_lowercase (last (split_on ''/'' path))"

fun rename_loop ::
  "('p \<Rightarrow> string \<Rightarrow> bool) \<Rightarrow> ('p \<times> string) list \<Rightarrow> bool \<Rightarrow> bool \<Rightarrow> sample \<Rightarrow> bool list \<Rightarrow> sample \<Rightarrow>
   (bool list \<times> sample) res" where
  "rename_loop matches renames keep dup [] matched out = Inr (matched, out)"
| "rename_loop matches renames keep dup ((path, v) # m) matched out =
     (case last_hit matches renames (base_lower path) of
        Some i \<Rightarrow>
          (let matched = matched[i := True]; target = snd (renames ! i) in
           if contains_key target out then
             (if dup then Inl (Value ''target is already set after renaming'')
              else rename_loop matches renames keep dup m matched out)
           else rename_loop matches renames keep dup m matched (sample_insert target v out))
      | None \<Rightarrow>
          rename_loop matches renames keep dup m matched
            (if keep then sample_insert path v out else out))"

definition rename_keys_in ::
  "('p \<Rightarrow> string \<Rightarrow> bool) \<Rightarrow> sample \<Rightarrow> ('p \<times> string) list \<Rightarrow> bool \<Rightarrow> bool \<Rightarrow> bool \<Rightarrow> sample res" where
  "rename_keys_in matches s renames keep must dup =
     and_then (rename_loop matches renames keep dup s (replicate (length renames) False) [])
       (\<lambda>(matched, out).
          if must \<and> \<not> list_all (\<lambda>b. b) matched then Inl (Value ''patterns matched nothing'')
          else Inr out)"

end
