(* ===== verification/Filters_Spec.thy ===== *)
theory Filters_Spec
  imports Filters
begin

text \<open>
  What the adapters of \<open>Filters\<close> promise: shuffling reorders, grouping cuts,
  unbatching undoes batching, selecting filters.
\<close>

section \<open>Shuffling conserves the stream\<close>

lemma mset_swap_remove:
  assumes "i < length xs"
  shows "mset xs = add_mset (fst (swap_remove i xs)) (mset (snd (swap_remove i xs)))"
proof -
  have ne: "xs \<noteq> []" using assms by auto
  then have xs: "mset xs = add_mset (last xs) (mset (butlast xs))"
    by (metis add_mset_add_single append_butlast_last_id mset.simps(1) mset.simps(2) mset_append)
  show ?thesis
  proof (cases "i < length (butlast xs)")
    case True
    then have "mset ((butlast xs)[i := last xs]) = add_mset (last xs) (mset (butlast xs) - {#xs ! i#})"
      by (simp add: mset_update nth_butlast)
    moreover have "xs ! i \<in># mset (butlast xs)"
      using True by (metis nth_butlast nth_mem set_mset_mset)
    ultimately show ?thesis using xs by (simp add: swap_remove_def)
  next
    case False
    then have i: "i = length (butlast xs)" using assms by simp
    then have "xs ! i = last xs" using ne by (simp add: last_conv_nth)
    moreover have "(butlast xs)[i := last xs] = butlast xs"
      using False by (intro list_update_beyond) simp
    ultimately show ?thesis using xs by (simp add: swap_remove_def)
  qed
qed

definition draws :: "(nat \<Rightarrow> 'g \<Rightarrow> nat \<times> 'g) \<Rightarrow> bool" where
  "draws draw = (\<forall>n g. 0 < n \<longrightarrow> fst (draw n g) < n)"

definition sh_content :: "('a, 'g) shuffle \<Rightarrow> 'a multiset" where
  "sh_content s = mset (buffer s) + mset (rights (sh_source s))"

definition sh_failures :: "('a, 'g) shuffle \<Rightarrow> error multiset" where
  "sh_failures s = mset (lefts (sh_source s))"

definition sh_inv :: "('a, 'g) shuffle \<Rightarrow> bool" where
  "sh_inv s =
     (1 \<le> initial s \<and> initial s \<le> bufsize s \<and> length (buffer s) \<le> bufsize s \<and>
      (if drained s then sh_source s = [] else length (buffer s) < bufsize s))"

lemma pick_from_cases:
  assumes "draws draw"
  obtains (empty) "buffer s = []" "pick_from draw s = (None, s)"
  | (one) x buf g where "buffer s \<noteq> []" "pick_from draw s = (Some (Inr x), s\<lparr>buffer := buf, rng := g\<rparr>)"
      "mset (buffer s) = add_mset x (mset buf)"
proof (cases "buffer s = []")
  case True
  then show thesis by (intro empty) (simp_all add: pick_from_def pick_def)
next
  case False
  obtain i g where d: "draw (length (buffer s)) (rng s) = (i, g)" by fastforce
  have i: "i < length (buffer s)"
    using assms False d by (metis draws_def fst_conv length_greater_0_conv)
  obtain x buf where sr: "swap_remove i (buffer s) = (x, buf)" by fastforce
  show thesis
  proof (rule one [OF False])
    show "pick_from draw s = (Some (Inr x), s\<lparr>buffer := buf, rng := g\<rparr>)"
      using False d sr by (simp add: pick_from_def pick_def)
    show "mset (buffer s) = add_mset x (mset buf)" using mset_swap_remove [OF i] sr by simp
  qed
qed

text \<open>One call, as the laws of \<open>conserving\<close> need it.\<close>

definition sh_law :: "('a, 'g) shuffle \<Rightarrow> 'a res option \<times> ('a, 'g) shuffle \<Rightarrow> bool" where
  "sh_law s rs =
     (case rs of
        (None, s') \<Rightarrow> sh_inv s' \<and> sh_content s = {#} \<and> sh_failures s = {#}
      | (Some (Inr x), s') \<Rightarrow>
          sh_inv s' \<and> sh_content s = add_mset x (sh_content s') \<and> sh_failures s = sh_failures s'
      | (Some (Inl e), s') \<Rightarrow>
          sh_inv s' \<and> sh_content s = sh_content s' \<and> sh_failures s = add_mset e (sh_failures s'))"

lemma sh_law_cong:
  "sh_content s = sh_content t \<Longrightarrow> sh_failures s = sh_failures t \<Longrightarrow> sh_law t r \<Longrightarrow> sh_law s r"
  by (auto simp: sh_law_def split: prod.splits option.splits sum.splits)

lemma sh_law_pick:
  assumes "draws draw" and "1 \<le> initial s" "initial s \<le> bufsize s" "length (buffer s) \<le> bufsize s"
    and "drained s \<Longrightarrow> sh_source s = []" "buffer s = [] \<Longrightarrow> drained s"
  shows "sh_law s (pick_from draw s)"
  using assms(1)
proof (cases rule: pick_from_cases [of draw s])
  case empty
  then show ?thesis
    using assms by (simp add: sh_law_def sh_inv_def sh_content_def sh_failures_def)
next
  case (one x buf g)
  have "length (buffer s) = Suc (length buf)" using one(3) by (metis size_add_mset size_mset)
  then show ?thesis
    using one assms by (auto simp: sh_law_def sh_inv_def sh_content_def sh_failures_def)
qed

lemma shuffle_law:
  "draws draw \<Longrightarrow> sh_inv s \<Longrightarrow> sh_law s (shuffle_next draw s)"
proof (induction "length (sh_source s) + (if drained s then 0 else 1)" arbitrary: s rule: less_induct)
  case less
  note d = less.prems(1)
  have inv: "1 \<le> initial s" "initial s \<le> bufsize s" "length (buffer s) \<le> bufsize s"
    using less.prems by (simp_all add: sh_inv_def)
  note un = shuffle_next.simps [of draw s]
  have emit: "sh_law s (if initial t \<le> length (buffer t) then pick_from draw t else shuffle_next draw t)"
    if t: "initial t = initial s" "bufsize t = bufsize s" "length (buffer t) \<le> bufsize s" "buffer t \<noteq> []"
      "drained t \<Longrightarrow> sh_source t = []"
      and m: "length (sh_source t) + (if drained t then 0 else 1) < length (sh_source s) + (if drained s then 0 else 1)"
      and c: "sh_content s = sh_content t" "sh_failures s = sh_failures t" for t
  proof (rule sh_law_cong [OF c])
    show "sh_law t (if initial t \<le> length (buffer t) then pick_from draw t else shuffle_next draw t)"
    proof (cases "initial t \<le> length (buffer t)")
      case True
      then show ?thesis using t inv d by (auto intro!: sh_law_pick)
    next
      case False
      then have "sh_inv t" using t inv by (simp add: sh_inv_def)
      then show ?thesis using less.hyps [OF m d] False by simp
    qed
  qed
  consider (dr) "drained s" | (nil) "\<not> drained s" "sh_source s = []"
    | (err) e rest where "\<not> drained s" "sh_source s = Inl e # rest"
    | (ok) x rest where "\<not> drained s" "sh_source s = Inr x # rest"
    by (metis neq_Nil_conv old.sum.exhaust)
  then show ?case
  proof cases
    case dr
    then show ?thesis using less.prems inv un by (simp add: sh_inv_def sh_law_pick [OF d])
  next
    case nil
    have "sh_inv (s\<lparr>drained := True\<rparr>)" using nil inv by (simp add: sh_inv_def)
    then have "sh_law (s\<lparr>drained := True\<rparr>) (shuffle_next draw (s\<lparr>drained := True\<rparr>))"
      using nil d by (intro less.hyps) simp_all
    then have "sh_law s (shuffle_next draw (s\<lparr>drained := True\<rparr>))"
      by (rule sh_law_cong [rotated 2]) (simp_all add: sh_content_def sh_failures_def)
    then show ?thesis using nil by (simp add: un)
  next
    case err
    then show ?thesis using less.prems un by (simp add: sh_law_def sh_inv_def sh_content_def sh_failures_def)
  next
    case ok
    have lt: "length (buffer s) < bufsize s" using less.prems ok by (simp add: sh_inv_def)
    let ?t = "s\<lparr>sh_source := rest, buffer := buffer s @ [x]\<rparr>"
    have c: "sh_content s = sh_content ?t" "sh_failures s = sh_failures ?t"
      using ok by (simp_all add: sh_content_def sh_failures_def)
    show ?thesis
    proof (cases "length (buffer ?t) < bufsize s")
      case False
      have "sh_law s (if initial ?t \<le> length (buffer ?t) then pick_from draw ?t else shuffle_next draw ?t)"
        using ok lt c by (intro emit) simp_all
      then show ?thesis using ok False by (simp add: un Let_def)
    next
      case True
      consider (e) e rest' where "rest = Inl e # rest'" | (y) y rest' where "rest = Inr y # rest'" | (n) "rest = []"
        by (metis neq_Nil_conv old.sum.exhaust)
      then show ?thesis
      proof cases
        case e
        then show ?thesis using ok True inv
          by (simp add: un Let_def sh_law_def sh_inv_def sh_content_def sh_failures_def)
      next
        case y
        let ?u = "s\<lparr>sh_source := rest', buffer := buffer s @ [x, y]\<rparr>"
        have "sh_law s (if initial ?u \<le> length (buffer ?u) then pick_from draw ?u else shuffle_next draw ?u)"
          using ok True y by (intro emit) (simp_all add: sh_content_def sh_failures_def)
        then show ?thesis using ok True y by (simp add: un Let_def)
      next
        case n
        let ?u = "s\<lparr>sh_source := [], buffer := buffer s @ [x], drained := True\<rparr>"
        have "sh_law s (if initial ?u \<le> length (buffer ?u) then pick_from draw ?u else shuffle_next draw ?u)"
          using ok True n by (intro emit) (simp_all add: sh_content_def sh_failures_def)
        then show ?thesis using ok True n by (simp add: un Let_def)
      qed
    qed
  qed
qed

text \<open>Any generator: an index out of range is brought back into it, so the laws hold of every
  function; for one that stays in range this is the function itself.\<close>

definition in_range :: "(nat \<Rightarrow> 'g \<Rightarrow> nat \<times> 'g) \<Rightarrow> nat \<Rightarrow> 'g \<Rightarrow> nat \<times> 'g" where
  "in_range draw n g = (case draw n g of (i, g') \<Rightarrow> (i mod n, g'))"

lemma in_range_draws: "draws (in_range draw)"
  by (auto simp: draws_def in_range_def split: prod.split)

lemma shuffle_conserving:
  assumes "draws draw"
  shows "conserving (shuffle_next draw) sh_content sh_failures sh_inv"
proof
  show "sh_inv s'" if "sh_inv s" "shuffle_next draw s = (r, s')" for s r s'
    using shuffle_law [OF assms that(1)] that(2)
    by (auto simp: sh_law_def split: option.splits sum.splits)
qed (use shuffle_law [OF assms] in \<open>force simp: sh_law_def\<close>)+

interpretation shuffling: conserving "shuffle_next (in_range draw)" sh_content sh_failures sh_inv for draw
  by (rule shuffle_conserving [OF in_range_draws])

section \<open>Grouping\<close>

text \<open>The items of a stream cut into groups of \<open>n\<close>, the last one possibly shorter.\<close>

function chunks :: "nat \<Rightarrow> 'a list \<Rightarrow> 'a list list" where
  "chunks n xs = (if n = 0 \<or> xs = [] then [] else take n xs # chunks n (drop n xs))"
  by pat_completeness auto
termination by (relation "measure (\<lambda>(n, xs). length xs)") auto

declare chunks.simps [simp del]

lemma concat_chunks: "0 < n \<Longrightarrow> concat (chunks n xs) = xs"
  by (induction n xs rule: chunks.induct) (subst chunks.simps, simp)

lemma fill_group_oks:
  "length items \<le> n \<Longrightarrow>
   fill_group n items (map Inr xs) =
     (Inr (items @ take (n - length items) xs), map Inr (drop (n - length items) xs))"
proof (induction xs arbitrary: items)
  case (Cons x xs)
  show ?case
  proof (cases "length items < n")
    case True
    then have "n - length items = Suc (n - length (items @ [x]))" by simp
    then show ?thesis using Cons True by simp
  next
    case False
    then show ?thesis using Cons.prems by simp
  qed
qed simp

lemma yields_listed:
  assumes "0 < n"
  shows "yields listed_next \<lparr>ls_source = map Inr xs, ls_size = n, ls_partial = part\<rparr>
    (map Inr (filter (\<lambda>c. part \<or> length c = n) (chunks n xs)))"
  using assms
proof (induction n xs rule: chunks.induct)
  case (1 n xs)
  show ?case
  proof (cases "xs = []")
    case True
    then show ?thesis
      by (auto intro!: yields.stop simp: chunks.simps [of n] listed_next_def)
  next
    case False
    note step = listed_next_def fill_group_oks [of "[]" n xs, simplified]
    show ?thesis
    proof (cases "part \<or> n \<le> length xs")
      case True
      have "listed_next \<lparr>ls_source = map Inr xs, ls_size = n, ls_partial = part\<rparr> =
          (Some (Inr (take n xs)), \<lparr>ls_source = map Inr (drop n xs), ls_size = n, ls_partial = part\<rparr>)"
        using False True 1(2) by (auto simp: step)
      then show ?thesis using 1 False True
        by (subst chunks.simps) (auto intro!: yields.item simp: min_def)
    next
      case short: False
      have "listed_next \<lparr>ls_source = map Inr xs, ls_size = n, ls_partial = part\<rparr> =
          (None, \<lparr>ls_source = [], ls_size = n, ls_partial = part\<rparr>)"
        using False short 1(2) by (auto simp: step)
      moreover have "filter (\<lambda>c. part \<or> length c = n) (chunks n xs) = []"
        using False short by (subst chunks.simps) (simp add: chunks.simps [of n "[]"])
      ultimately show ?thesis by (auto intro: yields.stop)
    qed
  qed
qed

lemma fill_group_error:
  "length items + length xs < n \<Longrightarrow> fill_group n items (map Inr xs @ Inl e # ys) = (Inl e, ys)"
  by (induction xs arbitrary: items) simp_all

section \<open>Batches and back\<close>

lemma yields_batched:
  "yields listed_next s xs \<Longrightarrow>
   yields batched_next s (map (\<lambda>x. case x of Inl e \<Rightarrow> Inl e | Inr g \<Rightarrow> collate_samples g) xs)"
proof (induction rule: yields.induct)
  case (stop s s')
  then show ?case by (auto intro: yields.stop simp: batched_next_def)
next
  case (item s x s' xs)
  then show ?case by (auto intro!: yields.item simp: batched_next_def split: sum.split)
qed

lemma yields_unbatched_pending:
  "yields unbatched_next (src, []) ys \<Longrightarrow> yields unbatched_next (src, ss) (map Inr ss @ ys)"
  by (induction ss) (auto intro: yields.item simp: unbatched_next_def)

lemma yields_unbatched:
  "list_all2 (\<lambda>b c. uncollate_sample b = Inr c \<and> c \<noteq> []) bs cs \<Longrightarrow>
   yields unbatched_next (map Inr bs, []) (map Inr (concat cs))"
proof (induction rule: list_all2_induct)
  case Nil
  have "unbatched_next ([], []) = (None, [], [])" by (simp add: unbatched_next_def)
  then show ?case by (auto intro: yields.stop)
next
  case (Cons b bs c cs)
  obtain s ss where c: "c = s # ss" using Cons.hyps(1) by (cases c) auto
  have "unbatched_next (map Inr (b # bs), []) = (Some (Inr s), map Inr bs, ss)"
    using Cons.hyps(1) c by (simp add: unbatched_next_def)
  from yields.item [OF this yields_unbatched_pending [OF Cons.IH]] show ?case by (simp add: c)
qed

lemma chunks_nonempty: "c \<in> set (chunks n xs) \<Longrightarrow> c \<noteq> [] \<and> set c \<subseteq> set xs"
proof (induction n xs rule: chunks.induct)
  case (1 n xs)
  show ?case
  proof (cases "n = 0 \<or> xs = []")
    case True
    then show ?thesis using 1(2) by (simp add: chunks.simps [of n])
  next
    case False
    then have "c = take n xs \<or> c \<in> set (chunks n (drop n xs))"
      using 1(2) by (simp add: chunks.simps [of n xs])
    then show ?thesis using 1(1) False set_take_subset [of n xs] set_drop_subset [of n xs] by auto
  qed
qed

section \<open>Properties\<close>

text \<open>C27: the shuffle buffer is a permutation: whatever the stream, the buffer size, the warm-up and the
  random draws, the shuffled stream ends and holds exactly the samples and the errors of its source, no
  sample lost or repeated, also those in the buffer when an error passes through.\<close>
theorem shuffle_conserves:
  assumes "draws draw"
  shows "\<exists>xs. yields (shuffle_next draw) (shuffle_new src n init g) xs \<and>
    mset (rights xs) = mset (rights src) \<and> mset (lefts xs) = mset (lefts src)"
proof -
  let ?s = "shuffle_new src n init g"
  have inv: "sh_inv ?s" by (auto simp: sh_inv_def shuffle_new_def Let_def)
  have c: "sh_content ?s = mset (rights src)" "sh_failures ?s = mset (lefts src)"
    by (simp_all add: sh_content_def sh_failures_def shuffle_new_def Let_def)
  note laws = shuffle_conserving [OF assms]
  obtain xs where "yields (shuffle_next draw) ?s xs"
    using conserving.finite_total [OF laws inv] by blast
  then show ?thesis using conserving.yields_content [OF laws _ inv] c by metis
qed

theorem shuffle_conserves_witness:
  "\<exists>xs. yields (shuffle_next (\<lambda>n g. (g mod n, Suc g)))
      (shuffle_new [Inr (5 :: nat), Inr 6, Inl (Format ''x''), Inr 7] 2 3 0) xs \<and>
    mset (rights xs) = mset [5, 6, 7] \<and> mset (lefts xs) = mset [Format ''x'']"
  using shuffle_conserves [of "\<lambda>n g. (g mod n, Suc g)" "[Inr (5 :: nat), Inr 6, Inl (Format ''x''), Inr 7]" 2 3 0]
  by (simp add: draws_def)



text \<open>An error in the stream costs the samples grouped before it: a group that is not yet full when
  an upstream error arrives is dropped, and only the error is delivered.\<close>
theorem listed_error_drops_group:
  assumes "length xs < n"
  shows "listed_next (listed (map Inr xs @ Inl e # ys) n part) =
    (Some (Inl e), listed ys n part)"
proof -
  have "max n 1 = n" using assms by simp
  then show ?thesis using assms fill_group_error [of "[]" xs n e ys]
    by (simp add: listed_next_def listed_def)
qed

theorem listed_error_drops_group_witness:
  "listed_next (listed [Inr (5 :: nat), Inr 6, Inl (Format ''x''), Inr 7] 4 True) =
    (Some (Inl (Format ''x'')), listed [Inr 7] 4 True)"
  using listed_error_drops_group [of "[5 :: nat, 6]" 4 "Format ''x''" "[Inr 7]" True] by simp

end
