(* ===== verification/Mixing.thy ===== *)
theory Mixing
  imports Complex_Main Iterators
begin

text \<open>
  \<^verbatim>\<open>webdataset/src/mix.rs\<close>: one stream out of several.  The datasets are the items
  each has still to give.  Weights and the uniform draw are rational numbers: the
  rounding of \<^verbatim>\<open>f64\<close> sums is not modelled.
\<close>

definition remove_at :: "nat \<Rightarrow> 'a list \<Rightarrow> 'a list" where
  "remove_at i xs = take i xs @ drop (Suc i) xs"

lemma length_remove_at: "i < length xs \<Longrightarrow> length (remove_at i xs) < length xs"
  by (simp add: remove_at_def)

section \<open>Taking turns\<close>

type_synonym 'a round_robin = "'a res list list \<times> nat"

function round_robin_next :: "bool \<Rightarrow> 'a round_robin \<Rightarrow> 'a res option \<times> 'a round_robin" where
  "round_robin_next longest (sources, turn) =
     (if sources = [] then (None, (sources, turn))
      else
        (let i = turn mod length sources in
         case sources ! i of
           x # rest \<Rightarrow> (Some x, (sources[i := rest], Suc i))
         | [] \<Rightarrow>
             if longest then round_robin_next longest (remove_at i sources, i)
             else (None, (sources, i))))"
  by pat_completeness auto
termination
  by (relation "measure (\<lambda>(longest, sources, turn). length sources)") (auto intro: length_remove_at)

declare round_robin_next.simps [simp del]

section \<open>Drawing at random\<close>

fun choice_loop :: "rat \<Rightarrow> rat \<Rightarrow> nat \<Rightarrow> rat list \<Rightarrow> rat \<Rightarrow> nat option" where
  "choice_loop tot cumulative i [] u = None"
| "choice_loop tot cumulative i (w # ws) u =
     (let cumulative = cumulative + w / tot in
      if u < cumulative then Some i else choice_loop tot cumulative (Suc i) ws u)"

definition weighted_choice :: "rat list \<Rightarrow> rat \<Rightarrow> nat" where
  "weighted_choice ws u =
     (case choice_loop (sum_list ws) 0 0 ws u of Some i \<Rightarrow> i | None \<Rightarrow> length ws - 1)"

definition with_weights :: "nat \<Rightarrow> rat list \<Rightarrow> rat list res" where
  "with_weights n ws =
     (if length ws \<noteq> n then Inl (Value ''wrong number of weights'')
      else if list_ex (\<lambda>w. w < 0) ws \<or> sum_list ws \<le> 0
      then Inl (Value ''weights must be non-negative and not all zero'')
      else Inr ws)"

record ('a, 'g) random_mix =
  mx_sources :: "'a res list list"
  mx_weights :: "rat list"
  mx_rng :: 'g

function random_mix_next ::
  "('g \<Rightarrow> rat \<times> 'g) \<Rightarrow> bool \<Rightarrow> ('a, 'g) random_mix \<Rightarrow> 'a res option \<times> ('a, 'g) random_mix" where
  "random_mix_next uniform longest s =
     (if mx_sources s = [] then (None, s)
      else
        (case uniform (mx_rng s) of
           (u, g) \<Rightarrow>
             (let i = weighted_choice (mx_weights s) u; s = s\<lparr>mx_rng := g\<rparr> in
              if length (mx_sources s) \<le> i then (Some (Inl (Panic ''index out of bounds'')), s)
              else
                (case mx_sources s ! i of
                   x # rest \<Rightarrow> (Some x, s\<lparr>mx_sources := (mx_sources s)[i := rest]\<rparr>)
                 | [] \<Rightarrow>
                     if longest then
                       (let s = s\<lparr>mx_sources := remove_at i (mx_sources s),
                                 mx_weights := remove_at i (mx_weights s)\<rparr> in
                        if sum_list (mx_weights s) \<le> 0 then (None, s)
                        else random_mix_next uniform longest s)
                     else (None, s)))))"
  by pat_completeness auto
termination
  by (relation "measure (\<lambda>(uniform, longest, s). length (mx_sources s))")
     (auto simp: not_le intro: length_remove_at)

declare random_mix_next.simps [simp del]

text \<open>The stages.  The datasets are given as the items of their epoch.\<close>

record 'a round_robin_stage =
  rr_datasets :: "'a res list list"
  rr_longest :: bool

definition round_robin_new :: "'a res list list \<Rightarrow> 'a round_robin_stage" where
  "round_robin_new ds = \<lparr>rr_datasets = ds, rr_longest = False\<rparr>"

definition round_robin_longest :: "'a round_robin_stage \<Rightarrow> 'a round_robin_stage" where
  "round_robin_longest s = s\<lparr>rr_longest := True\<rparr>"

record 'a random_mix_stage =
  mi_datasets :: "'a res list list"
  mi_weights :: "rat list"
  mi_longest :: bool
  mi_seed :: "64 word option"

definition random_mix_new :: "'a res list list \<Rightarrow> 'a random_mix_stage" where
  "random_mix_new ds =
     \<lparr>mi_datasets = ds, mi_weights = replicate (length ds) 1, mi_longest = False, mi_seed = None\<rparr>"

definition random_mix_weights :: "rat list \<Rightarrow> 'a random_mix_stage \<Rightarrow> 'a random_mix_stage res" where
  "random_mix_weights ws s = map_res (\<lambda>ws. s\<lparr>mi_weights := ws\<rparr>) (with_weights (length (mi_datasets s)) ws)"

definition random_mix_longest :: "'a random_mix_stage \<Rightarrow> 'a random_mix_stage" where
  "random_mix_longest s = s\<lparr>mi_longest := True\<rparr>"

definition random_mix_seed :: "64 word \<Rightarrow> 'a random_mix_stage \<Rightarrow> 'a random_mix_stage" where
  "random_mix_seed n s = s\<lparr>mi_seed := Some n\<rparr>"

text \<open>What the stream of an epoch starts from.\<close>

definition round_robin_start :: "'a round_robin_stage \<Rightarrow> 'a round_robin" where
  "round_robin_start s = (rr_datasets s, 0)"

definition random_mix_start ::
  "(64 word \<Rightarrow> 'g) \<Rightarrow> 'g \<Rightarrow> 'a random_mix_stage \<Rightarrow> ('a, 'g) random_mix" where
  "random_mix_start seeded fresh s =
     \<lparr>mx_sources = mi_datasets s, mx_weights = mi_weights s,
      mx_rng = (case mi_seed s of Some n \<Rightarrow> seeded n | None \<Rightarrow> fresh)\<rparr>"

section \<open>Turns are the columns\<close>

definition next_row :: "'a list list \<Rightarrow> 'a list" where
  "next_row xss = map hd (filter ((\<noteq>) []) xss)"

definition tails :: "'a list list \<Rightarrow> 'a list list" where
  "tails xss = map tl (filter ((\<noteq>) []) xss)"

lemma transpose_rows:
  "concat (transpose xss) = next_row xss @ concat (transpose (tails xss))"
proof (induction xss rule: transpose.induct)
  case (3 x xs xss)
  have 1: "concat (map (\<lambda>a. case a of [] \<Rightarrow> [] | h # t \<Rightarrow> [h]) xss) = next_row xss"
    by (induction xss) (auto simp: next_row_def split: list.split)
  have 2: "concat (map (\<lambda>a. case a of [] \<Rightarrow> [] | h # t \<Rightarrow> [t]) xss) = tails xss"
    by (induction xss) (auto simp: tails_def split: list.split)
  have 3: "next_row ((x # xs) # xss) = x # next_row xss" "tails ((x # xs) # xss) = xs # tails xss"
    by (simp_all add: next_row_def tails_def)
  show ?case unfolding transpose.simps 1 2 3 by simp
qed (simp_all add: next_row_def tails_def)

lemma yields_round:
  "yields (round_robin_next True) (pre @ todo, length pre)
     (next_row todo @ concat (transpose (pre @ tails todo)))"
proof (induction "2 * length (concat (pre @ todo)) + 2 * length (pre @ todo) + (if todo = [] then 1 else 0)"
    arbitrary: pre todo rule: less_induct)
  case less
  show ?case
  proof (cases todo)
    case Nil
    show ?thesis
    proof (cases "pre = []")
      case True
      then show ?thesis using Nil
        by (auto intro!: yields.stop simp: round_robin_next.simps next_row_def tails_def)
    next
      case False
      have "round_robin_next True (pre @ [], length pre) = round_robin_next True ([] @ pre, length ([] :: 'a res list list))"
        using False by (simp add: round_robin_next.simps)
      moreover have "yields (round_robin_next True) ([] @ pre, length ([] :: 'a res list list))
          (next_row pre @ concat (transpose ([] @ tails pre)))"
        using False Nil by (intro less) simp
      ultimately show ?thesis
        using yields_same_next Nil transpose_rows [of pre] by (simp add: next_row_def tails_def)
    qed
  next
    case (Cons xs todo')
    show ?thesis
    proof (cases xs)
      case Nil
      have "round_robin_next True (pre @ todo, length pre) = round_robin_next True (pre @ todo', length pre)"
        using Cons Nil by (subst round_robin_next.simps) (simp add: nth_append remove_at_def)
      moreover have "yields (round_robin_next True) (pre @ todo', length pre)
          (next_row todo' @ concat (transpose (pre @ tails todo')))"
        using Cons by (intro less) simp
      ultimately show ?thesis
        using yields_same_next Cons Nil by (simp add: next_row_def tails_def)
    next
      case (Cons x rest)
      have "round_robin_next True (pre @ todo, length pre) =
          (Some x, (pre @ [rest]) @ todo', length (pre @ [rest]))"
        using \<open>todo = xs # todo'\<close> Cons
        by (subst round_robin_next.simps) (simp add: nth_append list_update_append)
      moreover have "yields (round_robin_next True) ((pre @ [rest]) @ todo', length (pre @ [rest]))
          (next_row todo' @ concat (transpose ((pre @ [rest]) @ tails todo')))"
        using \<open>todo = xs # todo'\<close> Cons by (intro less) simp
      ultimately show ?thesis
        using \<open>todo = xs # todo'\<close> Cons by (auto intro!: yields.item simp: next_row_def tails_def)
    qed
  qed
qed

section \<open>Mixing until the end conserves the items\<close>

definition all_items :: "'a res list list \<Rightarrow> 'a multiset" where
  "all_items xss = mset (rights (concat xss))"

definition all_errors :: "'a res list list \<Rightarrow> error multiset" where
  "all_errors xss = mset (lefts (concat xss))"

lemma lefts_append: "lefts (xs @ ys) = lefts xs @ lefts ys"
  by (induction xs rule: lefts.induct) auto

lemma all_split:
  assumes "i < length xss"
  shows "all_items xss = mset (rights (xss ! i)) + all_items (remove_at i xss)"
    and "all_errors xss = mset (lefts (xss ! i)) + all_errors (remove_at i xss)"
proof -
  have "concat xss = concat (take i xss) @ xss ! i @ concat (drop (Suc i) xss)"
    using assms by (metis concat.simps(2) concat_append id_take_nth_drop)
  then show "all_items xss = mset (rights (xss ! i)) + all_items (remove_at i xss)"
    "all_errors xss = mset (lefts (xss ! i)) + all_errors (remove_at i xss)"
    by (simp_all add: all_items_def all_errors_def remove_at_def rights_append lefts_append)
qed

lemma remove_at_update: "remove_at i (xs[i := y]) = remove_at i xs"
  by (simp add: remove_at_def)

lemma all_update:
  assumes "i < length xss" "xss ! i = x # rest"
  shows "case x of
      Inr y \<Rightarrow> all_items xss = add_mset y (all_items (xss[i := rest])) \<and> all_errors xss = all_errors (xss[i := rest])
    | Inl e \<Rightarrow> all_items xss = all_items (xss[i := rest]) \<and> all_errors xss = add_mset e (all_errors (xss[i := rest]))"
  using assms all_split [of i xss] all_split [of i "xss[i := rest]"]
  by (cases x) (simp_all add: remove_at_update)

lemma all_remove_empty:
  "i < length xss \<Longrightarrow> xss ! i = [] \<Longrightarrow>
   all_items (remove_at i xss) = all_items xss \<and> all_errors (remove_at i xss) = all_errors xss"
  using all_split [of i xss] by simp

lemma all_none: "all_items [] = {#}" "all_errors [] = {#}"
  by (simp_all add: all_items_def all_errors_def)

text \<open>What a step has to satisfy, for any representation of the remaining datasets.\<close>

definition mix_law :: "('s \<Rightarrow> 'a res list list) \<Rightarrow> ('s \<Rightarrow> bool) \<Rightarrow> 's \<Rightarrow> 'a res option \<times> 's \<Rightarrow> bool" where
  "mix_law view ok s rs =
     (ok (snd rs) \<and>
      (case fst rs of
         None \<Rightarrow> all_items (view s) = {#} \<and> all_errors (view s) = {#}
       | Some (Inr x) \<Rightarrow>
           all_items (view s) = add_mset x (all_items (view (snd rs))) \<and>
           all_errors (view s) = all_errors (view (snd rs))
       | Some (Inl e) \<Rightarrow>
           all_items (view s) = all_items (view (snd rs)) \<and>
           all_errors (view s) = add_mset e (all_errors (view (snd rs)))))"

lemma mix_law_conserving:
  assumes "\<And>s. ok s \<Longrightarrow> mix_law view ok s (nxt s)"
  shows "conserving nxt (\<lambda>s. all_items (view s)) (\<lambda>s. all_errors (view s)) ok"
  by unfold_locales (use assms in \<open>force simp: mix_law_def\<close>)+

lemma mix_law_same:
  "all_items (view s) = all_items (view t) \<Longrightarrow> all_errors (view s) = all_errors (view t) \<Longrightarrow>
   mix_law view ok t r \<Longrightarrow> mix_law view ok s r"
  by (simp add: mix_law_def split: option.splits sum.splits)

lemma round_robin_law: "mix_law fst (\<lambda>_. True) s (round_robin_next True s)"
proof (induction "length (fst s)" arbitrary: s rule: less_induct)
  case less
  obtain sources turn where s: "s = (sources, turn)" by fastforce
  show ?case
  proof (cases "sources = []")
    case True
    then show ?thesis by (simp add: s round_robin_next.simps mix_law_def all_none)
  next
    case False
    let ?i = "turn mod length sources"
    have i: "?i < length sources" using False by simp
    show ?thesis
    proof (cases "sources ! ?i")
      case Nil
      have "mix_law fst (\<lambda>_. True) (remove_at ?i sources, ?i) (round_robin_next True (remove_at ?i sources, ?i))"
        using length_remove_at [OF i] by (intro less) (simp add: s)
      then have "mix_law fst (\<lambda>_. True) s (round_robin_next True (remove_at ?i sources, ?i))"
        by (rule mix_law_same [rotated 2]) (use all_remove_empty [OF i Nil] s in simp_all)
      then show ?thesis using False Nil by (simp add: s round_robin_next.simps [of True sources] Let_def)
    next
      case (Cons x rest)
      then show ?thesis
        using all_update [OF i Cons] False
        by (cases x) (simp_all add: s round_robin_next.simps [of True sources] mix_law_def Let_def)
    qed
  qed
qed

interpretation round_robin: conserving "round_robin_next True" "\<lambda>s. all_items (fst s)" "\<lambda>s. all_errors (fst s)" "\<lambda>_. True"
  by (rule mix_law_conserving) (rule round_robin_law)

lemma choice_loop_bound: "choice_loop tot c i ws u = Some k \<Longrightarrow> i \<le> k \<and> k < i + length ws"
proof (induction tot c i ws u rule: choice_loop.induct)
  case (2 tot c i w ws u)
  then show ?case by (auto simp: Let_def split: if_splits)
qed simp

lemma weighted_choice_bound: "ws \<noteq> [] \<Longrightarrow> weighted_choice ws u < length ws"
  using choice_loop_bound [of "sum_list ws" 0 0 ws u]
  by (auto simp: weighted_choice_def split: option.split)

definition mx_ok :: "('a, 'g) random_mix \<Rightarrow> bool" where
  "mx_ok s = (length (mx_weights s) = length (mx_sources s) \<and> list_all (\<lambda>w. 0 < w) (mx_weights s))"

lemma list_all_remove_at: "list_all P xs \<Longrightarrow> list_all P (remove_at i xs)"
  by (auto simp: remove_at_def list_all_iff dest: in_set_takeD in_set_dropD)

lemma sum_list_pos: "list_all (\<lambda>w. 0 < w) ws \<Longrightarrow> ws \<noteq> [] \<Longrightarrow> 0 < sum_list (ws :: rat list)"
proof (induction ws)
  case (Cons w ws)
  then show ?case by (cases "ws = []") auto
qed simp

lemma random_mix_law: "mx_ok s \<Longrightarrow> mix_law mx_sources mx_ok s (random_mix_next uniform True s)"
proof (induction "length (mx_sources s)" arbitrary: s rule: less_induct)
  case less
  note ok = less.prems
  note un = random_mix_next.simps [of uniform True s]
  show ?case
  proof (cases "mx_sources s = []")
    case True
    then show ?thesis using ok by (simp add: un mix_law_def all_none)
  next
    case False
    obtain u g where u: "uniform (mx_rng s) = (u, g)" by fastforce
    let ?i = "weighted_choice (mx_weights s) u"
    have "mx_weights s \<noteq> []" using ok False by (auto simp: mx_ok_def)
    then have i: "?i < length (mx_sources s)" using weighted_choice_bound [of "mx_weights s" u] ok
      by (simp add: mx_ok_def)
    show ?thesis
    proof (cases "mx_sources s ! ?i")
      case (Cons x rest)
      then show ?thesis
        using all_update [OF i Cons] False u i ok
        by (cases x) (simp_all add: un mix_law_def mx_ok_def Let_def)
    next
      case Nil
      let ?t = "s\<lparr>mx_rng := g, mx_sources := remove_at ?i (mx_sources s), mx_weights := remove_at ?i (mx_weights s)\<rparr>"
      have t: "mx_ok ?t" using ok i by (simp add: mx_ok_def list_all_remove_at) (simp add: remove_at_def)
      have same: "all_items (mx_sources s) = all_items (mx_sources ?t)"
        "all_errors (mx_sources s) = all_errors (mx_sources ?t)"
        using all_remove_empty [OF i Nil] by simp_all
      have step: "random_mix_next uniform True s =
          (if sum_list (mx_weights ?t) \<le> 0 then (None, ?t) else random_mix_next uniform True ?t)"
        using False u i Nil by (simp add: un Let_def)
      show ?thesis
      proof (cases "sum_list (mx_weights ?t) \<le> 0")
        case True
        then have "mx_weights ?t = []" using t sum_list_pos [of "mx_weights ?t"] by (auto simp: mx_ok_def)
        then have "mx_sources ?t = []" using t unfolding mx_ok_def by (metis length_0_conv)
        then show ?thesis using step True t same by (simp add: mix_law_def all_none)
      next
        case neg: False
        have "mix_law mx_sources mx_ok ?t (random_mix_next uniform True ?t)"
          using t length_remove_at [OF i] by (intro less.hyps) simp_all
        then have "mix_law mx_sources mx_ok s (random_mix_next uniform True ?t)"
          by (rule mix_law_same [rotated 2]) (use same in simp_all)
        then show ?thesis using step neg by simp
      qed
    qed
  qed
qed

interpretation random_mix: conserving "random_mix_next uniform True"
    "\<lambda>s. all_items (mx_sources s)" "\<lambda>s. all_errors (mx_sources s)" mx_ok for uniform
  by (rule mix_law_conserving) (rule random_mix_law)

section \<open>Properties\<close>

text \<open>Taking turns until every dataset has run out delivers the first item of each dataset, then the
  second of each that has one, and so on: the concatenated columns of the datasets, each item exactly
  once and each dataset in its own order.\<close>
theorem round_robin_columns:
  "yields (round_robin_next True) (sources, 0) (concat (transpose sources)) \<and>
   mset (rights (concat (transpose sources))) = mset (rights (concat sources))"
proof -
  have y: "yields (round_robin_next True) (sources, 0) (concat (transpose sources))"
    using yields_round [of "[]" sources] transpose_rows [of sources] by simp
  then show ?thesis using round_robin.yields_content [OF y] by (simp add: all_items_def)
qed

text \<open>A random mixture that runs until every dataset is exhausted loses nothing, whatever the
  positive weights and the draws.\<close>
theorem random_mix_conserves:
  assumes "length ws = length sources" and "list_all (\<lambda>w. 0 < w) ws"
  shows "\<exists>xs. yields (random_mix_next uniform True) \<lparr>mx_sources = sources, mx_weights = ws, mx_rng = g\<rparr> xs \<and>
    mset (rights xs) = mset (rights (concat sources)) \<and> mset (lefts xs) = mset (lefts (concat sources))"
proof -
  let ?s = "\<lparr>mx_sources = sources, mx_weights = ws, mx_rng = g\<rparr>"
  have ok: "mx_ok ?s" using assms by (simp add: mx_ok_def)
  then obtain xs where y: "yields (random_mix_next uniform True) ?s xs"
    using random_mix.finite_total by blast
  then show ?thesis using random_mix.yields_content [OF y ok] by (auto simp: all_items_def all_errors_def)
qed

theorem random_mix_conserves_witness:
  "\<exists>xs. yields (random_mix_next (\<lambda>n. (1 / 2, Suc n)) True)
      \<lparr>mx_sources = [[Inr (5 :: nat), Inl (Format ''x'')], [Inr 6]], mx_weights = [9, 1], mx_rng = 0\<rparr> xs \<and>
    mset (rights xs) = mset [5, 6] \<and> mset (lefts xs) = mset [Format ''x'']"
  using random_mix_conserves [of "[9, 1]" "[[Inr (5 :: nat), Inl (Format ''x'')], [Inr 6]]"
      "\<lambda>n. (1 / 2, Suc n)" 0] by simp

end
