(* ===== verification/Urls.thy ===== *)
theory Urls
  imports Brace Texts
begin

text \<open>
  \<^verbatim>\<open>webdataset-io/src/url.rs\<close>: the scheme, path and base name of a shard URL, and
  percent escapes.  Positions are byte positions, as in the source; the characters
  searched for are ASCII.
\<close>

definition is_ascii_alphanumeric :: "char \<Rightarrow> bool" where
  "is_ascii_alphanumeric c = (is_ascii_alphabetic c \<or> is_ascii_digit c)"

definition scheme_char :: "char \<Rightarrow> bool" where
  "scheme_char c = (is_ascii_alphanumeric c \<or> c = CHR ''+'' \<or> c = CHR ''-'' \<or> c = CHR ''.'')"

definition scheme :: "string \<Rightarrow> string option" where
  "scheme url =
     (case find_idx ((=) CHR '':'') url of
        None \<Rightarrow> None
      | Some colon \<Rightarrow>
          (case take colon url of
             [] \<Rightarrow> None
           | c # cs \<Rightarrow>
               if \<not> is_ascii_alphabetic c then None
               else if \<not> list_all scheme_char cs then None
               else Some (c # cs)))"

definition url_path :: "string \<Rightarrow> string" where
  "url_path url =
     (let rest = (case scheme url of Some s \<Rightarrow> drop (length s + 1) url | None \<Rightarrow> url);
          rest = (case strip_prefix ''//'' rest of
                    Some after_slashes \<Rightarrow>
                      (case find_idx ((=) CHR ''/'') after_slashes of
                         Some i \<Rightarrow> drop i after_slashes
                       | None \<Rightarrow> [])
                  | None \<Rightarrow> rest);
          rest = hd (split_on ''#'' rest)
      in hd (split_on ''?'' rest))"

text \<open>\<^verbatim>\<open>u8::from_str_radix(h, 16)\<close> of a two-byte slice that is UTF-8.\<close>
definition hex_byte :: "bytes \<Rightarrow> byte option" where
  "hex_byte h =
     (case from_utf8 h of
        Inl _ \<Rightarrow> None
      | Inr s \<Rightarrow> map_option of_nat (parse_uint 8 16 s))"

fun percent_loop :: "bytes \<Rightarrow> bytes" where
  "percent_loop [] = []"
| "percent_loop (b # r) =
     (case r of
        h # l # r' \<Rightarrow>
          (if b = 0x25 then
             (case hex_byte [h, l] of
                Some v \<Rightarrow> v # percent_loop r'
              | None \<Rightarrow> b # percent_loop r)
           else b # percent_loop r)
      | _ \<Rightarrow> b # percent_loop r)"

text \<open>
  \<^verbatim>\<open>String::from_utf8_lossy\<close>: every maximal malformed subsequence becomes one
  replacement character.  How long that subsequence is, for a malformed head.
\<close>
definition bad_len :: "bytes \<Rightarrow> nat" where
  "bad_len bs =
     (case bs of
        [] \<Rightarrow> 0
      | b # r \<Rightarrow>
          (let second = (case r of [] \<Rightarrow> False | c # _ \<Rightarrow>
                 if b = 0xE0 then 0xA0 \<le> c \<and> c \<le> 0xBF
                 else if b = 0xED then 0x80 \<le> c \<and> c \<le> 0x9F
                 else if b = 0xF0 then 0x90 \<le> c \<and> c \<le> 0xBF
                 else if b = 0xF4 then 0x80 \<le> c \<and> c \<le> 0x8F
                 else 0xE1 \<le> b \<and> b \<le> 0xF3 \<and> cont_byte c);
               third = (case r of _ # d # _ \<Rightarrow> 0xF0 \<le> b \<and> cont_byte d | _ \<Rightarrow> False)
           in if second \<and> third then 3 else if second then 2 else 1))"

definition replacement :: string where
  "replacement = [CHR 0xEF, CHR 0xBF, CHR 0xBD]"

function from_utf8_lossy :: "bytes \<Rightarrow> string" where
  "from_utf8_lossy bs =
     (if bs = [] then []
      else case utf8_head bs of
             Some n \<Rightarrow> of_bytes (take n bs) @ from_utf8_lossy (drop n bs)
           | None \<Rightarrow> replacement @ from_utf8_lossy (drop (max 1 (bad_len bs)) bs))"
  by pat_completeness auto
termination
  by (relation "measure length") (auto dest: utf8_head_pos)

declare from_utf8_lossy.simps [simp del]

definition percent_decode :: "string \<Rightarrow> string" where
  "percent_decode text =
     (if CHR ''%'' \<notin> set text then text else from_utf8_lossy (percent_loop (as_bytes text)))"

definition hex_upper :: "nat \<Rightarrow> char" where
  "hex_upper d = char_of (if d < 10 then 48 + d else 55 + d)"

text \<open>A byte read as the Latin-1 character of its number, as \<^verbatim>\<open>byte as char\<close> does.\<close>
definition percent_char :: "string \<Rightarrow> char \<Rightarrow> string" where
  "percent_char safe b =
     (let c = utf8_encode (of_char b)
      in if is_ascii_alphanumeric b \<or> contains_sub c safe then c
         else [CHR ''%'', hex_upper (of_char b div 16), hex_upper (of_char b mod 16)])"

definition percent_encode :: "string \<Rightarrow> string \<Rightarrow> string" where
  "percent_encode text safe = concat (map (percent_char safe) text)"

definition to_local_path :: "string \<Rightarrow> string" where
  "to_local_path url =
     percent_decode (if scheme url = Some ''file'' then url_path url else url)"

definition is_local :: "string \<Rightarrow> bool" where
  "is_local url = (scheme url = None \<or> scheme url = Some ''file'')"

definition url_basename :: "string \<Rightarrow> string" where
  "url_basename url =
     (let p = url_path url
      in case rfind_idx ((=) CHR ''/'') p of Some i \<Rightarrow> drop (i + 1) p | None \<Rightarrow> p)"

section \<open>Escapes\<close>

lemma from_utf8_lossy_valid: "utf8_error off bs = None \<Longrightarrow> from_utf8_lossy bs = of_bytes bs"
proof (induction off bs rule: utf8_error.induct)
  case (1 off bs)
  show ?case
  proof (cases "bs = []")
    case False
    from 1(2) False obtain n where n: "utf8_head bs = Some n" "utf8_error (off + n) (drop n bs) = None"
      by (subst (asm) utf8_error.simps) (auto split: option.splits)
    then have "from_utf8_lossy (drop n bs) = of_bytes (drop n bs)" using 1(1) False by blast
    then show ?thesis
      using False n(1) append_take_drop_id [of n bs]
      by (subst from_utf8_lossy.simps) (simp add: of_bytes_def flip: map_append)
  qed (simp add: from_utf8_lossy.simps of_bytes_def)
qed

lemma percent_loop_plain: "b \<noteq> 0x25 \<Longrightarrow> percent_loop (b # r) = b # percent_loop r"
  by (cases r rule: list.exhaust [case_names Nil Cons]; cases "tl r") auto

lemma percent_loop_escape: "hex_byte [h, l] = Some v \<Longrightarrow> percent_loop (0x25 # h # l # r) = v # percent_loop r"
  by simp

lemma percent_loop_none: "0x25 \<notin> set bs \<Longrightarrow> percent_loop bs = bs"
  by (induction bs) (auto simp: percent_loop_plain simp del: percent_loop.simps(2))

lemma of_char_hex_upper:
  "d < 16 \<Longrightarrow> (of_char (hex_upper d) :: nat) = (if d < 10 then 48 + d else 55 + d)"
  by (simp add: hex_upper_def)

lemma to_digit_hex_upper: "d < 16 \<Longrightarrow> to_digit 16 (hex_upper d) = Some d"
  by (auto simp: to_digit_def of_char_hex_upper Let_def)

lemma hex_upper_not_plus: "d < 16 \<Longrightarrow> hex_upper d \<noteq> CHR ''+''"
  using of_char_hex_upper [of d] by (auto split: if_splits)

lemma hex_byte_upper:
  assumes "n < 256"
  shows "hex_byte (as_bytes [hex_upper (n div 16), hex_upper (n mod 16)]) = Some (of_nat n)"
proof -
  have d: "n div 16 < 16" "n mod 16 < 16" using assms by auto
  have "from_utf8 (as_bytes [hex_upper (n div 16), hex_upper (n mod 16)]) =
      Inr [hex_upper (n div 16), hex_upper (n mod 16)]"
    by (rule from_utf8_ascii) (use d in \<open>auto simp: of_char_hex_upper\<close>)
  moreover have "parse_uint 8 16 [hex_upper (n div 16), hex_upper (n mod 16)] = Some n"
    using d assms hex_upper_not_plus [OF d(1)]
    by (simp add: parse_uint_def parse_digits_def to_digit_hex_upper)
  ultimately show ?thesis by (simp add: hex_byte_def)
qed

text \<open>What may stay as it is: ASCII characters, but not the escape character itself.\<close>

definition safe_ok :: "string \<Rightarrow> bool" where
  "safe_ok safe = list_all (\<lambda>c. (of_char c :: nat) < 128 \<and> c \<noteq> CHR ''%'') safe"

lemma utf8_encode_head:
  "n < 256 \<Longrightarrow> utf8_encode n \<noteq> [] \<and> (128 \<le> n \<longrightarrow> (128 :: nat) \<le> of_char (hd (utf8_encode n)))"
  by (auto simp: utf8_encode_def)

lemma percent_char_cases:
  assumes "safe_ok safe"
  shows "percent_char safe b = [b] \<and> b \<noteq> CHR ''%'' \<or>
    percent_char safe b = [CHR ''%'', hex_upper (of_char b div 16), hex_upper (of_char b mod 16)]"
proof (cases "is_ascii_alphanumeric b \<or> contains_sub (utf8_encode (of_char b)) safe")
  case True
  have lt: "(of_char b :: nat) < 128"
  proof (cases "is_ascii_alphanumeric b")
    case True
    then show ?thesis
      by (auto simp: is_ascii_alphanumeric_def is_ascii_alphabetic_def is_ascii_digit_def Let_def)
  next
    case False
    then have "sublist (utf8_encode (of_char b)) safe" using True by (simp add: contains_sub_sublist)
    then have "set (utf8_encode (of_char b)) \<subseteq> set safe" by (rule set_mono_sublist)
    then have "hd (utf8_encode (of_char b)) \<in> set safe"
      using utf8_encode_head [of "of_char b"] by (auto intro: hd_in_set)
    then have "(of_char (hd (utf8_encode (of_char b))) :: nat) < 128"
      using assms by (auto simp: safe_ok_def list_all_iff)
    then show ?thesis using utf8_encode_head [of "of_char b"] by auto
  qed
  then have enc: "utf8_encode (of_char b) = [b]" by (simp add: utf8_encode_def)
  have "b \<noteq> CHR ''%''"
  proof
    assume b: "b = CHR ''%''"
    then have "\<not> is_ascii_alphanumeric b" by (simp add: is_ascii_alphanumeric_def is_ascii_alphabetic_def is_ascii_digit_def)
    then have "b \<in> set safe" using True enc by (auto simp: contains_sub_sublist dest: set_mono_sublist)
    then show False using assms b by (auto simp: safe_ok_def list_all_iff)
  qed
  then show ?thesis using True enc by (simp add: percent_char_def Let_def)
qed (simp add: percent_char_def Let_def)

lemma of_char_percent: "(of_char b :: byte) = 0x25 \<longleftrightarrow> b = CHR ''%''"
proof
  assume "(of_char b :: byte) = 0x25"
  then have "(of_char b :: nat) = of_char (CHR ''%'')" using unat_of_char [of b] by simp
  then show "b = CHR ''%''" by (rule inj_onD [OF inj_of_char]) simp_all
qed simp

lemma percent_loop_char:
  assumes "safe_ok safe"
  shows "percent_loop (as_bytes (percent_char safe b) @ r) = of_char b # percent_loop r"
  using percent_char_cases [OF assms, of b]
proof
  assume b: "percent_char safe b = [b] \<and> b \<noteq> CHR ''%''"
  then have "(of_char b :: byte) \<noteq> 0x25" by (simp add: of_char_percent)
  then show ?thesis using b by (simp add: as_bytes_def percent_loop_plain del: percent_loop.simps(2))
next
  assume b: "percent_char safe b = [CHR ''%'', hex_upper (of_char b div 16), hex_upper (of_char b mod 16)]"
  have "hex_byte (as_bytes [hex_upper (of_char b div 16), hex_upper (of_char b mod 16)]) = Some (of_char b)"
    using hex_byte_upper [of "of_char b"] by (simp only: of_nat_of_char nat_of_char_less_256 simp_thms)
  then show ?thesis using b by (simp add: as_bytes_def del: percent_loop.simps add: percent_loop_escape)
qed

lemma percent_loop_encode:
  "safe_ok safe \<Longrightarrow> percent_loop (as_bytes (percent_encode t safe)) = as_bytes t"
proof (induction t)
  case (Cons b t)
  then show ?case using percent_loop_char [of safe b "as_bytes (percent_encode t safe)"]
    by (simp add: percent_encode_def) (simp add: as_bytes_def)
qed (simp add: percent_encode_def as_bytes_def)

text \<open>Percent escapes round trip: for text that is UTF-8 and a set of characters left alone that
  is ASCII and without the percent sign, decoding what was encoded gives the text back.\<close>
theorem percent_round_trip:
  assumes "from_utf8 (as_bytes t) = Inr t" and "safe_ok safe"
  shows "percent_decode (percent_encode t safe) = t"
proof -
  have valid: "utf8_error 0 (as_bytes t) = None"
    using assms(1) by (auto simp: from_utf8_def split: option.splits)
  note loop = percent_loop_encode [OF assms(2), of t]
  show ?thesis
  proof (cases "CHR ''%'' \<in> set (percent_encode t safe)")
    case False
    then have "0x25 \<notin> set (as_bytes (percent_encode t safe))"
      by (auto simp: as_bytes_def) (metis of_char_percent)
    then have "as_bytes (percent_encode t safe) = as_bytes t" using loop percent_loop_none by metis
    then have "percent_encode t safe = t" by (metis of_bytes_as_bytes)
    then show ?thesis using False by (simp add: percent_decode_def)
  qed (simp add: percent_decode_def loop from_utf8_lossy_valid [OF valid])
qed

theorem percent_round_trip_witness:
  "percent_encode ''a b/c'' ''_-'' = ''a%20b%2Fc'' \<and> percent_decode ''a%20b%2Fc'' = ''a b/c''"
proof -
  have e: "percent_encode ''a b/c'' ''_-'' = ''a%20b%2Fc''" by code_simp
  have "from_utf8 (as_bytes ''a b/c'') = Inr ''a b/c''" by (rule from_utf8_ascii) simp
  moreover have "safe_ok ''_-''" by (simp add: safe_ok_def)
  ultimately have "percent_decode (percent_encode ''a b/c'' ''_-'') = ''a b/c''" by (rule percent_round_trip)
  then show ?thesis using e by simp
qed

text \<open>Malformed escapes are said to pass through, but a sign is taken as a digit:
  \<^verbatim>\<open>u8::from_str_radix\<close> accepts it.\<close>
lemma percent_decode_accepts_sign: "percent_loop (as_bytes ''a%+5b'') = [0x61, 0x05, 0x62]"
proof -
  have "from_utf8 [0x2B, 0x35] = Inr ''+5''" using from_utf8_ascii [of "''+5''"] by (simp add: as_bytes_def)
  then have "hex_byte [0x2B, 0x35] = Some 5"
    by (simp add: hex_byte_def parse_uint_def parse_digits_def to_digit_def)
  then show ?thesis by (simp add: as_bytes_def percent_loop.simps)
qed

end
