(* ===== verification/Shards.thy ===== *)
theory Shards
  imports Filters Names
begin

text \<open>
  \<^verbatim>\<open>webdataset/src/shardlists.rs\<close>: where the shard URLs of a pipeline come from and
  how they are divided among nodes and workers.  The generator seeded with a number
  and the \<^verbatim>\<open>shuffle\<close> of the \<^verbatim>\<open>rand\<close> crate are parameters, as are glob matching,
  the clock (a list of what other processes do between two looks at the directory)
  and the process table.
\<close>

definition shard_sample :: "string \<Rightarrow> sample" where
  "shard_sample url = set_url url []"

text \<open>The expansion of the patterns, one after the other; the first failure ends it.\<close>
fun expand_all ::
  "(string \<Rightarrow> string list run) \<Rightarrow> string list \<Rightarrow> string list run" where
  "expand_all expand [] = Some (Inr [])"
| "expand_all expand (p # ps) =
     (case expand p of
        None \<Rightarrow> None
      | Some (Inl e) \<Rightarrow> Some (Inl e)
      | Some (Inr us) \<Rightarrow>
          map_option (map_res ((@) us)) (expand_all expand ps))"

section \<open>A fixed list\<close>

record simple_shard_list =
  sl_urls :: "string list"
  sl_seed :: "64 word option"
  sl_epoch :: nat

definition simple_new ::
  "(string \<Rightarrow> bool) \<Rightarrow> (string \<Rightarrow> string option) \<Rightarrow> string list \<Rightarrow> simple_shard_list run" where
  "simple_new wide env patterns =
     map_option
       (\<lambda>r. and_then r
          (\<lambda>urls. if urls = [] then Inl (Value ''shard list is empty'')
                   else Inr \<lparr>sl_urls = urls, sl_seed = None, sl_epoch = 0\<rparr>))
       (expand_all (expand_urls wide env) patterns)"

definition simple_verbatim :: "string list \<Rightarrow> simple_shard_list" where
  "simple_verbatim urls = \<lparr>sl_urls = urls, sl_seed = None, sl_epoch = 0\<rparr>"

definition simple_shuffled :: "64 word \<Rightarrow> simple_shard_list \<Rightarrow> simple_shard_list" where
  "simple_shuffled seed s = s\<lparr>sl_seed := Some seed\<rparr>"

definition simple_apply ::
  "(64 word \<Rightarrow> string list \<Rightarrow> string list) \<Rightarrow> simple_shard_list \<Rightarrow>
   sample res list \<times> simple_shard_list" where
  "simple_apply permute s =
     (case sl_seed s of
        None \<Rightarrow> (map (Inr \<circ> shard_sample) (sl_urls s), s)
      | Some seed \<Rightarrow>
          (map (Inr \<circ> shard_sample) (permute (make_seed [seed, of_nat (sl_epoch s)]) (sl_urls s)),
           s\<lparr>sl_epoch := Suc (sl_epoch s)\<rparr>))"

section \<open>Drawing with replacement\<close>

record resampled =
  rs_urls :: "string list"
  rs_count :: "nat option"
  rs_seed :: "64 word"
  rs_deterministic :: bool
  rs_epoch :: nat

definition resampled_new ::
  "(string \<Rightarrow> bool) \<Rightarrow> (string \<Rightarrow> string option) \<Rightarrow> string list \<Rightarrow> resampled run" where
  "resampled_new wide env patterns =
     map_option
       (\<lambda>r. and_then r
          (\<lambda>urls. if urls = [] then Inl (Value ''cannot resample from an empty shard list'')
                   else Inr \<lparr>rs_urls = urls, rs_count = None, rs_seed = 0,
                             rs_deterministic = False, rs_epoch = 0\<rparr>))
       (expand_all (expand_urls wide env) patterns)"

definition with_count :: "nat \<Rightarrow> resampled \<Rightarrow> resampled" where
  "with_count x s = s\<lparr>rs_count := Some x\<rparr>"

definition resampled_seed :: "64 word \<Rightarrow> resampled \<Rightarrow> resampled" where
  "resampled_seed x s = s\<lparr>rs_seed := x\<rparr>"

definition resampled_deterministic :: "bool \<Rightarrow> resampled \<Rightarrow> resampled" where
  "resampled_deterministic x s = s\<lparr>rs_deterministic := x\<rparr>"

text \<open>The generator of an epoch, from the worker, the epoch, the seed and, unless the list is
  deterministic, fresh entropy.\<close>
definition resampled_rng ::
  "(64 word \<Rightarrow> 'g) \<Rightarrow> 64 word \<Rightarrow> worker_info \<Rightarrow> resampled \<Rightarrow> 'g res" where
  "resampled_rng seeded entropy info s =
     map_res
       (\<lambda>w. seeded (make_seed ([w, of_nat (rs_epoch s), rs_seed s] @
                   (if rs_deterministic s then [] else [entropy]))))
       (worker_seed info)"

fun draw_urls :: "(nat \<Rightarrow> 'g \<Rightarrow> nat \<times> 'g) \<Rightarrow> string list \<Rightarrow> nat \<Rightarrow> 'g \<Rightarrow> string list \<times> 'g" where
  "draw_urls draw urls 0 g = ([], g)"
| "draw_urls draw urls (Suc n) g =
     (case draw (length urls) g of
        (i, g) \<Rightarrow> (case draw_urls draw urls n g of (us, g) \<Rightarrow> (urls ! i # us, g)))"

text \<open>The first \<open>wanted\<close> items of the stream, which is endless without a count.\<close>
definition resampled_apply ::
  "(64 word \<Rightarrow> 'g) \<Rightarrow> (nat \<Rightarrow> 'g \<Rightarrow> nat \<times> 'g) \<Rightarrow> 64 word \<Rightarrow> worker_info \<Rightarrow> nat \<Rightarrow> resampled \<Rightarrow>
   sample res list res \<times> resampled" where
  "resampled_apply seeded draw entropy info wanted s =
     (map_res
        (\<lambda>g. map (Inr \<circ> shard_sample)
               (fst (draw_urls draw (rs_urls s)
                  (case rs_count s of Some n \<Rightarrow> min n wanted | None \<Rightarrow> wanted) g)))
        (resampled_rng seeded entropy info s),
      s\<lparr>rs_epoch := Suc (rs_epoch s)\<rparr>)"

section \<open>Dividing\<close>

definition split_by_node :: "worker_info \<Rightarrow> 'a list \<Rightarrow> 'a list" where
  "split_by_node info xs =
     (if world_size info \<le> 1 then xs else step_by (world_size info) (drop (rank info) xs))"

definition split_by_worker :: "worker_info \<Rightarrow> 'a list \<Rightarrow> 'a list" where
  "split_by_worker info xs =
     (if num_workers info \<le> 1 then xs else step_by (num_workers info) (drop (worker info) xs))"

definition single_node_only :: "worker_info \<Rightarrow> 'a res list \<Rightarrow> 'a res list" where
  "single_node_only info xs =
     (if 1 < world_size info then [Inl (Value ''this pipeline has no node splitter'')] else xs)"

section \<open>Claiming shards from a directory\<close>

datatype disposal = Resample | Keep | Unlink

text \<open>Durations are in seconds.\<close>
record directory_list =
  dl_directory :: string
  dl_pattern :: string
  dl_disposal :: disposal
  dl_poll :: "nat option"
  dl_timeout :: nat
  dl_newest_first :: bool

definition directory_list_new :: "string \<Rightarrow> directory_list" where
  "directory_list_new dir =
     \<lparr>dl_directory = dir, dl_pattern = ''*.tar'', dl_disposal = Resample, dl_poll = Some 1,
      dl_timeout = 3600, dl_newest_first = False\<rparr>"

definition with_pattern :: "string \<Rightarrow> directory_list \<Rightarrow> directory_list" where
  "with_pattern x s = s\<lparr>dl_pattern := x\<rparr>"

definition with_disposal :: "disposal \<Rightarrow> directory_list \<Rightarrow> directory_list" where
  "with_disposal x s = s\<lparr>dl_disposal := x\<rparr>"

definition with_poll :: "nat option \<Rightarrow> directory_list \<Rightarrow> directory_list" where
  "with_poll x s = s\<lparr>dl_poll := x\<rparr>"

definition with_timeout :: "nat \<Rightarrow> directory_list \<Rightarrow> directory_list" where
  "with_timeout x s = s\<lparr>dl_timeout := x\<rparr>"

definition newest_first :: "bool \<Rightarrow> directory_list \<Rightarrow> directory_list" where
  "newest_first x s = s\<lparr>dl_newest_first := x\<rparr>"

text \<open>\<^verbatim>\<open>rsplit_once\<close> with a string.\<close>
definition rsplit_sub :: "string \<Rightarrow> string \<Rightarrow> (string \<times> string) option" where
  "rsplit_sub p s = map_option (\<lambda>(a, b). (rev b, rev a)) (split_once (rev p) (rev s))"

definition claim_pid :: "string \<Rightarrow> nat option" where
  "claim_pid name =
     Option.bind (rsplit_sub ''._'' name)
       (\<lambda>(_, rest). Option.bind (strip_suffix ''_'' rest) (parse_uint 32 10))"

definition strip_claim :: "string \<Rightarrow> string" where
  "strip_claim name =
     (case rsplit_sub ''._'' name of
        Some (base, rest) \<Rightarrow> if ends_with ''_'' rest then base else name
      | None \<Rightarrow> name)"

definition claim_name :: "string \<Rightarrow> nat \<Rightarrow> string" where
  "claim_name f pid = f @ ''._'' @ show_nat pid @ ''_''"

text \<open>\<^verbatim>\<open>Path::with_extension\<close> on a file name: the part behind the last dot (unless the name
  starts with its only dot) is replaced.\<close>
definition with_extension :: "string \<Rightarrow> string \<Rightarrow> string" where
  "with_extension ext name =
     (case rfind_idx (\<lambda>c. c = CHR ''.'') name of
        Some i \<Rightarrow> if i = 0 then name @ ''.'' @ ext else take i name @ ''.'' @ ext
      | None \<Rightarrow> name @ ''.'' @ ext)"

text \<open>A directory is the list of its file names; \<^verbatim>\<open>rename\<close> replaces its target.\<close>

definition remove_file :: "string \<Rightarrow> string list \<Rightarrow> string list option" where
  "remove_file f dir = (if f \<in> set dir then Some (filter ((\<noteq>) f) dir) else None)"

definition rename_file :: "string \<Rightarrow> string \<Rightarrow> string list \<Rightarrow> string list option" where
  "rename_file f t dir =
     (if f \<in> set dir then Some (filter (\<lambda>x. x \<noteq> f \<and> x \<noteq> t) dir @ [t]) else None)"

text \<open>A disposal that fails is only logged.\<close>
definition dispose :: "disposal \<Rightarrow> string \<Rightarrow> string list \<Rightarrow> string list" where
  "dispose d claimed dir =
     (let original = strip_claim claimed;
          outcome = (case d of
              Unlink \<Rightarrow> remove_file claimed dir
            | Keep \<Rightarrow> rename_file claimed (with_extension ''_done_'' original) dir
            | Resample \<Rightarrow> rename_file claimed original dir)
      in case outcome of Some dir' \<Rightarrow> dir' | None \<Rightarrow> dir)"

definition recover_abandoned :: "(nat \<Rightarrow> bool) \<Rightarrow> disposal \<Rightarrow> string list \<Rightarrow> string list" where
  "recover_abandoned running d dir =
     foldl
       (\<lambda>dir name.
          case claim_pid name of
            Some pid \<Rightarrow> if running pid then dir else dispose d name dir
          | None \<Rightarrow> dir)
       dir dir"

text \<open>The scanning loop.  A round says which candidate is taken (the newest, or a random one) and
  what other processes do to the directory between the listing and the rename, or during
  the sleep; when the rounds are used up the timeout has passed.\<close>

type_synonym round = "(string list \<Rightarrow> string) \<times> (string list \<Rightarrow> string list)"

fun scan_loop ::
  "(string \<Rightarrow> bool) \<Rightarrow> nat \<Rightarrow> bool \<Rightarrow> round list \<Rightarrow> string list \<Rightarrow> string option \<times> string list" where
  "scan_loop matches pid poll [] dir = (None, dir)"
| "scan_loop matches pid poll ((take_one, change) # rounds) dir =
     (let candidates = filter matches dir in
      if candidates = [] then
        (if poll then scan_loop matches pid poll rounds (change dir) else (None, dir))
      else
        (let f = take_one candidates in
         case rename_file f (claim_name f pid) (change dir) of
           None \<Rightarrow> scan_loop matches pid poll rounds (change dir)
         | Some dir' \<Rightarrow> (Some (claim_name f pid), dir')))"

definition directory_next ::
  "(string \<Rightarrow> bool) \<Rightarrow> (nat \<Rightarrow> bool) \<Rightarrow> nat \<Rightarrow> directory_list \<Rightarrow> round list \<Rightarrow>
   string option \<times> string list \<Rightarrow> sample res option \<times> string option \<times> string list" where
  "directory_next matches running pid dl rounds st =
     (case st of
        (claimed, dir) \<Rightarrow>
          (let dir = (case claimed of
                 Some previous \<Rightarrow> recover_abandoned running (dl_disposal dl) (dispose (dl_disposal dl) previous dir)
               | None \<Rightarrow> dir)
           in case scan_loop matches pid (dl_poll dl \<noteq> None) rounds dir of
                (Some claim, dir') \<Rightarrow> (Some (Inr (shard_sample claim)), Some claim, dir')
              | (None, dir') \<Rightarrow> (None, None, dir')))"

section \<open>Several sources\<close>

record multi_source =
  ms_name :: string
  ms_urls :: "string list"
  ms_resample :: "nat option"
  ms_choose :: "nat option"

definition multi_new :: "multi_source list \<Rightarrow> multi_source list res" where
  "multi_new sources =
     (case List.find (\<lambda>s. (ms_resample s \<noteq> None \<and> ms_choose s \<noteq> None) \<or>
              (case ms_choose s of Some n \<Rightarrow> length (ms_urls s) < n | None \<Rightarrow> False)) sources of
        Some s \<Rightarrow>
          (if ms_resample s \<noteq> None \<and> ms_choose s \<noteq> None
           then Inl (Value ''set only one of resample and choose'')
           else Inl (Value ''cannot choose that many shards''))
      | None \<Rightarrow> Inr sources)"

text \<open>\<open>permute\<close> is the shuffle of the \<^verbatim>\<open>rand\<close> crate, drawing from the generator.\<close>
fun epoch_sources ::
  "(nat \<Rightarrow> 'g \<Rightarrow> nat \<times> 'g) \<Rightarrow> (string list \<Rightarrow> 'g \<Rightarrow> string list \<times> 'g) \<Rightarrow>
   multi_source list \<Rightarrow> 'g \<Rightarrow> string list \<times> 'g" where
  "epoch_sources draw permute [] g = ([], g)"
| "epoch_sources draw permute (s # ss) g =
     (let (us, g) =
        (case ms_resample s of
           Some n \<Rightarrow>
             if ms_urls s \<noteq> [] then draw_urls draw (ms_urls s) n g
             else (case ms_choose s of
                     Some k \<Rightarrow> (case permute (ms_urls s) g of (p, g) \<Rightarrow> (take k p, g))
                   | None \<Rightarrow> (ms_urls s, g))
         | None \<Rightarrow>
             (case ms_choose s of
                Some k \<Rightarrow> (case permute (ms_urls s) g of (p, g) \<Rightarrow> (take k p, g))
              | None \<Rightarrow> (ms_urls s, g)));
        (vs, g) = epoch_sources draw permute ss g
      in (us @ vs, g))"

definition shards_for_epoch ::
  "(nat \<Rightarrow> 'g \<Rightarrow> nat \<times> 'g) \<Rightarrow> (string list \<Rightarrow> 'g \<Rightarrow> string list \<times> 'g) \<Rightarrow>
   multi_source list \<Rightarrow> 'g \<Rightarrow> string list \<times> 'g" where
  "shards_for_epoch draw permute sources g =
     (case epoch_sources draw permute sources g of (out, g) \<Rightarrow> permute out g)"

definition multi_apply ::
  "(nat \<Rightarrow> 'g \<Rightarrow> nat \<times> 'g) \<Rightarrow> (string list \<Rightarrow> 'g \<Rightarrow> string list \<times> 'g) \<Rightarrow>
   multi_source list \<Rightarrow> 'g \<Rightarrow> sample res list \<times> 'g" where
  "multi_apply draw permute sources g =
     (case shards_for_epoch draw permute sources g of
        (urls, g) \<Rightarrow> (map (Inr \<circ> shard_sample) urls, g))"

section \<open>Dealing shards out\<close>

text \<open>Every \<open>w\<close>-th element from position \<open>r\<close> on.\<close>
definition every :: "nat \<Rightarrow> nat \<Rightarrow> 'a list \<Rightarrow> 'a list" where
  "every w r xs = map snd (filter (\<lambda>(i, x). i mod w = r) (List.enumerate 0 xs))"

lemma every_map: "every w r (map f xs) = map f (every w r xs)"
proof -
  have "map snd (filter (\<lambda>(i, x). i mod w = r) (List.enumerate k (map f xs))) =
      map f (map snd (filter (\<lambda>(i, x). i mod w = r) (List.enumerate k xs)))" for k
    by (induction xs arbitrary: k) simp_all
  then show ?thesis by (simp add: every_def)
qed

lemma every_Cons:
  assumes "0 < w"
  shows "every w 0 (x # xs) = x # every w 0 (drop (w - 1) xs)"
proof -
  have enum: "List.enumerate 0 (x # xs) = (0, x) # List.enumerate 1 xs" by simp
  have "List.enumerate 1 xs = List.enumerate 1 (take (w - 1) xs) @ List.enumerate (1 + length (take (w - 1) xs)) (drop (w - 1) xs)"
    by (metis append_take_drop_id enumerate_append_eq)
  moreover have "filter (\<lambda>(i, y). i mod w = 0) (List.enumerate 1 (take (w - 1) xs)) = []"
    by (auto simp: filter_empty_conv in_set_enumerate_eq)
  moreover have "map snd (filter (\<lambda>(i, y). i mod w = 0) (List.enumerate (1 + length (take (w - 1) xs)) (drop (w - 1) xs))) =
      every w 0 (drop (w - 1) xs)"
  proof (cases "w - 1 \<le> length xs")
    case True
    then have "1 + length (take (w - 1) xs) = 0 + w" using assms by simp
    moreover have "map snd (filter (\<lambda>(i, y). i mod w = 0) (List.enumerate (k + w) ys)) =
        map snd (filter (\<lambda>(i, y). i mod w = 0) (List.enumerate k ys))" for k and ys :: "'a list"
      by (induction ys arbitrary: k) (auto simp flip: add_Suc)
    ultimately show ?thesis by (metis every_def)
  next
    case False
    then show ?thesis by (simp add: every_def)
  qed
  ultimately show ?thesis using assms by (simp add: every_def)
qed

lemma step_by_every: "0 < w \<Longrightarrow> step_by w xs = every w 0 xs"
proof (induction w xs rule: step_by.induct)
  case (2 k x xs)
  then show ?case by (simp add: every_Cons)
qed (simp add: every_def)

lemma mod_shift:
  assumes "r < (w :: nat)"
  shows "(k + r) mod w = r \<longleftrightarrow> k mod w = 0"
proof -
  have "(m + r) mod w = r \<longleftrightarrow> m = 0" if "m < w" for m
    using assms that by (cases "m + r < w") (auto simp: le_mod_geq not_less)
  then show ?thesis using assms by (metis gr_implies_not0 mod_add_left_eq mod_less_divisor neq0_conv)
qed

lemma every_drop:
  assumes "r < w"
  shows "every w r xs = every w 0 (drop r xs)"
proof (cases "r \<le> length xs")
  case True
  have "List.enumerate 0 xs = List.enumerate 0 (take r xs) @ List.enumerate r (drop r xs)"
    using True by (metis add_0 append_take_drop_id enumerate_append_eq length_take min_absorb2)
  moreover have "filter (\<lambda>(i, y). i mod w = r) (List.enumerate 0 (take r xs)) = []"
    using assms by (auto simp: filter_empty_conv in_set_enumerate_eq dest: le_less_trans [OF mod_less_eq_dividend])
  moreover have "map snd (filter (\<lambda>(i, y). i mod w = r) (List.enumerate (k + r) ys)) =
      map snd (filter (\<lambda>(i, y). i mod w = 0) (List.enumerate k ys))" for k and ys :: "'a list"
  proof (induction ys arbitrary: k)
    case (Cons y ys)
    have "(k + r) mod w = r \<longleftrightarrow> k mod w = 0"
      using assms by (rule mod_shift)
    then show ?case using Cons.IH [of "Suc k"] by simp
  qed simp
  ultimately show ?thesis by (metis add_0 append_Nil every_def filter_append)
next
  case False
  then have "filter (\<lambda>(i, y). i mod w = r) (List.enumerate 0 xs) = []"
    using assms
    by (auto simp: filter_empty_conv in_set_enumerate_eq)
       (meson le_trans less_imp_le_nat mod_less_eq_dividend)
  then show ?thesis using False by (simp add: every_def)
qed

lemma deal_partition:
  assumes "0 < w"
  shows "mset xs = (\<Sum>r<w. mset (every w r xs))"
proof -
  have "mset (map snd L) = (\<Sum>r<w. mset (map snd (filter (\<lambda>(i, x). i mod w = r) L)))"
    for L :: "(nat \<times> 'a) list"
  proof (induction L)
    case (Cons p L)
    obtain i x where p: "p = (i, x)" by fastforce
    have "(\<Sum>r<w. mset (map snd (filter (\<lambda>(i, x). i mod w = r) (p # L)))) =
        (\<Sum>r<w. (if i mod w = r then {#x#} else {#}) + mset (map snd (filter (\<lambda>(i, x). i mod w = r) L)))"
      by (intro sum.cong) (simp_all add: p)
    also have "\<dots> = {#x#} + mset (map snd L)"
      using Cons assms by (simp add: sum.distrib)
    finally show ?case by (simp add: p)
  qed simp
  from this [of "List.enumerate 0 xs"] show ?thesis by (simp add: every_def)
qed

lemma every_1: "every (Suc 0) 0 xs = xs"
  by (simp add: every_def)

lemma split_by_node_every:
  "world_size info = Suc w \<Longrightarrow> rank info \<le> w \<Longrightarrow> split_by_node info xs = every (Suc w) (rank info) xs"
  using step_by_every [of "Suc w"] every_drop [of "rank info" "Suc w" xs]
  by (cases "w = 0") (auto simp: split_by_node_def every_1)

lemma split_by_worker_every:
  "num_workers info = Suc n \<Longrightarrow> worker info \<le> n \<Longrightarrow> split_by_worker info xs = every (Suc n) (worker info) xs"
  using step_by_every [of "Suc n"] every_drop [of "worker info" "Suc n" xs]
  by (cases "n = 0") (auto simp: split_by_worker_def every_1)

section \<open>Claims\<close>

lemma find_sub_claim:
  "list_all is_ascii_digit ds \<Longrightarrow> find_sub ''_.'' (ds @ ''_.'' @ r) = Some (length ds)"
proof (induction ds)
  case (Cons d ds)
  then have "d \<noteq> CHR ''_''" by (auto simp: is_ascii_digit_def)
  then show ?case using Cons by (simp add: starts_with_def)
qed (simp add: starts_with_def)

lemma rsplit_claim: "rsplit_sub ''._'' (claim_name f pid) = Some (f, show_nat pid @ ''_'')"
proof -
  let ?ds = "rev (show_nat pid)"
  have d: "list_all is_ascii_digit ?ds" using show_nat_digits [of pid] by (simp add: list_all_iff)
  have ne: "?ds \<noteq> []" using show_nat_not_Nil [of pid] by simp
  obtain c cs where c: "?ds = c # cs" using ne by (cases ?ds) auto
  have "c \<noteq> CHR ''.''" using d c by (auto simp: is_ascii_digit_def)
  then have "find_sub ''_.'' (CHR ''_'' # ?ds @ ''_.'' @ rev f) = Some (Suc (length ?ds))"
    using find_sub_claim [OF d, of "rev f"] c by (simp add: starts_with_def)
  then show ?thesis by (simp add: rsplit_sub_def split_once_def claim_name_def)
qed

lemma strip_suffix_last: "strip_suffix [c] (s @ [c]) = Some s"
  by (simp add: strip_suffix_def)

lemma claim_pid_name: "pid < 2 ^ 32 \<Longrightarrow> claim_pid (claim_name f pid) = Some pid"
  using parse_uint_show_nat [of pid 32] strip_suffix_last [of "CHR ''_''" "show_nat pid"]
  by (simp add: claim_pid_def rsplit_claim)

lemma strip_claim_name: "strip_claim (claim_name f pid) = f"
  using strip_suffix_last [of "CHR ''_''" "show_nat pid"]
  by (simp add: strip_claim_def rsplit_claim ends_with_def)

section \<open>Properties\<close>

text \<open>C33: splitting deals the shards out: over all nodes and all workers of each node, every shard is read
  exactly once, and node \<open>r\<close> of \<open>w\<close> reads the shards at positions \<open>r\<close>, \<open>r + w\<close>, \<open>r + 2 w\<close> and so on.\<close>
theorem splits_partition:
  "mset xs = (\<Sum>r<Suc w. \<Sum>k<Suc n.
      mset (split_by_worker \<lparr>rank = r, world_size = Suc w, worker = k, num_workers = Suc n\<rparr>
        (split_by_node \<lparr>rank = r, world_size = Suc w, worker = k, num_workers = Suc n\<rparr> xs))) \<and>
   map (\<lambda>r. split_by_node \<lparr>rank = r, world_size = Suc w, worker = k, num_workers = m\<rparr> xs) [0..<Suc w] =
     map (\<lambda>r. every (Suc w) r xs) [0..<Suc w]"
proof -
  have node: "split_by_node \<lparr>rank = r, world_size = Suc w, worker = k, num_workers = m\<rparr> xs = every (Suc w) r xs"
    if "r < Suc w" for r k m
    using that by (subst split_by_node_every) simp_all
  have "(\<Sum>k<Suc n. mset (split_by_worker \<lparr>rank = r, world_size = Suc w, worker = k, num_workers = Suc n\<rparr> ys)) = mset ys"
    for r and ys :: "'a list"
  proof -
    have "(\<Sum>k<Suc n. mset (split_by_worker \<lparr>rank = r, world_size = Suc w, worker = k, num_workers = Suc n\<rparr> ys)) =
        (\<Sum>k<Suc n. mset (every (Suc n) k ys))"
      by (intro sum.cong refl) (subst split_by_worker_every; simp)
    then show ?thesis using deal_partition [of "Suc n" ys] by simp
  qed
  then show ?thesis using node deal_partition [of "Suc w" xs] by simp
qed

text \<open>A claimed name identifies its owner and its shard, whatever the shard is called.\<close>
theorem claim_round_trip:
  assumes "pid < 2 ^ 32"
  shows "claim_pid (claim_name f pid) = Some pid \<and> strip_claim (claim_name f pid) = f"
  using assms claim_pid_name strip_claim_name by simp

theorem claim_round_trip_witness:
  "claim_pid ''a._x_.tar._1234_'' = Some 1234 \<and> strip_claim ''a._x_.tar._1234_'' = ''a._x_.tar''"
proof -
  have "claim_name ''a._x_.tar'' 1234 = ''a._x_.tar._1234_''" by code_simp
  then show ?thesis using claim_round_trip [of 1234 "''a._x_.tar''"] by simp
qed

text \<open>Keeping finished shards can destroy one: two shards of the same stem are both kept under the
  name \<^verbatim>\<open>a._done_\<close>, so that disposing of the second deletes the first.\<close>
theorem keep_overwrites:
  "dispose Keep (claim_name ''a.tgz'' 7) (dispose Keep (claim_name ''a.tar'' 7)
      [claim_name ''a.tar'' 7, claim_name ''a.tgz'' 7]) = [''a._done_'']"
proof -
  have "with_extension ''_done_'' ''a.tar'' = ''a._done_''" "with_extension ''_done_'' ''a.tgz'' = ''a._done_''"
    by code_simp+
  moreover have "claim_name ''a.tar'' 7 = ''a.tar._7_''" "claim_name ''a.tgz'' 7 = ''a.tgz._7_''" by code_simp+
  ultimately show ?thesis
    using strip_claim_name [of "''a.tar''" 7] strip_claim_name [of "''a.tgz''" 7]
    by (simp add: dispose_def rename_file_def)
qed

text \<open>Abandoned claims are not recovered before the first shard: a directory that holds only the claim of
  a dead process ends the stream at once and keeps the claim.\<close>
theorem abandoned_claim_not_recovered:
  "directory_next (ends_with ''.tar'') (\<lambda>pid. False) 8 (with_poll None (directory_list_new ''d'')) (rd # rounds)
      (None, [claim_name ''a.tar'' 7]) = (None, None, [claim_name ''a.tar'' 7])"
proof -
  have "\<not> ends_with ''.tar'' (claim_name ''a.tar'' 7)" by code_simp
  then show ?thesis by (cases rd) (simp add: directory_next_def with_poll_def directory_list_new_def)
qed

end
