(* ===== verification/Caching.thy ===== *)
theory Caching
  imports Urls Shards
begin

text \<open>
  \<^verbatim>\<open>webdataset-io/src/cache.rs\<close>: cached copies of remote shards.  The disk is a
  map from paths to contents.  What the system decides is a parameter that threads a
  state \<open>'w\<close> of its own: how fetching a URL ends (\<open>gopen\<close> and the copy), and
  which directory, open, rename and remove calls fail.  Time is the number handed
  in; the delays between retries are not modelled.
\<close>

section \<open>Names and formats\<close>

definition known_schemes :: "string list" where
  "known_schemes = [''file'', ''http'', ''https'', ''ftp'', ''ftps'', ''gs'', ''s3'', ''ais'']"

definition url_to_cache_name :: "string \<Rightarrow> nat \<Rightarrow> string" where
  "url_to_cache_name url ndir =
     (if (case scheme url of None \<Rightarrow> True | Some s \<Rightarrow> s \<in> set known_schemes) then
        (let parts = split_on ''/'' (trim_start_matches ((=) CHR ''/'') (url_path url));
             start = length parts - (ndir + 1)
         in join_with ''/'' (drop start parts))
      else
        (let quoted = percent_encode url ''_+{}*,-''
         in drop (length quoted - 128) quoted))"

datatype file_type = TarType | Gzip | Bzip2 | Xz | Zstd | Unknown

definition sniff :: "bytes \<Rightarrow> file_type" where
  "sniff header =
     (if starts_with [0x1f, 0x8b] header then Gzip
      else if starts_with (as_bytes ''BZh'') header then Bzip2
      else if starts_with [0xfd, 0x37, 0x7a, 0x58, 0x5a, 0x00] header then Xz
      else if starts_with [0x28, 0xb5, 0x2f, 0xfd] header then Zstd
      else if 262 < length header \<and> take 5 (drop 257 header) = as_bytes ''ustar'' then TarType
      else Unknown)"

definition is_archive :: "file_type \<Rightarrow> bool" where
  "is_archive t = (t \<noteq> Unknown)"

definition file_type_name :: "file_type \<Rightarrow> string" where
  "file_type_name t =
     (case t of
        TarType \<Rightarrow> ''POSIX tar archive'' | Gzip \<Rightarrow> ''gzip compressed data''
      | Bzip2 \<Rightarrow> ''bzip2 compressed data'' | Xz \<Rightarrow> ''XZ compressed data''
      | Zstd \<Rightarrow> ''Zstandard compressed data'' | Unknown \<Rightarrow> ''data'')"

section \<open>Downloads\<close>

datatype dir_node = FileNode string nat nat | DirNode listing
and listing = Missing | Failed error | Nodes "dir_node option list"

datatype disk_call = CreateDirs string | OpenFile string | Rename string string | RemoveFile string

datatype fetched = OpenFailed error | CreateFailed error | CopyFailed bytes error | Fetched bytes

record 'w disk =
  files :: "string \<Rightarrow> bytes option"
  unique :: "64 word"
  env :: 'w

record 'w system =
  fetch :: "string \<Rightarrow> 'w \<Rightarrow> fetched \<times> 'w"
  fails :: "disk_call \<Rightarrow> 'w \<Rightarrow> error option \<times> 'w"
  walk :: "string \<Rightarrow> 'w disk \<Rightarrow> listing option"
  clock :: "'w \<Rightarrow> nat"

definition not_found :: error where "not_found = Io ''not found''"

definition call :: "'w system \<Rightarrow> disk_call \<Rightarrow> 'w disk \<Rightarrow> unit res \<times> 'w disk" where
  "call sys c d =
     (case fails sys c (env d) of
        (None, w) \<Rightarrow> (Inr (), d\<lparr>env := w\<rparr>)
      | (Some e, w) \<Rightarrow> (Inl e, d\<lparr>env := w\<rparr>))"

definition remove_path :: "'w system \<Rightarrow> string \<Rightarrow> 'w disk \<Rightarrow> unit res \<times> 'w disk" where
  "remove_path sys p d =
     (case call sys (RemoveFile p) d of
        (Inr _, d) \<Rightarrow> (Inr (), d\<lparr>files := (files d)(p := None)\<rparr>)
      | r \<Rightarrow> r)"

definition rename_path :: "'w system \<Rightarrow> string \<Rightarrow> string \<Rightarrow> 'w disk \<Rightarrow> unit res \<times> 'w disk" where
  "rename_path sys p q d =
     (case call sys (Rename p q) d of
        (Inr _, d) \<Rightarrow> (Inr (), d\<lparr>files := (files d)(p := None, q := files d p)\<rparr>)
      | r \<Rightarrow> r)"

text \<open>\<^verbatim>\<open>copy_to\<close>: the number of bytes written, and what is left under the temporary name.\<close>
definition copy_to :: "'w system \<Rightarrow> string \<Rightarrow> string \<Rightarrow> 'w disk \<Rightarrow> nat res \<times> 'w disk" where
  "copy_to sys url temp d =
     (case fetch sys url (env d) of
        (OpenFailed e, w) \<Rightarrow> (Inl e, d\<lparr>env := w\<rparr>)
      | (CreateFailed e, w) \<Rightarrow> (Inl e, d\<lparr>env := w\<rparr>)
      | (CopyFailed part e, w) \<Rightarrow> (Inl e, d\<lparr>env := w, files := (files d)(temp \<mapsto> part)\<rparr>)
      | (Fetched b, w) \<Rightarrow> (Inr (length b), d\<lparr>env := w, files := (files d)(temp \<mapsto> b)\<rparr>))"

definition temp_name :: "nat \<Rightarrow> 64 word \<Rightarrow> string \<Rightarrow> string" where
  "temp_name pid n dest =
     dir_part dest @
     with_extension (''temp'' @ show_nat pid @ ''-'' @ show_nat (unat n)) (file_part dest)"

definition download :: "'w system \<Rightarrow> nat \<Rightarrow> string \<Rightarrow> string \<Rightarrow> 'w disk \<Rightarrow> nat res \<times> 'w disk" where
  "download sys pid url dest d =
     (case next_unique (unique d) of
        (n, u) \<Rightarrow>
          (let temp = temp_name pid n dest; d = d\<lparr>unique := u\<rparr>
           in case copy_to sys url temp d of
                (Inr written, d) \<Rightarrow>
                  (case rename_path sys temp dest d of
                     (Inr _, d) \<Rightarrow> (Inr written, d)
                   | (Inl e, d) \<Rightarrow> (Inl e, d))
              | (Inl e, d) \<Rightarrow> (Inl e, snd (remove_path sys temp d))))"

section \<open>Eviction\<close>

definition add_u64 :: "nat \<Rightarrow> nat \<Rightarrow> nat res" where
  "add_u64 a b = (if a + b < 2 ^ 64 then Inr (a + b) else Inl (Panic ''attempt to add with overflow''))"

type_synonym dir_entry = "string \<times> nat \<times> nat"

text \<open>\<^verbatim>\<open>collect\<close>: a node that cannot be read is \<open>None\<close> and is skipped.\<close>
function (sequential) collect :: "listing \<Rightarrow> dir_entry list \<times> nat \<Rightarrow> (dir_entry list \<times> nat) res"
  and collect_nodes :: "dir_node option list \<Rightarrow> dir_entry list \<times> nat \<Rightarrow> (dir_entry list \<times> nat) res" where
  "collect Missing acc = Inr acc"
| "collect (Failed e) acc = Inl e"
| "collect (Nodes ns) acc = collect_nodes ns acc"
| "collect_nodes [] acc = Inr acc"
| "collect_nodes (None # ns) acc = collect_nodes ns acc"
| "collect_nodes (Some (DirNode l) # ns) acc =
     (case collect l acc of Inl e \<Rightarrow> Inl e | Inr acc \<Rightarrow> collect_nodes ns acc)"
| "collect_nodes (Some (FileNode p sz created) # ns) acc =
     (case add_u64 (snd acc) sz of
        Inl e \<Rightarrow> Inl e
      | Inr t \<Rightarrow> collect_nodes ns (fst acc @ [(p, sz, created)], t))"
  by pat_completeness auto
termination
  by (relation "measure (\<lambda>x. case x of Inl (l, acc) \<Rightarrow> size l | Inr (ns, acc) \<Rightarrow> size_list (size_option size) ns)")
     auto

record eviction =
  ev_total :: nat
  freed :: nat
  evicted :: "string list"

text \<open>The loop of \<^verbatim>\<open>cleanup\<close> over the entries, oldest first.\<close>
fun evict ::
  "'w system \<Rightarrow> nat \<Rightarrow> dir_entry list \<Rightarrow> eviction \<Rightarrow> 'w disk \<Rightarrow> error option \<times> eviction \<times> 'w disk" where
  "evict sys budget [] s d = (None, s, d)"
| "evict sys budget ((p, sz, created) # es) s d =
     (if ev_total s \<le> budget then (None, s, d)
      else
        (case remove_path sys p d of
           (Inr _, d) \<Rightarrow>
             evict sys budget es
               \<lparr>ev_total = ev_total s - min sz (ev_total s), freed = freed s + sz, evicted = evicted s @ [p]\<rparr> d
         | (Inl e, d) \<Rightarrow>
             if e = not_found then evict sys budget es s d else (Some (Context ''removing '' e), s, d)))"

record lru_cleanup =
  lru_directory :: string
  lru_budget :: nat
  interval :: "nat option"
  last_run :: "nat option"

definition lru_new :: "string \<Rightarrow> nat \<Rightarrow> nat option \<Rightarrow> lru_cleanup" where
  "lru_new dir budget period = \<lparr>lru_directory = dir, lru_budget = budget, interval = period, last_run = None\<rparr>"

definition too_early :: "nat \<Rightarrow> lru_cleanup \<Rightarrow> bool" where
  "too_early now l = (case (interval l, last_run l) of (Some i, Some t) \<Rightarrow> now - t < i | _ \<Rightarrow> False)"

definition cleanup ::
  "'w system \<Rightarrow> lru_cleanup \<Rightarrow> 'w disk \<Rightarrow> nat res \<times> lru_cleanup \<times> 'w disk" where
  "cleanup sys l d =
     (case walk sys (lru_directory l) d of
        None \<Rightarrow> (Inr 0, l, d)
      | Some listing \<Rightarrow>
          let now = clock sys (env d) in
          if too_early now l then (Inr 0, l, d)
          else
            (let l = l\<lparr>last_run := Some now\<rparr>
             in case collect listing ([], 0) of
                  Inl e \<Rightarrow> (Inl e, l, d)
                | Inr (found, bytes_total) \<Rightarrow>
                    if bytes_total \<le> lru_budget l then (Inr 0, l, d)
                    else
                      (case evict sys (lru_budget l) (sort_key (\<lambda>(p, sz, created). created) found)
                              \<lparr>ev_total = bytes_total, freed = 0, evicted = []\<rparr> d of
                         (None, s, d) \<Rightarrow> (Inr (freed s), l, d)
                       | (Some e, s, d) \<Rightarrow> (Inl e, l, d))))"

section \<open>The cache\<close>

record file_cache =
  directory :: string
  name_of :: "string \<Rightarrow> string"
  validate :: bool
  lru :: "lru_cleanup option"
  retries :: nat

definition file_cache_new :: "string \<Rightarrow> file_cache" where
  "file_cache_new dir =
     \<lparr>directory = dir, name_of = (\<lambda>url. url_to_cache_name url 0), validate = True, lru = None, retries = 10\<rparr>"

definition DEFAULT_CACHE_DIR :: string where "DEFAULT_CACHE_DIR = ''./_cache''"

definition file_cache_from_env :: "(string \<Rightarrow> string option) \<Rightarrow> file_cache" where
  "file_cache_from_env var =
     file_cache_new (case var ''WDS_CACHE'' of Some dir \<Rightarrow> dir | None \<Rightarrow> DEFAULT_CACHE_DIR)"

definition with_naming :: "(string \<Rightarrow> string) \<Rightarrow> file_cache \<Rightarrow> file_cache" where
  "with_naming f c = c\<lparr>name_of := f\<rparr>"

definition with_validation :: "bool \<Rightarrow> file_cache \<Rightarrow> file_cache" where
  "with_validation b c = c\<lparr>validate := b\<rparr>"

definition with_retries :: "nat \<Rightarrow> file_cache \<Rightarrow> file_cache" where
  "with_retries n c = c\<lparr>retries := n\<rparr>"

definition with_budget :: "nat \<Rightarrow> nat option \<Rightarrow> file_cache \<Rightarrow> file_cache" where
  "with_budget budget period c = c\<lparr>lru := Some (lru_new (directory c) budget period)\<rparr>"

definition join_path :: "string \<Rightarrow> string \<Rightarrow> string" where
  "join_path dir name =
     (if starts_with ''/'' name then name
      else if dir = [] \<or> ends_with ''/'' dir then dir @ name
      else dir @ ''/'' @ name)"

definition magic_filetype :: "'w system \<Rightarrow> string \<Rightarrow> 'w disk \<Rightarrow> file_type res \<times> 'w disk" where
  "magic_filetype sys p d =
     (case call sys (OpenFile p) d of
        (Inl e, d) \<Rightarrow> (Inl e, d)
      | (Inr _, d) \<Rightarrow>
          (case files d p of
             None \<Rightarrow> (Inl not_found, d)
           | Some b \<Rightarrow> (Inr (sniff (take 512 b)), d)))"

definition check_tar_format :: "'w system \<Rightarrow> string \<Rightarrow> 'w disk \<Rightarrow> bool res \<times> 'w disk" where
  "check_tar_format sys p d = (case magic_filetype sys p d of (r, d) \<Rightarrow> (map_res is_archive r, d))"

text \<open>The checks behind a download.\<close>
definition validate_file ::
  "'w system \<Rightarrow> file_cache \<Rightarrow> string \<Rightarrow> 'w disk \<Rightarrow> string res \<times> 'w disk" where
  "validate_file sys c dest d =
     (if \<not> validate c then (Inr dest, d)
      else
        (case check_tar_format sys dest d of
           (Inl e, d) \<Rightarrow> (Inl e, d)
         | (Inr True, d) \<Rightarrow> (Inr dest, d)
         | (Inr False, d) \<Rightarrow>
             (case magic_filetype sys dest d of
                (Inl e, d) \<Rightarrow> (Inl e, d)
              | (Inr kind, d) \<Rightarrow>
                  (Inl (Format ''not an archive''), snd (remove_path sys dest d)))))"

text \<open>The cleanup before a download, if the cache has a budget; it may note the time.\<close>
definition make_room :: "'w system \<Rightarrow> file_cache \<Rightarrow> 'w disk \<Rightarrow> unit res \<times> file_cache \<times> 'w disk" where
  "make_room sys c d =
     (case lru c of
        None \<Rightarrow> (Inr (), c, d)
      | Some l \<Rightarrow> (case cleanup sys l d of (r, l, d) \<Rightarrow> (map_res (\<lambda>_. ()) r, c\<lparr>lru := Some l\<rparr>, d)))"

definition get_file ::
  "'w system \<Rightarrow> nat \<Rightarrow> string \<Rightarrow> file_cache \<times> 'w disk \<Rightarrow> string res \<times> file_cache \<times> 'w disk" where
  "get_file sys pid url s =
     (case s of
        (c, d) \<Rightarrow>
          if is_local url then (Inr (to_local_path url), c, d)
          else
            (let dest = join_path (directory c) (name_of c url)
             in case call sys (CreateDirs (dir_part dest)) d of
                  (Inl e, d) \<Rightarrow> (Inl e, c, d)
                | (Inr _, d) \<Rightarrow>
                    if files d dest \<noteq> None then (Inr dest, c, d)
                    else
                      (case make_room sys c d of
                         (Inl e, c, d) \<Rightarrow> (Inl e, c, d)
                       | (Inr _, c, d) \<Rightarrow>
                           (case download sys pid url dest d of
                              (Inl e, d) \<Rightarrow> (Inl (Context ''caching '' e), c, d)
                            | (Inr _, d) \<Rightarrow> (case validate_file sys c dest d of (r, d) \<Rightarrow> (r, c, d))))))"

definition try_open ::
  "'w system \<Rightarrow> nat \<Rightarrow> string \<Rightarrow> file_cache \<times> 'w disk \<Rightarrow> (bytes \<times> string) res \<times> file_cache \<times> 'w disk" where
  "try_open sys pid url s =
     (case get_file sys pid url s of
        (Inl e, c, d) \<Rightarrow> (Inl e, c, d)
      | (Inr path, c, d) \<Rightarrow>
          (case call sys (OpenFile path) d of
             (Inl e, d) \<Rightarrow> (Inl e, c, d)
           | (Inr _, d) \<Rightarrow>
               (case files d path of
                  None \<Rightarrow> (Inl not_found, c, d)
                | Some b \<Rightarrow> (Inr (b, path), c, d))))"

text \<open>The attempts of \<^verbatim>\<open>open\<close> that are left, and the last error.\<close>
fun open_loop ::
  "'w system \<Rightarrow> nat \<Rightarrow> string \<Rightarrow> nat \<Rightarrow> error option \<Rightarrow> file_cache \<times> 'w disk \<Rightarrow>
   (bytes \<times> string) res \<times> file_cache \<times> 'w disk" where
  "open_loop sys pid url 0 failed s =
     (Inl (case failed of Some e \<Rightarrow> e | None \<Rightarrow> Format ''could not open''), s)"
| "open_loop sys pid url (Suc n) failed s =
     (case try_open sys pid url s of
        (Inr r, s) \<Rightarrow> (Inr r, s)
      | (Inl e, s) \<Rightarrow> open_loop sys pid url n (Some e) s)"

definition cache_open ::
  "'w system \<Rightarrow> nat \<Rightarrow> string \<Rightarrow> file_cache \<times> 'w disk \<Rightarrow> (bytes \<times> string) res \<times> file_cache \<times> 'w disk" where
  "cache_open sys pid url s = open_loop sys pid url (max (retries (fst s)) 1) None s"

section \<open>What eviction leaves\<close>

abbreviation entry_size :: "dir_entry \<Rightarrow> nat" where "entry_size e \<equiv> fst (snd e)"
abbreviation entry_time :: "dir_entry \<Rightarrow> nat" where "entry_time e \<equiv> snd (snd e)"

definition held :: "dir_entry list \<Rightarrow> nat" where
  "held es = sum_list (map entry_size es)"

lemma held_simps [simp]: "held [] = 0" "held (e # es) = entry_size e + held es" "held (xs @ ys) = held xs + held ys"
  by (simp_all add: held_def)

lemma held_sort_key: "held (sort_key f es) = held es"
proof -
  have "mset (map entry_size (sort_key f es)) = mset (map entry_size es)" by simp
  then show ?thesis unfolding held_def by (metis sum_mset_sum_list)
qed

lemma collect_held:
  "collect l acc = Inr acc' \<Longrightarrow> snd acc = held (fst acc) \<Longrightarrow> snd acc' = held (fst acc')"
  "collect_nodes ns acc = Inr acc' \<Longrightarrow> snd acc = held (fst acc) \<Longrightarrow> snd acc' = held (fst acc')"
  by (induction l acc and ns acc arbitrary: acc' and acc' rule: collect_collect_nodes.induct)
     (auto simp: add_u64_def split: sum.splits if_splits)

definition removals_succeed :: "'w system \<Rightarrow> bool" where
  "removals_succeed sys = (\<forall>p w. fst (fails sys (RemoveFile p) w) = None)"

lemma remove_path_ok:
  assumes "removals_succeed sys"
  shows "\<exists>w. remove_path sys p d = (Inr (), d\<lparr>files := (files d)(p := None), env := w\<rparr>)"
proof -
  obtain w where "fails sys (RemoveFile p) (env d) = (None, w)"
    using assms unfolding removals_succeed_def by (metis prod.collapse)
  then have "remove_path sys p d = (Inr (), d\<lparr>files := (files d)(p := None), env := w\<rparr>)"
    by (cases d) (simp add: remove_path_def call_def)
  then show ?thesis ..
qed

lemma evict_oldest:
  assumes ok: "removals_succeed sys"
  shows "ev_total s = held es \<Longrightarrow> evict sys budget es s d = (err, s', d') \<Longrightarrow>
    err = None \<and>
    (\<exists>k\<le>length es. freed s' = freed s + held (take k es) \<and> held (drop k es) \<le> budget \<and>
       (0 < k \<longrightarrow> budget < held (drop (k - 1) es)) \<and>
       files d' = (\<lambda>p. if p \<in> fst ` set (take k es) then None else files d p))"
proof (induction es arbitrary: s d)
  case Nil
  then show ?case by auto
next
  case (Cons e es)
  obtain p sz created where e: "e = (p, sz, created)" by (cases e) auto
  show ?case
  proof (cases "ev_total s \<le> budget")
    case True
    then show ?thesis using Cons.prems e by (intro conjI exI [of _ 0]) auto
  next
    case False
    obtain w where rm: "remove_path sys p d = (Inr (), d\<lparr>files := (files d)(p := None), env := w\<rparr>)"
      using remove_path_ok [OF ok] by blast
    let ?s = "\<lparr>ev_total = ev_total s - min sz (ev_total s), freed = freed s + sz, evicted = evicted s @ [p]\<rparr>"
    let ?d = "d\<lparr>files := (files d)(p := None), env := w\<rparr>"
    have ev: "evict sys budget es ?s ?d = (err, s', d')" using Cons.prems(2) False rm e by simp
    have "ev_total ?s = held es" using Cons.prems(1) e by simp
    from Cons.IH [OF this ev] obtain k where k: "err = None" "k \<le> length es"
        "freed s' = freed ?s + held (take k es)" "held (drop k es) \<le> budget"
        "0 < k \<longrightarrow> budget < held (drop (k - 1) es)"
        "files d' = (\<lambda>q. if q \<in> fst ` set (take k es) then None else files ?d q)" by blast
    have "budget < held (drop k (e # es))"
      using k(5) False Cons.prems(1) by (cases k) auto
    then show ?thesis using k e by (intro conjI exI [of _ "Suc k"]) auto
  qed
qed

section \<open>What a download leaves\<close>

lemma files_call [simp]: "call sys c d = (r, d') \<Longrightarrow> files d' = files d"
  by (auto simp: call_def split: prod.splits option.splits)

lemma call_fst: "fst (fails sys c (env d)) = None \<Longrightarrow> fst (call sys c d) = Inr ()"
  by (auto simp: call_def split: prod.splits option.splits)

lemma files_remove_path:
  "removals_succeed sys \<Longrightarrow> files (snd (remove_path sys p d)) = (files d)(p := None)"
  using remove_path_ok [of sys p d] by auto

lemma download_all_or_nothing:
  assumes ok: "removals_succeed sys" and temp: "\<And>n. temp_name pid n dest \<noteq> dest"
    and none: "files d dest = None" and dl: "download sys pid url dest d = (r, d')"
  shows "(\<exists>n b w. r = Inr n \<and> fst (fetch sys url w) = Fetched b \<and> files d' dest = Some b) \<or>
    (\<exists>e. r = Inl e \<and> files d' dest = None)"
proof -
  obtain n u where u: "next_unique (unique d) = (n, u)" by fastforce
  let ?t = "temp_name pid n dest" and ?d = "d\<lparr>unique := u\<rparr>"
  note t = temp [of n]
  obtain o1 w where f: "fetch sys url (env d) = (o1, w)" by fastforce
  show ?thesis
  proof (cases o1)
    case (Fetched b)
    let ?d1 = "?d\<lparr>env := w, files := (files d)(?t \<mapsto> b)\<rparr>"
    have c: "copy_to sys url ?t ?d = (Inr (length b), ?d1)" using f Fetched by (simp add: copy_to_def)
    obtain r1 d2 where r1: "call sys (Rename ?t dest) ?d1 = (r1, d2)" by fastforce
    have fd: "files d2 = (files d)(?t \<mapsto> b)" using files_call [OF r1] by simp
    have fw: "fst (fetch sys url (env d)) = Fetched b" using f Fetched by simp
    show ?thesis
    proof (cases r1)
      case (Inl e)
      then have "download sys pid url dest d = (Inl e, d2)"
        using u c r1 by (simp add: download_def rename_path_def Let_def)
      then show ?thesis using dl fd t none by simp
    next
      case (Inr x)
      then have "download sys pid url dest d =
          (Inr (length b), d2\<lparr>files := (files d2)(?t := None, dest := files d2 ?t)\<rparr>)"
        using u c r1 by (simp add: download_def rename_path_def Let_def)
      then show ?thesis using dl fd fw t by auto
    qed
  qed (use u f dl t none in \<open>auto simp: download_def copy_to_def files_remove_path [OF ok] Let_def\<close>)
qed

lemma remove_path_absent: "remove_path sys q d = (r, d') \<Longrightarrow> files d p = None \<Longrightarrow> files d' p = None"
  by (auto simp: remove_path_def split: prod.splits sum.splits)

lemma evict_absent: "evict sys budget es s d = (r, s', d') \<Longrightarrow> files d p = None \<Longrightarrow> files d' p = None"
proof (induction sys budget es s d rule: evict.induct)
  case (2 sys budget q sz created es s d)
  show ?case
  proof (cases "ev_total s \<le> budget")
    case False
    obtain r1 d1 where rm: "remove_path sys q d = (r1, d1)" by fastforce
    have "files d1 p = None" using remove_path_absent [OF rm "2.prems"(2)] .
    then show ?thesis using 2 False rm by (auto split: sum.splits if_splits)
  qed (use 2 in auto)
qed auto

lemma cleanup_absent: "cleanup sys l d = (r, l', d') \<Longrightarrow> files d p = None \<Longrightarrow> files d' p = None"
  by (auto simp: cleanup_def Let_def dest: evict_absent split: option.splits if_splits sum.splits prod.splits)

lemma make_room_absent:
  "make_room sys c d = (r, c', d') \<Longrightarrow> files d p = None \<Longrightarrow>
   files d' p = None \<and> validate c' = validate c"
  by (auto simp: make_room_def dest: cleanup_absent split: option.splits prod.splits)

lemma sniffed: "magic_filetype sys p d = (r, d') \<Longrightarrow> files d' = files d \<and>
    (\<forall>k. r = Inr k \<longrightarrow> (\<exists>b. files d p = Some b \<and> k = sniff (take 512 b)))"
  by (auto simp: magic_filetype_def split: prod.splits sum.splits option.splits)

definition opens_succeed :: "'w system \<Rightarrow> bool" where
  "opens_succeed sys = (\<forall>p w. fst (fails sys (OpenFile p) w) = None)"

lemma magic_filetype_ok:
  assumes "opens_succeed sys" and "files d p = Some b"
  shows "\<exists>d'. magic_filetype sys p d = (Inr (sniff (take 512 b)), d') \<and> files d' = files d"
proof -
  obtain d' where c: "call sys (OpenFile p) d = (Inr (), d')"
    using assms(1) call_fst [of sys "OpenFile p" d] unfolding opens_succeed_def by (metis prod.collapse)
  then show ?thesis using assms(2) files_call [OF c] by (simp add: magic_filetype_def)
qed

lemma validate_file_ok:
  assumes "opens_succeed sys" "removals_succeed sys" "files d dest = Some b" "validate c"
    and v: "validate_file sys c dest d = (r, d')"
  shows "if is_archive (sniff (take 512 b)) then r = Inr dest \<and> files d' dest = Some b
    else (\<exists>e. r = Inl e) \<and> files d' dest = None"
proof -
  obtain d1 where d1: "magic_filetype sys dest d = (Inr (sniff (take 512 b)), d1)" "files d1 = files d"
    using magic_filetype_ok [OF assms(1,3)] by blast
  then obtain d2 where d2: "magic_filetype sys dest d1 = (Inr (sniff (take 512 b)), d2)" "files d2 = files d"
    using magic_filetype_ok [of sys d1 dest b] assms(1,3) by auto
  show ?thesis
    using v assms(4) d1 d2 assms(3) files_remove_path [OF assms(2), of dest d2]
    by (cases "is_archive (sniff (take 512 b))")
       (auto simp: validate_file_def check_tar_format_def)
qed

section \<open>Properties\<close>


text \<open>A system where every call works and every transfer gives the same two bytes.\<close>

definition demo_system :: "unit system" where
  "demo_system =
     \<lparr>fetch = (\<lambda>url w. (Fetched [0x1f, 0x8b], w)), fails = (\<lambda>c w. (None, w)),
      walk = (\<lambda>dir d. Some (Nodes [Some (FileNode ''c/new'' 5 2), None,
        Some (DirNode (Nodes [Some (FileNode ''c/d/old'' 7 1)]))])),
      clock = (\<lambda>w. 0)\<rparr>"

definition demo_disk :: "unit disk" where
  "demo_disk = \<lparr>files = [''c/new'' \<mapsto> [], ''c/d/old'' \<mapsto> []], unique = 0, env = ()\<rparr>"

lemma demo_system_ok: "opens_succeed demo_system" "removals_succeed demo_system"
  by (simp_all add: opens_succeed_def removals_succeed_def demo_system_def)


text \<open>C36: the cleanup evicts oldest first and no more than it must: when removals work and it is
  due, the removed files are the first \<open>k\<close> by creation time, what is left fits the
  budget, and with one file less removed it would not.\<close>
theorem cleanup_oldest_first:
  assumes ok: "removals_succeed sys" and dir: "walk sys (lru_directory l) d = Some listing"
    and due: "\<not> too_early (clock sys (env d)) l"
    and found: "collect listing ([], 0) = Inr (found, t)"
    and es: "es = sort_key entry_time found"
    and run: "cleanup sys l d = (r, l', d')"
  shows "\<exists>k\<le>length es. r = Inr (held (take k es)) \<and>
    files d' = (\<lambda>p. if p \<in> fst ` set (take k es) then None else files d p) \<and>
    held (drop k es) \<le> lru_budget l \<and> (0 < k \<longrightarrow> lru_budget l < held (drop (k - 1) es))"
proof -
  have t: "t = held es" using collect_held(1) [OF found] by (simp add: es held_sort_key)
  have es': "es = sort_key (\<lambda>(p, sz, created). created) found"
    unfolding es by (rule arg_cong [where f = "\<lambda>f. sort_key f found"]) auto
  show ?thesis
  proof (cases "t \<le> lru_budget l")
    case True
    then show ?thesis using run dir due found t by (intro exI [of _ 0]) (simp add: cleanup_def Let_def)
  next
    case False
    obtain err s d2 where ev: "evict sys (lru_budget l) es \<lparr>ev_total = t, freed = 0, evicted = []\<rparr> d = (err, s, d2)"
      by (metis prod_cases3)
    have "ev_total \<lparr>ev_total = t, freed = 0, evicted = []\<rparr> = held es" by (simp add: t)
    from evict_oldest [OF ok this ev] have err: "err = None" and
      k: "\<exists>k\<le>length es. freed s = held (take k es) \<and> held (drop k es) \<le> lru_budget l \<and>
       (0 < k \<longrightarrow> lru_budget l < held (drop (k - 1) es)) \<and>
       files d2 = (\<lambda>p. if p \<in> fst ` set (take k es) then None else files d p)" by auto
    have "r = Inr (freed s)" "d' = d2"
      using run dir due found False ev err by (auto simp: cleanup_def Let_def es')
    then show ?thesis using k by auto
  qed
qed

theorem cleanup_oldest_first_witness:
  "\<exists>k\<le>2. fst (cleanup demo_system (lru_new ''c'' 6 None) demo_disk) =
     Inr (held (take k [(''c/d/old'', 7, 1), (''c/new'', 5, 2)]))"
proof -
  let ?l = "lru_new ''c'' 6 None"
  obtain r l' d' where run: "cleanup demo_system ?l demo_disk = (r, l', d')" by (metis prod_cases3)
  have "collect (Nodes [Some (FileNode ''c/new'' 5 2), None,
        Some (DirNode (Nodes [Some (FileNode ''c/d/old'' 7 1)]))]) ([], 0) =
      Inr ([(''c/new'', 5, 2), (''c/d/old'', 7, 1)], 12)"
    by (simp add: add_u64_def)
  from cleanup_oldest_first [OF demo_system_ok(2) _ _ this refl run] obtain k where
    "k \<le> 2" "r = Inr (held (take k [(''c/d/old'', 7, 1), (''c/new'', 5, 2)]))"
    by (auto simp: demo_system_def lru_new_def too_early_def numeral_2_eq_2)
  then show ?thesis using run by (intro exI [of _ k]) simp
qed

text \<open>A file another worker removed still counts: with two files of ten bytes, a budget of ten and the
  older one gone meanwhile, the newer one is evicted too although it fits alone.\<close>
lemma vanished_still_counted:
  "evict \<lparr>fetch = (\<lambda>u w. (Fetched [], w)), fails = (\<lambda>c w. (if c = RemoveFile ''old'' then Some not_found else None, w)),
     walk = (\<lambda>p d. None), clock = (\<lambda>w. 0)\<rparr> 10 [(''old'', 10, 1), (''new'', 10, 2)]
     \<lparr>ev_total = 20, freed = 0, evicted = []\<rparr> \<lparr>files = [''new'' \<mapsto> []], unique = 0, env = ()\<rparr> =
   (None, \<lparr>ev_total = 10, freed = 10, evicted = [''new'']\<rparr>, \<lparr>files = Map.empty, unique = 0, env = ()\<rparr>)"
  by (simp add: remove_path_def call_def)

end
