(* ===== verification/Json.thy ===== *)
theory Json
  imports Samples "HOL-Library.List_Lexorder"
begin

text \<open>
  The JSON conversions of \<^verbatim>\<open>webdataset-core/src/value.rs\<close>.  \<open>json\<close> is the value type of
  \<^verbatim>\<open>serde_json\<close> as its documentation gives it: numbers are 64-bit integers or finite
  floats, and an object keeps its keys in ascending order.
\<close>

datatype json =
    JNull
  | JBool bool
  | JInt int
  | JUint nat
  | JFloat f64
  | JString string
  | JArray "json list"
  | JObject "(string \<times> json) list"

definition f64_finite :: "f64 \<Rightarrow> bool" where
  "f64_finite b = (f64_exp b \<noteq> 0x7FF)"

text \<open>\<^verbatim>\<open>Number::from_f64\<close>, or \<^verbatim>\<open>null\<close>.\<close>
definition json_float :: "f64 \<Rightarrow> json" where
  "json_float f = (if f64_finite f then JFloat f else JNull)"

fun json_put :: "string \<Rightarrow> json \<Rightarrow> (string \<times> json) list \<Rightarrow> (string \<times> json) list" where
  "json_put k v [] = [(k, v)]"
| "json_put k v ((k', v') # m) =
     (if k < k' then (k, v) # (k', v') # m
      else if k = k' then (k, v) # m
      else (k', v') # json_put k v m)"

fun to_json :: "field_value \<Rightarrow> json res" where
  "to_json Null = Inr JNull"
| "to_json (Bool b) = Inr (JBool b)"
| "to_json (IntV i) = Inr (JInt i)"
| "to_json (Float f) = Inr (json_float f)"
| "to_json (Text s) = Inr (JString s)"
| "to_json (List vs) = map_res JArray (collect_res (\<lambda>v. to_json v) vs)"
| "to_json (Map m) =
     map_res (\<lambda>ps. JObject (foldl (\<lambda>obj (k, j). json_put k j obj) [] ps))
       (collect_res (\<lambda>e. map_res (Pair (fst e)) (to_json (snd e))) m)"
| "to_json (Tensor t) = map_res (\<lambda>fs. JArray (map json_float fs)) (to_f64_vec t)"
| "to_json (Bytes b) = Inl (Unsupported ''cannot represent as json'')"
| "to_json (Image i) = Inl (Unsupported ''cannot represent as json'')"
| "to_json (Custom i) = Inl (Unsupported ''cannot represent as json'')"

text \<open>An object has no key twice, so collecting its entries keeps them as they are.\<close>
fun from_json :: "json \<Rightarrow> field_value" where
  "from_json JNull = Null"
| "from_json (JBool b) = Bool b"
| "from_json (JInt i) = IntV i"
| "from_json (JUint n) = (if n < 2 ^ 63 then IntV (int n) else Float (int_to_f64 (int n)))"
| "from_json (JFloat f) = Float f"
| "from_json (JString s) = Text s"
| "from_json (JArray js) = List (map (\<lambda>j. from_json j) js)"
| "from_json (JObject os) = Map (from_pairs (map (\<lambda>e. (fst e, from_json (snd e))) os))"

section \<open>Objects\<close>

lemma map_of_json_put [simp]: "map_of (json_put k v m) = (map_of m)(k \<mapsto> v)"
  by (induction k v m rule: json_put.induct) auto

lemma json_put_keys:
  "k \<notin> fst ` set m \<Longrightarrow> length (json_put k v m) = Suc (length m) \<and> fst ` set (json_put k v m) = insert k (fst ` set m) \<and>
    (distinct (map fst m) \<longrightarrow> distinct (map fst (json_put k v m)))"
  by (induction k v m rule: json_put.induct) auto

definition json_object :: "(string \<times> json) list \<Rightarrow> (string \<times> json) list \<Rightarrow> (string \<times> json) list" where
  "json_object obj ps = foldl (\<lambda>obj (k, j). json_put k j obj) obj ps"

lemma json_object_distinct:
  "distinct (map fst ps) \<Longrightarrow> fst ` set ps \<inter> fst ` set obj = {} \<Longrightarrow> distinct (map fst obj) \<Longrightarrow>
   distinct (map fst (json_object obj ps)) \<and> length (json_object obj ps) = length obj + length ps \<and>
   map_of (json_object obj ps) = map_of obj ++ map_of (rev ps)"
proof (induction ps arbitrary: obj)
  case (Cons e ps)
  obtain k j where e: "e = (k, j)" by (cases e)
  have "k \<notin> fst ` set obj" using Cons.prems e by auto
  note jp = json_put_keys [OF this, of j]
  have "json_object obj (e # ps) = json_object (json_put k j obj) ps" by (simp add: json_object_def e)
  moreover have "fst ` set ps \<inter> fst ` set (json_put k j obj) = {}" using Cons.prems jp e by auto
  ultimately show ?case using Cons.IH [of "json_put k j obj"] Cons.prems jp e by (simp add: map_add_def fun_eq_iff split: option.split)
qed (simp_all add: json_object_def)

section \<open>Values that JSON can hold\<close>

fun jsonable :: "field_value \<Rightarrow> bool" where
  "jsonable (Float f) = f64_finite f"
| "jsonable (List vs) = list_all (\<lambda>v. jsonable v) vs"
| "jsonable (Map m) = (well_keyed m \<and> list_all (\<lambda>e. jsonable (snd e)) m)"
| "jsonable v = (v \<in> {Null} \<or> (\<exists>b. v = Bool b) \<or> (\<exists>i. v = IntV i) \<or> (\<exists>s. v = Text s))"

lemma collect_res_exists:
  "(\<And>x. x \<in> set xs \<Longrightarrow> \<exists>y. f x = Inr y \<and> P x y) \<Longrightarrow> \<exists>ys. collect_res f xs = Inr ys \<and> list_all2 P xs ys"
proof (induction xs)
  case (Cons x xs)
  then obtain ys where "collect_res f xs = Inr ys" "list_all2 P xs ys" by auto
  moreover obtain y where "f x = Inr y" "P x y" using Cons.prems [of x] by auto
  ultimately show ?case by (intro exI [of _ "y # ys"]) simp
qed simp

lemma map_of_entries: "map_of (map (\<lambda>e. (fst e, f (snd e))) os) k = map_option f (map_of os k)"
  by (induction os) auto

lemma map_round_trip:
  assumes d: "distinct (map fst m)"
    and ps: "list_all2 (\<lambda>e p. fst p = fst e \<and> value_eq (snd e) (from_json (snd p))) m ps"
  shows "value_eq (Map m) (from_json (JObject (json_object [] ps)))"
proof -
  have k: "map fst ps = map fst m" using ps by (induction rule: list_all2_induct) auto
  then have len: "length ps = length m" by (metis length_map)
  have dp: "distinct (map fst ps)" using d k by simp
  from json_object_distinct [OF dp, of "[]"]
  have o: "distinct (map fst (json_object [] ps))" "length (json_object [] ps) = length m"
    "map_of (json_object [] ps) = map_of (rev ps)" using len by auto
  have r: "map_of (rev ps) = map_of ps"
  proof (rule ext)
    show "map_of (rev ps) k = map_of ps k" for k
      using dp map_of_eq_Some_iff [of ps k] map_of_eq_Some_iff [of "rev ps" k]
      by (cases "map_of ps k"; cases "map_of (rev ps) k") (auto simp: rev_map [symmetric])
  qed
  let ?b = "map (\<lambda>e. (fst e, from_json (snd e))) (json_object [] ps)"
  have b: "from_pairs ?b = ?b" using o(1) by (intro from_pairs_distinct) (simp add: comp_def)
  have "list_all (\<lambda>e. case map_of ?b (fst e) of Some u \<Rightarrow> value_eq (snd e) u | None \<Rightarrow> False) m"
  proof -
    have "case map_of ?b (fst e) of Some u \<Rightarrow> value_eq (snd e) u | None \<Rightarrow> False" if e: "e \<in> set m" for e
    proof -
      from e obtain i where i: "i < length m" "e = m ! i" by (auto simp: in_set_conv_nth)
      then have "fst (ps ! i) = fst e" "value_eq (snd e) (from_json (snd (ps ! i)))"
        using list_all2_nthD [OF ps i(1)] by auto
      moreover have "map_of ps (fst (ps ! i)) = Some (snd (ps ! i))"
        using i(1) len dp by (intro map_of_is_SomeI) auto
      ultimately show ?thesis by (simp add: map_of_entries o(3) r)
    qed
    then show ?thesis by (simp add: list_all_iff)
  qed
  then show ?thesis using b o(2) by simp
qed

lemma to_json_from_json: "jsonable v \<Longrightarrow> \<exists>j. to_json v = Inr j \<and> value_eq v (from_json j)"
proof (induction v rule: jsonable.induct)
  case (1 f)
  then show ?case by (auto simp: json_float_def f64_eq_def f64_finite_def f64_nan_def)
next
  case (2 vs)
  then have "\<exists>js. collect_res to_json vs = Inr js \<and> list_all2 (\<lambda>v j. value_eq v (from_json j)) vs js"
    by (intro collect_res_exists) (auto simp: list_all_iff)
  then show ?case by (auto simp: list_all2_map2)
next
  case (3 m)
  have "\<exists>ps. collect_res (\<lambda>e. map_res (Pair (fst e)) (to_json (snd e))) m = Inr ps \<and>
      list_all2 (\<lambda>e p. fst p = fst e \<and> value_eq (snd e) (from_json (snd p))) m ps"
  proof (rule collect_res_exists)
    fix e assume e: "e \<in> set m"
    have "jsonable (snd e)" using 3(2) e by (simp add: list_all_iff)
    then have "\<exists>j. to_json (snd e) = Inr j \<and> value_eq (snd e) (from_json j)" by (rule 3(1) [OF e])
    then obtain j where "to_json (snd e) = Inr j" "value_eq (snd e) (from_json j)"
      by blast
    then show "\<exists>y. map_res (Pair (fst e)) (to_json (snd e)) = Inr y \<and>
        fst y = fst e \<and> value_eq (snd e) (from_json (snd y))" by simp
  qed
  then obtain ps where ps: "to_json (Map m) = Inr (JObject (json_object [] ps))"
      "list_all2 (\<lambda>e p. fst p = fst e \<and> value_eq (snd e) (from_json (snd p))) m ps"
    by (auto simp: json_object_def)
  moreover have "distinct (map fst m)" using 3(2) by (simp add: well_keyed_def keys_def)
  ultimately show ?case using map_round_trip by blast
qed auto

section \<open>Properties\<close>

text \<open>A value that JSON can hold (no bytes, tensors or images, no infinite or undefined float,
  no key twice) converts, and what the conversion back gives equals it: integers stay
  integers, whole floats stay floats, and the entries of a map are all there.\<close>
theorem json_round_trip:
  assumes "jsonable v"
  shows "\<exists>j. to_json v = Inr j \<and> value_eq v (from_json j)"
  using assms by (rule to_json_from_json)

theorem json_round_trip_witness:
  "\<exists>j. to_json (Map [(''b'', IntV 1), (''a'', List [Null, Text ''x''])]) = Inr j \<and>
     value_eq (Map [(''b'', IntV 1), (''a'', List [Null, Text ''x''])]) (from_json j)"
  by (rule json_round_trip) (simp add: well_keyed_def keys_def)

end
