(* ===== verification/Codecs.thy ===== *)
theory Codecs
  imports Json Npy Tenbin
begin

text \<open>
  \<^verbatim>\<open>webdataset/src/decode.rs\<close> and \<^verbatim>\<open>encode.rs\<close>: from the bytes of a field to its value
  and back.  The formats of other crates (gzip, zip, JSON, MessagePack, CBOR, images)
  are the parameter \<open>codecs\<close>; NumPy arrays, tenbin buffers, text and integers are decoded by
  the code modelled here.  A build without an optional format is a codec that fails.
\<close>

record codecs =
  gunzip :: "bytes \<Rightarrow> bytes res"
  gzip :: "bytes \<Rightarrow> bytes"
  json_read :: "bytes \<Rightarrow> json res"
  json_write :: "json \<Rightarrow> bytes res"
  zip_read :: "bytes \<Rightarrow> (string \<times> bytes) res list res"
  zip_write :: "(string \<times> bytes) list \<Rightarrow> bytes res"
  msgpack_read :: "bytes \<Rightarrow> json res"
  msgpack_write :: "json \<Rightarrow> bytes res"
  cbor_read :: "bytes \<Rightarrow> json res"
  cbor_write :: "json \<Rightarrow> bytes res"
  image_write :: "string \<Rightarrow> field_value \<Rightarrow> bytes res"

text \<open>\<^verbatim>\<open>map_err(|e| Error::decode(key, e))\<close>; a panic is not an error value.\<close>

definition decode_err :: "string \<Rightarrow> 'a res \<Rightarrow> 'a res" where
  "decode_err key r =
     (case r of Inl (Panic m) \<Rightarrow> Inl (Panic m) | Inl e \<Rightarrow> Inl (Decode key []) | Inr x \<Rightarrow> Inr x)"

definition encode_err :: "string \<Rightarrow> 'a res \<Rightarrow> 'a res" where
  "encode_err ext r =
     (case r of Inl (Panic m) \<Rightarrow> Inl (Panic m) | Inl e \<Rightarrow> Inl (Encode ext []) | Inr x \<Rightarrow> Inr x)"

section \<open>Which format an extension names\<close>

definition last_extension :: "string \<Rightarrow> string" where
  "last_extension key = to_ascii_lowercase (last (split_on ''.'' key))"

datatype format =
  FText | FMarkup | FInteger | FJson | FNpy | FNpz | FTen | FMsgpack | FCbor | FPickle | FOther

definition format_of :: "string \<Rightarrow> format" where
  "format_of ext =
     (if ext \<in> set [''txt'', ''text'', ''transcript''] then FText
      else if ext \<in> set [''html'', ''htm''] then FMarkup
      else if ext \<in> set [''cls'', ''cls2'', ''class'', ''count'', ''index'', ''inx'', ''id''] then FInteger
      else if ext \<in> set [''json'', ''jsn''] then FJson
      else if ext = ''npy'' then FNpy
      else if ext = ''npz'' then FNpz
      else if ext \<in> set [''ten'', ''tb'', ''tenbin''] then FTen
      else if ext \<in> set [''mp'', ''msg'', ''msgpack''] then FMsgpack
      else if ext = ''cbor'' then FCbor
      else if ext \<in> set [''pkl'', ''pickle'', ''pyd'', ''pth''] then FPickle
      else FOther)"

section \<open>Decoding\<close>

datatype decoded = Skipped | Decoded field_value | Rewritten string bytes

type_synonym decode_handler = "string \<Rightarrow> bytes \<Rightarrow> decoded res"

definition gz_key :: "string \<Rightarrow> string option" where
  "gz_key key =
     (case strip_suffix ''.gz'' key of
        Some k \<Rightarrow> Some k
      | None \<Rightarrow> if key = ''gz'' then Some [] else None)"

definition gz_filter :: "codecs \<Rightarrow> decode_handler" where
  "gz_filter cd key bs =
     (case gz_key key of
        None \<Rightarrow> Inr Skipped
      | Some stripped \<Rightarrow> map_res (Rewritten stripped) (decode_err key (gunzip cd bs)))"

text \<open>\<^verbatim>\<open>trim_end_matches(".npy")\<close> removes the suffix as often as it is there.\<close>
function trim_npy :: "string \<Rightarrow> string" where
  "trim_npy s = (case strip_suffix ''.npy'' s of Some r \<Rightarrow> trim_npy r | None \<Rightarrow> s)"
  by pat_completeness auto
termination
  by (relation "measure length") (auto simp: strip_suffix_Some_iff)

declare trim_npy.simps [simp del]

fun npz_fields :: "string \<Rightarrow> (string \<times> bytes) res list \<Rightarrow> field_value fields \<Rightarrow> field_value fields res" where
  "npz_fields key [] m = Inr m"
| "npz_fields key (entry # es) m =
     and_then (decode_err key entry)
       (\<lambda>(name, body). and_then (decode_err key (from_npy body))
          (\<lambda>t. npz_fields key es (put (trim_npy name) (Tensor t) m)))"

definition decode_npz :: "codecs \<Rightarrow> string \<Rightarrow> bytes \<Rightarrow> field_value res" where
  "decode_npz cd key bs =
     and_then (decode_err key (zip_read cd bs)) (\<lambda>es. map_res Map (npz_fields key es []))"

definition decode_integer :: "string \<Rightarrow> bytes \<Rightarrow> field_value res" where
  "decode_integer key bs =
     and_then (decode_err key (from_utf8 bs))
       (\<lambda>text. map_res IntV (ok_or (Decode key []) (parse_int 64 (trim text))))"

definition basic_handlers :: "codecs \<Rightarrow> decode_handler" where
  "basic_handlers cd key bs =
     (case format_of (last_extension key) of
        FText \<Rightarrow> map_res (\<lambda>s. Decoded (Text s)) (decode_err key (from_utf8 bs))
      | FInteger \<Rightarrow> map_res Decoded (decode_integer key bs)
      | FJson \<Rightarrow> map_res (\<lambda>j. Decoded (from_json j)) (decode_err key (json_read cd bs))
      | FNpy \<Rightarrow> map_res (\<lambda>t. Decoded (Tensor t)) (decode_err key (from_npy bs))
      | FNpz \<Rightarrow> map_res Decoded (decode_npz cd key bs)
      | FTen \<Rightarrow> map_res (\<lambda>ts. Decoded (List (map Tensor ts))) (decode_err key (decode_buffer bs))
      | FMsgpack \<Rightarrow> map_res (\<lambda>j. Decoded (from_json j)) (decode_err key (msgpack_read cd bs))
      | FCbor \<Rightarrow> map_res (\<lambda>j. Decoded (from_json j)) (decode_err key (cbor_read cd bs))
      | FPickle \<Rightarrow> Inl (Unsupported ''Python pickles are not decoded'')
      | _ \<Rightarrow> Inr Skipped)"

text \<open>\<^verbatim>\<open>str::split_whitespace\<close>: the maximal pieces free of white space.\<close>

fun word_len :: "string \<Rightarrow> nat" where
  "word_len [] = 0"
| "word_len (c # cs) = (if list_ex (\<lambda>p. prefix p (c # cs)) ws_seqs then 0 else Suc (word_len cs))"

lemma trim_start_no_ws: "trim_start s \<noteq> [] \<Longrightarrow> 0 < word_len (trim_start s)"
proof -
  assume ne: "trim_start s \<noteq> []"
  have "List.find (\<lambda>p. p \<noteq> [] \<and> prefix p (drop_seqs seqs s)) seqs = None" for seqs and s :: string
  proof (induction seqs s rule: drop_seqs.induct)
    case (1 seqs s)
    then show ?case by (subst drop_seqs.simps) (auto split: option.split)
  qed
  from this [of ws_seqs s] have "list_all (\<lambda>p. \<not> prefix p (trim_start s)) ws_seqs"
    by (auto simp: find_None_iff list_all_iff trim_start_def dest: ws_seqs_hd)
  then show ?thesis using ne by (cases "trim_start s") (auto simp: list_all_iff list_ex_iff)
qed

lemma length_trim_start: "length (trim_start s) \<le> length s"
proof -
  have "length (drop_seqs seqs s) \<le> length s" for seqs and s :: string
  proof (induction seqs s rule: drop_seqs.induct)
    case (1 seqs s)
    then show ?case by (subst drop_seqs.simps) (force split: option.split)
  qed
  then show ?thesis by (simp add: trim_start_def)
qed

function split_whitespace :: "string \<Rightarrow> string list" where
  "split_whitespace s =
     (let t = trim_start s
      in if t = [] then [] else take (word_len t) t # split_whitespace (drop (word_len t) t))"
  by pat_completeness auto
termination
proof (relation "measure length", goal_cases)
  case (2 s t)
  then have "length t - word_len t < length t" using trim_start_no_ws [of s] by simp
  then show ?case using 2 length_trim_start [of s] by simp
qed simp

declare split_whitespace.simps [simp del]

record extension_handler =
  extensions :: "string list list"
  eh_decode :: "bytes \<Rightarrow> field_value res"

definition extension_handler_new :: "string \<Rightarrow> (bytes \<Rightarrow> field_value res) \<Rightarrow> extension_handler" where
  "extension_handler_new exts f =
     \<lparr>extensions = map (split_on ''.'') (split_whitespace (to_ascii_lowercase exts)), eh_decode = f\<rparr>"

definition extension_decode :: "extension_handler \<Rightarrow> decode_handler" where
  "extension_decode eh key bs =
     (if list_ex (\<lambda>target. ends_with target (split_on ''.'' (to_ascii_lowercase key))) (extensions eh)
      then map_res Decoded (eh_decode eh bs)
      else Inr Skipped)"

section \<open>The chain of handlers\<close>

record decoder =
  handlers :: "decode_handler list"
  only :: "string list option"
  partial :: bool

definition decoder_new :: "codecs \<Rightarrow> decode_handler list \<Rightarrow> decoder" where
  "decoder_new cd hs = \<lparr>handlers = gz_filter cd # hs @ [basic_handlers cd], only = None, partial = False\<rparr>"

definition decoder_raw :: "decode_handler list \<Rightarrow> decoder" where
  "decoder_raw hs = \<lparr>handlers = hs, only = None, partial = False\<rparr>"

definition decoder_with :: "decode_handler \<Rightarrow> decoder \<Rightarrow> decoder" where
  "decoder_with h d =
     (let k = length (handlers d) - 1
      in d\<lparr>handlers := take k (handlers d) @ h # drop k (handlers d)\<rparr>)"

definition decoder_only :: "string list \<Rightarrow> decoder \<Rightarrow> decoder" where
  "decoder_only fs d = d\<lparr>only := Some fs\<rparr>"

definition decoder_partial :: "bool \<Rightarrow> decoder \<Rightarrow> decoder" where
  "decoder_partial b d = d\<lparr>partial := b\<rparr>"

text \<open>The first handler that does not skip.\<close>
fun try_handlers :: "decode_handler list \<Rightarrow> decode_handler" where
  "try_handlers [] key bs = Inr Skipped"
| "try_handlers (h # hs) key bs =
     (case h key bs of
        Inl e \<Rightarrow> Inl e
      | Inr Skipped \<Rightarrow> try_handlers hs key bs
      | Inr r \<Rightarrow> Inr r)"

fun rewrite_loop :: "nat \<Rightarrow> decode_handler list \<Rightarrow> string \<Rightarrow> bytes \<Rightarrow> field_value res" where
  "rewrite_loop 0 hs key bs = Inl (Decode key ''handlers kept rewriting the field'')"
| "rewrite_loop (Suc n) hs key bs =
     (case try_handlers hs key bs of
        Inl e \<Rightarrow> Inl e
      | Inr Skipped \<Rightarrow> Inr (Bytes bs)
      | Inr (Decoded v) \<Rightarrow> Inr v
      | Inr (Rewritten k d) \<Rightarrow> rewrite_loop n hs k d)"

definition decode_field :: "decoder \<Rightarrow> string \<Rightarrow> bytes \<Rightarrow> field_value res" where
  "decode_field d key bs = rewrite_loop 16 (handlers d) key bs"

definition decode_metadata :: "field_value \<Rightarrow> field_value" where
  "decode_metadata v =
     (case v of
        Bytes bs \<Rightarrow> (case from_utf8 bs of Inr s \<Rightarrow> Text s | Inl e \<Rightarrow> Bytes bs)
      | _ \<Rightarrow> v)"

definition decode_entry :: "decoder \<Rightarrow> string \<Rightarrow> field_value \<Rightarrow> field_value res" where
  "decode_entry d name v =
     (if is_meta name then Inr (decode_metadata v)
      else if (case only d of Some fs \<Rightarrow> name \<notin> set fs | None \<Rightarrow> False) then Inr v
      else
        (case v of
           Bytes bs \<Rightarrow> decode_field d name bs
         | _ \<Rightarrow> if partial d then Inr v else Inl (Decode name ''expected raw bytes'')))"

fun decode_entries :: "decoder \<Rightarrow> sample \<Rightarrow> sample \<Rightarrow> sample res" where
  "decode_entries d [] out = Inr out"
| "decode_entries d ((name, v) # fs) out =
     and_then (decode_entry d name v) (\<lambda>w. decode_entries d fs (sample_insert name w out))"

definition decode_sample :: "decoder \<Rightarrow> sample \<Rightarrow> sample res" where
  "decode_sample d s = decode_entries d s []"

section \<open>Encoding\<close>

fun npz_members :: "string \<Rightarrow> field_value fields \<Rightarrow> (string \<times> bytes) list res" where
  "npz_members ext [] = Inr []"
| "npz_members ext ((name, v) # es) =
     and_then (ok_or (Encode ext ''not a tensor'') (value_tensor v))
       (\<lambda>t. map_res (Cons (name @ ''.npy'', to_npy t)) (npz_members ext es))"

definition encode_npz :: "codecs \<Rightarrow> string \<Rightarrow> field_value \<Rightarrow> bytes res" where
  "encode_npz cd ext v =
     and_then (ok_or (Encode ext ''expected a map of tensors'') (value_map v))
       (\<lambda>m. and_then (npz_members ext m) (\<lambda>es. encode_err ext (zip_write cd es)))"

definition encode_ten :: "string \<Rightarrow> field_value \<Rightarrow> bytes res" where
  "encode_ten ext v =
     and_then
       (case v of
          Tensor t \<Rightarrow> Inr [t]
        | List vs \<Rightarrow> collect_res (\<lambda>x. ok_or (Encode ext ''expected tensors'') (value_tensor x)) vs
        | _ \<Rightarrow> Inl (Encode ext ''expected a tensor or a list of tensors''))
       encode_buffer"

definition encode_fallback :: "codecs \<Rightarrow> string \<Rightarrow> field_value \<Rightarrow> bytes res" where
  "encode_fallback cd ext v =
     (case image_write cd ext v of
        Inr bs \<Rightarrow> Inr bs
      | Inl (Panic m) \<Rightarrow> Inl (Panic m)
      | Inl e \<Rightarrow>
          (case v of
             Text s \<Rightarrow> Inr (as_bytes s)
           | _ \<Rightarrow> Inl (Encode ext ''no encoder for this extension'')))"

definition encode_value :: "codecs \<Rightarrow> string \<Rightarrow> field_value \<Rightarrow> bytes res" where
  "encode_value cd ext v =
     (case v of
        Bytes bs \<Rightarrow> Inr bs
      | _ \<Rightarrow>
          (case format_of (last_extension ext) of
             FText \<Rightarrow> map_res as_bytes (ok_or (Encode ext ''expected text'') (value_str v))
           | FMarkup \<Rightarrow> map_res as_bytes (ok_or (Encode ext ''expected text'') (value_str v))
           | FInteger \<Rightarrow>
               map_res (\<lambda>n. as_bytes (show_int n)) (ok_or (Encode ext ''expected an integer'') (value_i64 v))
           | FJson \<Rightarrow> and_then (to_json v) (\<lambda>j. encode_err ext (json_write cd j))
           | FNpy \<Rightarrow> map_res to_npy (ok_or (Encode ext ''expected a tensor'') (value_tensor v))
           | FNpz \<Rightarrow> encode_npz cd ext v
           | FTen \<Rightarrow> encode_ten ext v
           | FMsgpack \<Rightarrow> and_then (to_json v) (\<lambda>j. encode_err ext (msgpack_write cd j))
           | FCbor \<Rightarrow> and_then (to_json v) (\<lambda>j. encode_err ext (cbor_write cd j))
           | FPickle \<Rightarrow> Inl (Unsupported ''Python pickles are not written'')
           | FOther \<Rightarrow> encode_fallback cd ext v))"

definition default_encode :: "codecs \<Rightarrow> bool \<Rightarrow> string \<Rightarrow> field_value \<Rightarrow> bytes res" where
  "default_encode cd compress_gz ext v =
     (if starts_with ''_'' ext then
        (case v of
           Text s \<Rightarrow> Inr (as_bytes s)
         | Bytes bs \<Rightarrow> Inr bs
         | _ \<Rightarrow> Inl (Encode ext ''metadata must be text''))
      else
        (case (if compress_gz then strip_suffix ''.gz'' ext else None) of
           Some inner_ext \<Rightarrow> map_res (gzip cd) (encode_value cd inner_ext v)
         | None \<Rightarrow> encode_value cd ext v))"

end
