(* ===== verification/Codecs_Spec.thy ===== *)
theory Codecs_Spec
  imports Codecs
begin

text \<open>
  What decoding and encoding of fields promise each other: the values an extension
  can hold, their round trip through the default encoder and decoder, and the types
  of what the decoder returns.
\<close>

section \<open>Extensions\<close>

lemma split_on_append:
  "split_on [c] (s @ c # r) = split_on [c] s @ split_on [c] r"
proof (induction "length s" arbitrary: s rule: less_induct)
  case less
  show ?case
  proof (cases "c \<in> set s")
    case True
    then obtain a b where s: "s = a @ c # b" "c \<notin> set a" by (meson split_list_first)
    then have "split_on [c] (b @ c # r) = split_on [c] b @ split_on [c] r" using less by simp
    then show ?thesis using s by (simp add: split_on_char)
  qed (simp add: split_on_char split_on_absent)
qed

lemma last_split_on: "c \<notin> set e \<Longrightarrow> last (split_on [c] (s @ c # e)) = e"
  by (simp add: split_on_append split_on_absent)

lemma last_extension_gz: "gz_key key \<noteq> None \<Longrightarrow> last_extension key = ''gz''"
proof -
  assume "gz_key key \<noteq> None"
  then have "key = ''gz'' \<or> (\<exists>r. key = r @ ''.gz'')"
    by (auto simp: gz_key_def strip_suffix_Some_iff split: option.splits if_splits)
  then have "last (split_on ''.'' key) = ''gz''"
    using last_split_on [of "CHR ''.''" "''gz''"] by (auto simp: split_on_absent)
  then show ?thesis by (simp add: last_extension_def to_ascii_lowercase_def ascii_lower_def Let_def)
qed

lemma format_gz: "gz_key key \<noteq> None \<Longrightarrow> format_of (last_extension key) = FOther"
  by (simp add: last_extension_gz format_of_def)

lemma gz_key_suffix [simp]: "gz_key (ext @ ''.gz'') = Some ext"
  by (simp add: gz_key_def strip_suffix_def)

lemma gz_key_None: "gz_key ext = None \<Longrightarrow> strip_suffix ''.gz'' ext = None"
  by (simp add: gz_key_def split: option.splits)

section \<open>Steps of the default chain\<close>

lemma decode_plain:
  "gz_key key = None \<Longrightarrow> rewrite_loop (Suc n) (handlers (decoder_new cd [])) key bs =
    (case basic_handlers cd key bs of
       Inl e \<Rightarrow> Inl e
     | Inr Skipped \<Rightarrow> Inr (Bytes bs)
     | Inr (Decoded v) \<Rightarrow> Inr v
     | Inr (Rewritten k d) \<Rightarrow> rewrite_loop n (handlers (decoder_new cd [])) k d)"
  by (simp add: decoder_new_def gz_filter_def split: sum.split decoded.split)

lemma decode_gz:
  "gz_key key = Some k \<Longrightarrow> gunzip cd bs = Inr d \<Longrightarrow>
   rewrite_loop (Suc n) (handlers (decoder_new cd [])) key bs =
     rewrite_loop n (handlers (decoder_new cd [])) k d"
  by (simp add: decoder_new_def gz_filter_def decode_err_def)

lemma decode_gz_fails:
  "gz_key key = Some k \<Longrightarrow> gunzip cd bs = Inl e \<Longrightarrow>
   \<exists>e'. rewrite_loop (Suc n) (handlers (decoder_new cd [])) key bs = Inl e'"
  by (cases e) (simp_all add: decoder_new_def gz_filter_def decode_err_def)

lemma basic_not_rewritten: "basic_handlers cd key bs \<noteq> Inr (Rewritten k d)"
  by (cases "format_of (last_extension key)")
     (auto simp: basic_handlers_def map_res_def split: sum.splits)

section \<open>The values an extension can hold\<close>

definition codable :: "string \<Rightarrow> field_value \<Rightarrow> bool" where
  "codable ext v =
     (case format_of (last_extension ext) of
        FText \<Rightarrow> (case v of Text s \<Rightarrow> from_utf8 (as_bytes s) = Inr s | _ \<Rightarrow> False)
      | FInteger \<Rightarrow> (case v of IntV i \<Rightarrow> - (2 ^ 63) \<le> i \<and> i < 2 ^ 63 | _ \<Rightarrow> False)
      | FNpy \<Rightarrow>
          (case v of
             Tensor t \<Rightarrow> tensor_ok t \<and> list_all (\<lambda>d. d < 2 ^ 64) (shape t) \<and> length (npy_header t) < 2 ^ 16
           | _ \<Rightarrow> False)
      | FTen \<Rightarrow>
          (case v of
             List vs \<Rightarrow>
               list_all (\<lambda>x. case x of Tensor t \<Rightarrow> item_ok \<lparr>item_tensor = t, info = []\<rparr> | _ \<Rightarrow> False) vs
           | _ \<Rightarrow> False)
      | _ \<Rightarrow> False)"

lemma codable_not_gz: "codable ext v \<Longrightarrow> gz_key ext = None"
  using format_gz [of ext] by (cases "gz_key ext") (auto simp: codable_def)

lemma codable_not_Nil: "codable ext v \<Longrightarrow> ext \<noteq> []"
proof
  assume "codable ext v" "ext = []"
  moreover have "last_extension [] = []"
    by (simp add: last_extension_def split_on_absent to_ascii_lowercase_def)
  ultimately show False by (simp add: codable_def format_of_def)
qed

lemma show_int_solid: "c \<in> set (show_int i) \<Longrightarrow> solid c"
proof -
  have d: "is_ascii_digit c \<Longrightarrow> solid c" for c
    by (auto simp: is_ascii_digit_def solid_def Let_def)
  then show "c \<in> set (show_int i) \<Longrightarrow> solid c"
    using show_nat_digits by (auto simp: show_int_def solid_def split: if_splits)
qed

lemma show_int_not_Nil: "show_int i \<noteq> []"
  by (simp add: show_int_def)

lemma decode_integer_show:
  assumes "- (2 ^ 63) \<le> i" "i < 2 ^ 63"
  shows "decode_integer key (as_bytes (show_int i)) = Inr (IntV i)"
proof -
  have "\<forall>c\<in>set (show_int i). (of_char c :: nat) < 128"
    using show_int_solid by (auto simp: solid_def Let_def)
  moreover have "trim (show_int i) = show_int i"
    using show_int_solid [of _ i] show_int_not_Nil [of i]
    by (intro trim_solid) (auto intro: hd_in_set last_in_set)
  moreover have "parse_int 64 (show_int i) = Some i"
    using assms by (intro parse_int_show_int) auto
  ultimately show ?thesis
    by (simp add: decode_integer_def from_utf8_ascii decode_err_def)
qed

lemma tensors_round:
  assumes "list_all (\<lambda>x. case x of Tensor t \<Rightarrow> item_ok \<lparr>item_tensor = t, info = []\<rparr> | _ \<Rightarrow> False) vs"
  shows "\<exists>ts. vs = map Tensor ts \<and> list_all item_ok (unlabelled ts)"
  using assms
proof (induction vs)
  case (Cons x vs)
  then obtain ts where ts: "vs = map Tensor ts" "list_all item_ok (unlabelled ts)" by auto
  from Cons.prems obtain t where "x = Tensor t" "item_ok \<lparr>item_tensor = t, info = []\<rparr>"
    by (auto split: field_value.splits)
  then show ?case using ts by (intro exI [of _ "t # ts"]) (simp add: unlabelled_def)
qed (simp add: unlabelled_def)

lemma encode_ten_round:
  assumes "list_all item_ok (unlabelled ts)"
  shows "\<exists>bs. encode_ten ext (List (map Tensor ts)) = Inr bs \<and> decode_buffer bs = Inr ts"
proof -
  obtain bs where bs: "encode_labelled (unlabelled ts) = Inr bs" "decode_labelled bs = Inr (unlabelled ts)"
    using decode_encode_labelled [OF assms] by blast
  have "collect_res (\<lambda>x. ok_or (Encode ext ''expected tensors'') (value_tensor x)) (map Tensor ts) = Inr ts"
    by (simp add: collect_res_Inr_iff list_all2_map1 value_tensor_def list_all2_same)
  moreover have "map item_tensor (unlabelled ts) = ts" by (induction ts) (simp_all add: unlabelled_def)
  ultimately show ?thesis using bs by (simp add: encode_ten_def encode_buffer_def decode_buffer_def)
qed

lemma codable_round:
  assumes "codable ext v"
  shows "\<exists>bs. encode_value cd ext v = Inr bs \<and> basic_handlers cd ext bs = Inr (Decoded v)"
proof (cases "format_of (last_extension ext)")
  case FText
  then obtain s where "v = Text s" "from_utf8 (as_bytes s) = Inr s"
    using assms by (auto simp: codable_def split: field_value.splits)
  then show ?thesis using FText
    by (simp add: encode_value_def basic_handlers_def value_str_def decode_err_def)
next
  case FInteger
  then obtain i where "v = IntV i" "- (2 ^ 63) \<le> i" "i < 2 ^ 63"
    using assms by (auto simp: codable_def split: field_value.splits)
  then show ?thesis using FInteger
    by (simp add: encode_value_def basic_handlers_def value_i64_def decode_integer_show)
next
  case FNpy
  then obtain t where "v = Tensor t" "tensor_ok t" "\<forall>d\<in>set (shape t). d < 2 ^ 64" "length (npy_header t) < 2 ^ 16"
    using assms by (auto simp: codable_def list_all_iff split: field_value.splits)
  then show ?thesis using FNpy
    by (simp add: encode_value_def basic_handlers_def value_tensor_def from_npy_to_npy npy_body_def
        tensor_ok_def tensor_new_def decode_err_def Let_def)
next
  case FTen
  then obtain vs where "v = List vs"
    "list_all (\<lambda>x. case x of Tensor t \<Rightarrow> item_ok \<lparr>item_tensor = t, info = []\<rparr> | _ \<Rightarrow> False) vs"
    using assms by (auto simp: codable_def split: field_value.splits)
  with tensors_round obtain ts where ts: "v = List (map Tensor ts)" "list_all item_ok (unlabelled ts)" by blast
  then show ?thesis using FTen encode_ten_round [OF ts(2), of ext]
    by (auto simp: encode_value_def basic_handlers_def decode_err_def)
qed (use assms in \<open>auto simp: codable_def\<close>)

section \<open>What the default chain returns\<close>

text \<open>The key without its compression suffixes.\<close>

function base_key :: "string \<Rightarrow> string" where
  "base_key key = (case gz_key key of Some k \<Rightarrow> base_key k | None \<Rightarrow> key)"
  by pat_completeness auto
termination
  by (relation "measure length") (auto simp: gz_key_def strip_suffix_Some_iff split: option.splits if_splits)

declare base_key.simps [simp del]

definition tensor_list :: "field_value list \<Rightarrow> bool" where
  "tensor_list vs = list_all (\<lambda>x. \<exists>t. x = Tensor t) vs"

text \<open>The type of value each format stands for.\<close>
definition typed :: "format \<Rightarrow> field_value \<Rightarrow> bool" where
  "typed fm v =
     (case fm of
        FText \<Rightarrow> \<exists>s. v = Text s
      | FInteger \<Rightarrow> \<exists>i. v = IntV i \<and> - (2 ^ 63) \<le> i \<and> i < 2 ^ 63
      | FNpy \<Rightarrow> \<exists>t. v = Tensor t \<and> tensor_ok t
      | FNpz \<Rightarrow> \<exists>m. v = Map m \<and> tensor_list (map snd m)
      | FTen \<Rightarrow> \<exists>vs. v = List vs \<and> tensor_list vs
      | FJson \<Rightarrow> \<exists>j. v = from_json j
      | FMsgpack \<Rightarrow> \<exists>j. v = from_json j
      | FCbor \<Rightarrow> \<exists>j. v = from_json j
      | FPickle \<Rightarrow> False
      | _ \<Rightarrow> \<exists>bs. v = Bytes bs)"

lemma decode_err_Inr [simp]: "decode_err key r = Inr x \<longleftrightarrow> r = Inr x"
  by (auto simp: decode_err_def split: sum.splits error.splits)

lemma parse_int_range: "parse_int 64 s = Some i \<Longrightarrow> - (2 ^ 63) \<le> i \<and> i < 2 ^ 63"
  by (auto simp: parse_int_def split: list.splits option.splits if_splits)

lemma tensor_list_put:
  "tensor_list (map snd m) \<Longrightarrow> tensor_list (map snd (put k (Tensor t) m))"
  by (induction k "Tensor t" m rule: put.induct) (auto simp: tensor_list_def)

lemma npz_fields_tensors:
  "npz_fields key es m = Inr m' \<Longrightarrow> tensor_list (map snd m) \<Longrightarrow> tensor_list (map snd m')"
proof (induction es arbitrary: m)
  case (Cons e es)
  then show ?case by (auto simp: and_then_Inr_iff intro: tensor_list_put)
qed simp

lemma from_npy_ok: "from_npy bs = Inr t \<Longrightarrow> tensor_ok t"
  by (auto simp: from_npy_def npy_body_def and_then_Inr_iff tensor_new_Inr_iff Let_def
      split: if_splits)

lemma basic_typed:
  assumes "basic_handlers cd key bs = Inr (Decoded v)"
  shows "typed (format_of (last_extension key)) v"
  using assms from_npy_ok npz_fields_tensors [where m = "[]"]
  by (cases "format_of (last_extension key)")
     (auto simp: basic_handlers_def typed_def map_res_Inr_iff decode_integer_def decode_npz_def
       and_then_Inr_iff ok_or_Inr_iff tensor_list_def list_all_iff dest: parse_int_range)

lemma basic_skips:
  "basic_handlers cd key bs = Inr Skipped \<Longrightarrow> format_of (last_extension key) \<in> {FMarkup, FOther}"
  by (cases "format_of (last_extension key)") (auto simp: basic_handlers_def map_res_Inr_iff)

lemma rewrite_typed:
  "rewrite_loop n (handlers (decoder_new cd [])) key bs = Inr v \<Longrightarrow>
   typed (format_of (last_extension (base_key key))) v"
proof (induction n arbitrary: key bs)
  case (Suc n)
  show ?case
  proof (cases "gz_key key")
    case None
    then have b: "base_key key = key" by (subst base_key.simps) simp
    show ?thesis
    proof (cases "basic_handlers cd key bs")
      case (Inr d)
      then show ?thesis using Suc.prems decode_plain [OF None] b basic_typed basic_skips basic_not_rewritten
        by (cases d) (fastforce simp: typed_def)+
    qed (use Suc.prems decode_plain [OF None] in simp)
  next
    case (Some k)
    then have b: "base_key key = base_key k" by (subst base_key.simps) simp
    show ?thesis
    proof (cases "gunzip cd bs")
      case (Inl e)
      then obtain e' where "rewrite_loop (Suc n) (handlers (decoder_new cd [])) key bs = Inl e'"
        using decode_gz_fails [OF Some Inl] by blast
      then show ?thesis using Suc.prems by (simp del: rewrite_loop.simps)
    next
      case (Inr d)
      then show ?thesis using Suc decode_gz [OF Some Inr] b by simp
    qed
  qed
qed simp

section \<open>Whole samples\<close>

lemma decode_entries_keys:
  "decode_entries d fs out = Inr s \<Longrightarrow> distinct (keys out @ keys fs) \<Longrightarrow>
   keys s = keys out @ keys fs \<and> (\<forall>k. k \<in> set (keys out) \<longrightarrow> get k s = get k out) \<and>
   list_all (\<lambda>(k, v). \<exists>w. decode_entry d k v = Inr w \<and> get k s = Some w) fs"
proof (induction fs arbitrary: out)
  case (Cons e fs)
  obtain k v where e: "e = (k, v)" by (cases e)
  with Cons.prems obtain w where w: "decode_entry d k v = Inr w" "decode_entries d fs (put k w out) = Inr s"
    by (auto simp: and_then_Inr_iff sample_insert_def)
  have "get k out = None" using Cons.prems(2) e by (auto simp: get_None_iff)
  then have ko: "keys (put k w out) = keys out @ [k]" by (simp add: keys_put)
  from Cons.IH [OF w(2)] Cons.prems(2) e ko show ?case
    using w(1) by (auto simp: get_put list_all_iff)
qed simp

section \<open>Properties\<close>

text \<open>C19: what the default encoder stores the default decoder reads back: for text, integers,
  arrays and lists of arrays under the extensions that stand for them, with or without a
  \<^verbatim>\<open>.gz\<close> behind it, encoding succeeds and decoding the bytes gives the value.\<close>
theorem codec_round_trip:
  assumes gz: "\<And>bs. gunzip cd (gzip cd bs) = Inr bs"
    and ok: "codable ext v" and meta: "\<not> starts_with ''_'' ext"
  shows "\<exists>bs zs. default_encode cd True ext v = Inr bs \<and> decode_field (decoder_new cd []) ext bs = Inr v \<and>
    default_encode cd True (ext @ ''.gz'') v = Inr zs \<and>
    decode_field (decoder_new cd []) (ext @ ''.gz'') zs = Inr v"
proof -
  obtain bs where bs: "encode_value cd ext v = Inr bs" "basic_handlers cd ext bs = Inr (Decoded v)"
    using codable_round [OF ok] by blast
  note none = codable_not_gz [OF ok]
  have m: "\<not> starts_with ''_'' (ext @ ''.gz'')"
    using meta codable_not_Nil [OF ok] by (cases ext) (auto simp: starts_with_prefix)
  have s: "strip_suffix ''.gz'' (ext @ ''.gz'') = Some ext" by (simp add: strip_suffix_def)
  have plain: "rewrite_loop (Suc n) (handlers (decoder_new cd [])) ext bs = Inr v" for n
    using decode_plain [OF none] bs(2) by (simp del: rewrite_loop.simps)
  have d1: "decode_field (decoder_new cd []) ext bs = Inr v"
    using plain [of 15] by (simp add: decode_field_def del: rewrite_loop.simps)
  have d2: "decode_field (decoder_new cd []) (ext @ ''.gz'') (gzip cd bs) = Inr v"
    using plain [of 14] decode_gz [OF gz_key_suffix gz, of 15 ext bs]
    by (simp add: decode_field_def del: rewrite_loop.simps)
  show ?thesis
    using bs(1) meta m gz_key_None [OF none] s d1 d2
    by (intro exI [of _ bs] exI [of _ "gzip cd bs"]) (simp add: default_encode_def)
qed

text \<open>A compressor that stores its input, to have one.\<close>

definition demo_codecs :: codecs where
  "demo_codecs =
     \<lparr>gunzip = Inr, gzip = id, json_read = (\<lambda>b. Inl (Json [])), json_write = (\<lambda>j. Inl (Json [])),
      zip_read = (\<lambda>b. Inr [Inr (''a.npy.npy'', to_npy \<lparr>dtype = U8, shape = [1], data = [7]\<rparr>)]),
      zip_write = (\<lambda>es. Inr []), msgpack_read = (\<lambda>b. Inl (Json [])), msgpack_write = (\<lambda>j. Inl (Json [])),
      cbor_read = (\<lambda>b. Inl (Json [])), cbor_write = (\<lambda>j. Inl (Json [])),
      image_write = (\<lambda>e v. Inl (Json []))\<rparr>"

theorem codec_round_trip_witness:
  "\<exists>bs zs. default_encode demo_codecs True ''cls'' (IntV 7) = Inr bs \<and>
    decode_field (decoder_new demo_codecs []) ''cls'' bs = Inr (IntV 7) \<and>
    default_encode demo_codecs True (''cls'' @ ''.gz'') (IntV 7) = Inr zs \<and>
    decode_field (decoder_new demo_codecs []) (''cls'' @ ''.gz'') zs = Inr (IntV 7)"
proof (rule codec_round_trip)
  have "last_extension ''cls'' = ''cls''"
    by (simp add: last_extension_def split_on_absent to_ascii_lowercase_def ascii_lower_def Let_def)
  then show "codable ''cls'' (IntV 7)" by (simp add: codable_def format_of_def)
qed (simp_all add: demo_codecs_def starts_with_prefix)

text \<open>C35: the extension fixes the type: whatever the bytes, when the default chain decodes a field
  without error, the result has the type its extension (below the compression suffixes)
  stands for, integers fit 64 bits and arrays are well formed; an unknown extension gives
  bytes and a pickle never decodes.\<close>
theorem decoded_types:
  assumes "decode_field (decoder_new cd []) key bs = Inr v"
  shows "typed (format_of (last_extension (base_key key))) v"
  using assms unfolding decode_field_def by (rule rewrite_typed)

theorem decoded_types_witness: "typed (format_of (last_extension (base_key ''txt''))) (Text ''hi'')"
proof (rule decoded_types)
  have k: "gz_key ''txt'' = None" by code_simp
  have "last_extension ''txt'' = ''txt''"
    by (simp add: last_extension_def split_on_absent to_ascii_lowercase_def ascii_lower_def Let_def)
  moreover have "from_utf8 (as_bytes ''hi'') = Inr ''hi''" by (rule from_utf8_ascii) simp
  ultimately have "basic_handlers demo_codecs ''txt'' (as_bytes ''hi'') = Inr (Decoded (Text ''hi''))"
    by (simp add: basic_handlers_def format_of_def decode_err_def)
  then show "decode_field (decoder_new demo_codecs []) ''txt'' (as_bytes ''hi'') = Inr (Text ''hi'')"
    using decode_plain [OF k, of 15 demo_codecs] by (simp add: decode_field_def del: rewrite_loop.simps)
qed

text \<open>Decoding a sample keeps its fields and their order: the decoded sample has the same names,
  and each holds what its own entry decodes to.\<close>
theorem decode_sample_keys:
  assumes "well_keyed s" and "decode_sample d s = Inr s'"
  shows "keys s' = keys s \<and> list_all (\<lambda>(k, v). \<exists>w. decode_entry d k v = Inr w \<and> get k s' = Some w) s"
  using decode_entries_keys [of d s "[]" s'] assms by (simp add: decode_sample_def well_keyed_def)

theorem decode_sample_keys_witness:
  "keys [(''__key__'', Text ''k''), (''a'', Null)] = keys [(''__key__'', Text ''k''), (''a'', Null)] \<and>
   list_all (\<lambda>(k, v). \<exists>w. decode_entry (decoder_partial True (decoder_raw [])) k v = Inr w \<and>
       get k [(''__key__'', Text ''k''), (''a'', Null)] = Some w)
     [(''__key__'', Text ''k''), (''a'', Null)]"
  by (rule decode_sample_keys)
     (simp_all add: well_keyed_def decode_sample_def decode_entry_def is_meta_def META_PREFIX_def
       starts_with_prefix decode_metadata_def decoder_partial_def decoder_raw_def sample_insert_def)

text \<open>Raw bytes are said to be stored verbatim whatever the extension, but under an
  extension ending in \<^verbatim>\<open>.gz\<close> they are compressed once more: copying a sample whose
  field is compressed already stores it compressed twice.\<close>
theorem raw_bytes_recompressed:
  "default_encode cd True ''txt.gz'' (Bytes bs) = Inr (gzip cd bs)"
proof -
  have "strip_suffix ''.gz'' ''txt.gz'' = Some ''txt''" by code_simp
  then show ?thesis by (simp add: default_encode_def encode_value_def starts_with_prefix)
qed

text \<open>The names of an archive of arrays lose every \<^verbatim>\<open>.npy\<close> at their end, also the one that is
  part of the name: the array stored as \<^verbatim>\<open>a.npy\<close> comes back as \<^verbatim>\<open>a\<close>.\<close>
lemma npz_name_trimmed:
  "npz_members ''npz'' [(''a.npy'', Tensor t)] = Inr [(''a.npy.npy'', to_npy t)] \<and> trim_npy ''a.npy.npy'' = ''a''"
proof -
  have s: "strip_suffix ''.npy'' ''a.npy.npy'' = Some ''a.npy''" "strip_suffix ''.npy'' ''a.npy'' = Some ''a''"
    "strip_suffix ''.npy'' ''a'' = None" by code_simp+
  have "trim_npy ''a.npy.npy'' = ''a''"
    by (simp add: trim_npy.simps [of "''a.npy.npy''"] trim_npy.simps [of "''a.npy''"] trim_npy.simps [of "''a''"] s)
  then show ?thesis by (simp add: value_tensor_def)
qed

text \<open>A handler appended to an exact chain runs before its last handler, not behind it.\<close>
lemma with_on_raw_chain: "handlers (decoder_with h (decoder_raw [a, b])) = [a, h, b]"
  by (simp add: decoder_with_def decoder_raw_def)

end
