(* ===== verification/Tar.thy ===== *)
theory Tar
  imports Streams Iterators
begin

text \<open>
  \<^verbatim>\<open>webdataset-shard/src/sync.rs\<close>: the streaming tar parser.  The parser's state is
  the byte source, the \<open>done\<close> flag and the name overrides a GNU or PAX record left
  for the next entry.
\<close>

definition BLOCK :: nat where "BLOCK = 512"
definition CHUNK :: nat where "CHUNK = 2 ^ 20"

record raw_entry =
  entry_name :: string
  entry_data :: bytes

record tar_entries =
  reader :: stream
  tar_done :: bool
  long_name :: "string option"
  pax_override :: "string option"

definition tar_entries_new :: "stream \<Rightarrow> tar_entries" where
  "tar_entries_new s = \<lparr>reader = s, tar_done = False, long_name = None, pax_override = None\<rparr>"

datatype filled = Complete bytes | Eof | Partial nat

definition fill :: "nat \<Rightarrow> stream \<Rightarrow> filled res \<times> stream" where
  "fill n s =
     (if n \<le> length (pending s) then (Inr (Complete (take n (pending s))), s\<lparr>pending := drop n (pending s)\<rparr>)
      else
        (case fault s of
           Some e \<Rightarrow> (Inl e, s\<lparr>pending := []\<rparr>)
         | None \<Rightarrow>
             (Inr (if pending s = [] then Eof else Partial (length (pending s))), s\<lparr>pending := []\<rparr>)))"

section \<open>Header fields\<close>

definition bytes_at :: "nat \<Rightarrow> nat \<Rightarrow> bytes \<Rightarrow> bytes" where
  "bytes_at a b bs = take (b - a) (drop a bs)"

definition NAME :: "bytes \<Rightarrow> bytes" where "NAME = bytes_at 0 100"
definition SIZE :: "bytes \<Rightarrow> bytes" where "SIZE = bytes_at 124 136"
definition CHECKSUM :: "bytes \<Rightarrow> bytes" where "CHECKSUM = bytes_at 148 156"
definition TYPEFLAG :: "bytes \<Rightarrow> byte" where "TYPEFLAG bs = bs ! 156"
definition MAGIC :: "bytes \<Rightarrow> bytes" where "MAGIC = bytes_at 257 263"
definition PREFIX :: "bytes \<Rightarrow> bytes" where "PREFIX = bytes_at 345 500"

definition parse_octal :: "bytes \<Rightarrow> nat option" where
  "parse_octal bs =
     (case from_utf8 (takeWhile (\<lambda>b. b \<noteq> 0) bs) of
        Inl _ \<Rightarrow> None
      | Inr text \<Rightarrow> (let text = trim text in if text = [] then Some 0 else parse_uint 64 8 text))"

definition trim_nul :: "bytes \<Rightarrow> string res" where
  "trim_nul bs =
     (let end' = (case find_idx (\<lambda>b. b = 0) bs of Some i \<Rightarrow> i | None \<Rightarrow> length bs)
      in from_utf8 (take end' bs))"

definition verify_checksum :: "bytes \<Rightarrow> unit res" where
  "verify_checksum header =
     (case parse_octal (CHECKSUM header) of
        None \<Rightarrow> Inl (Format ''tar header has an unreadable checksum'')
      | Some stored \<Rightarrow>
          (let values = take 148 header @ replicate 8 0x20 @ drop 156 header;
               unsigned = sum_list (map unat values);
               signed = sum_list (map (\<lambda>b. as_signed 8 (unat b)) values)
           in if stored = unsigned \<or> as_signed 64 stored = signed then Inr ()
              else Inl (Format ''tar header checksum mismatch'')))"

definition header_name :: "bytes \<Rightarrow> string res" where
  "header_name header =
     and_then (trim_nul (NAME header))
       (\<lambda>name.
          if \<not> starts_with (as_bytes ''ustar'') (MAGIC header) then Inr name
          else
            and_then (trim_nul (PREFIX header))
              (\<lambda>pre. if pre = [] then Inr name else Inr (pre @ ''/'' @ name)))"

definition parse_size :: "bytes \<Rightarrow> nat res" where
  "parse_size header =
     (let raw = SIZE header in
      if 0x80 \<le> raw ! 0
      then Inr (foldl (\<lambda>acc b. (acc * 256 + unat b) mod 2 ^ 64) 0 (drop 4 raw))
      else ok_or (Format ''tar header has an unreadable size'') (parse_octal raw))"

text \<open>
  The \<^verbatim>\<open>path=\<close> record.  The slice between the space and the declared end panics
  when the declared length stops before it.
\<close>
function pax_path :: "bytes \<Rightarrow> string option res" where
  "pax_path rest =
     (if rest = [] then Inr None
      else
        (case find_idx (\<lambda>b. b = 0x20) rest of
           None \<Rightarrow> Inr None
         | Some space \<Rightarrow>
             (case from_utf8 (take space rest) of
                Inl _ \<Rightarrow> Inr None
              | Inr digits \<Rightarrow>
                  (case parse_uint 64 10 digits of
                     None \<Rightarrow> Inr None
                   | Some len \<Rightarrow>
                       if len = 0 \<or> length rest < len then Inr None
                       else if len < space + 1 then Inl (Panic ''slice index starts after it ends'')
                       else
                         (let rec = bytes_at (space + 1) len rest;
                              rec = (case strip_suffix [0x0A] rec of Some r \<Rightarrow> r | None \<Rightarrow> rec)
                          in case strip_prefix (as_bytes ''path='') rec of
                               Some v \<Rightarrow>
                                 Inr (case from_utf8 v of Inr p \<Rightarrow> Some p | Inl _ \<Rightarrow> None)
                             | None \<Rightarrow> pax_path (drop len rest))))))"
  by pat_completeness auto
termination by (relation "measure length") auto

declare pax_path.simps [simp del]

section \<open>Reading\<close>

lemma fill_Complete: "fill n s = (Inr (Complete bs), s') \<Longrightarrow> length bs = n"
  by (auto simp: fill_def split: if_splits option.splits)

text \<open>The growing buffer of \<^verbatim>\<open>read_payload\<close>: at most \<open>CHUNK\<close> bytes at a time.\<close>
function payload_loop :: "nat \<Rightarrow> bytes \<Rightarrow> stream \<Rightarrow> bytes res \<times> stream" where
  "payload_loop sz acc s =
     (if length acc < sz then
        (case fill (min CHUNK (sz - length acc)) s of
           (Inl e, s) \<Rightarrow> (Inl e, s)
         | (Inr (Complete bs), s) \<Rightarrow> payload_loop sz (acc @ bs) s
         | (Inr _, s) \<Rightarrow> (Inl (Format ''tar archive ends mid-entry''), s))
      else (Inr acc, s))"
  by pat_completeness auto
termination
proof (relation "measure (\<lambda>(sz, acc, s). sz - length acc)", goal_cases)
  case (2 sz acc s x s' y bs)
  then have "length bs = min CHUNK (sz - length acc)" using fill_Complete by metis
  moreover have "0 < CHUNK" by (simp add: CHUNK_def)
  ultimately show ?case using 2(1) by simp
qed simp

declare payload_loop.simps [simp del]

definition padding :: "nat \<Rightarrow> nat" where
  "padding sz = (BLOCK - sz mod BLOCK) mod BLOCK"

definition read_payload :: "nat \<Rightarrow> stream \<Rightarrow> bytes res \<times> stream" where
  "read_payload sz s =
     (case payload_loop sz [] s of
        (Inl e, s) \<Rightarrow> (Inl e, s)
      | (Inr bs, s) \<Rightarrow>
          if 0 < padding sz then
            (case fill (padding sz) s of
               (Inl e, s) \<Rightarrow> (Inl e, s)
             | (Inr (Complete _), s) \<Rightarrow> (Inr bs, s)
             | (Inr _, s) \<Rightarrow> (Inl (Format ''tar archive ends mid-padding''), s))
          else (Inr bs, s))"

definition read_header :: "stream \<Rightarrow> bytes option res \<times> stream" where
  "read_header s =
     (case fill BLOCK s of
        (Inl e, s) \<Rightarrow> (Inl e, s)
      | (Inr Eof, s) \<Rightarrow> (Inr None, s)
      | (Inr (Partial n), s) \<Rightarrow> (Inl (Format ''tar archive ends mid-header''), s)
      | (Inr (Complete header), s) \<Rightarrow>
          if list_all (\<lambda>b. b = 0) header then (Inr None, s)
          else (map_res (\<lambda>_. Some header) (verify_checksum header), s))"

lemma fill_shrinks: "fill n s = (r, s') \<Longrightarrow> length (pending s') \<le> length (pending s)"
  by (auto simp: fill_def split: if_splits option.splits)

lemma payload_loop_shrinks:
  "payload_loop sz acc s = (r, s') \<Longrightarrow> length (pending s') \<le> length (pending s)"
proof (induction sz acc s arbitrary: r s' rule: payload_loop.induct)
  case (1 sz acc s)
  obtain f s1 where f: "fill (min CHUNK (sz - length acc)) s = (f, s1)" by fastforce
  from fill_shrinks [OF f] 1 f show ?case
    by (subst (asm) (2) payload_loop.simps)
       (fastforce split: if_splits sum.splits filled.splits)
qed

lemma read_payload_shrinks:
  "read_payload n s = (r, s') \<Longrightarrow> length (pending s') \<le> length (pending s)"
  unfolding read_payload_def
  by (auto split: prod.splits sum.splits filled.splits if_splits
      dest!: payload_loop_shrinks fill_shrinks)

lemma read_header_shrinks:
  "read_header s = (Inr (Some h), s') \<Longrightarrow> length (pending s') + BLOCK = length (pending s)"
  unfolding read_header_def
  by (auto simp: fill_def BLOCK_def split: prod.splits sum.splits filled.splits if_splits option.splits)

lemma entry_shrinks:
  assumes "(Inr (Some h), y) = read_header s" "(Inr bs, z) = read_payload n y"
  shows "length (pending z) < length (pending s)"
  using read_header_shrinks [OF assms(1) [symmetric]] read_payload_shrinks [OF assms(2) [symmetric]]
  by (simp add: BLOCK_def)

text \<open>\<^verbatim>\<open>advance\<close>: skip what is not a regular file, remember the names meant for the next one.\<close>
function advance :: "tar_entries \<Rightarrow> raw_entry option res \<times> tar_entries" where
  "advance t =
     (case read_header (reader t) of
        (Inl e, s) \<Rightarrow> (Inl e, t\<lparr>reader := s\<rparr>)
      | (Inr None, s) \<Rightarrow> (Inr None, t\<lparr>reader := s\<rparr>)
      | (Inr (Some header), s) \<Rightarrow>
          (case parse_size header of
             Inl e \<Rightarrow> (Inl e, t\<lparr>reader := s\<rparr>)
           | Inr sz \<Rightarrow>
               (let flag = TYPEFLAG header in
                if flag \<in> {0x30, 0x00, 0x37} then
                  (let (name, t') =
                     (case pax_override t of
                        Some p \<Rightarrow> (Inr p, t\<lparr>pax_override := None\<rparr>)
                      | None \<Rightarrow>
                          (case long_name t of
                             Some n \<Rightarrow> (Inr n, t\<lparr>long_name := None\<rparr>)
                           | None \<Rightarrow> (header_name header, t)))
                   in case name of
                        Inl e \<Rightarrow> (Inl e, t'\<lparr>reader := s\<rparr>)
                      | Inr n \<Rightarrow>
                          (case read_payload sz s of
                             (Inl e, s) \<Rightarrow> (Inl e, t'\<lparr>reader := s\<rparr>)
                           | (Inr bs, s) \<Rightarrow>
                               (Inr (Some \<lparr>entry_name = n, entry_data = bs\<rparr>), t'\<lparr>reader := s\<rparr>)))
                else
                  (case read_payload sz s of
                     (Inl e, s) \<Rightarrow> (Inl e, t\<lparr>reader := s\<rparr>)
                   | (Inr bs, s) \<Rightarrow>
                       if flag = 0x4C then
                         (case trim_nul bs of
                            Inl e \<Rightarrow> (Inl e, t\<lparr>reader := s\<rparr>)
                          | Inr n \<Rightarrow> advance (t\<lparr>reader := s, long_name := Some n\<rparr>))
                       else if flag = 0x4B \<or> flag = 0x67 then advance (t\<lparr>reader := s\<rparr>)
                       else if flag = 0x78 \<or> flag = 0x58 then
                         (case pax_path bs of
                            Inl e \<Rightarrow> (Inl e, t\<lparr>reader := s\<rparr>)
                          | Inr (Some p) \<Rightarrow> advance (t\<lparr>reader := s, pax_override := Some p\<rparr>)
                          | Inr None \<Rightarrow> advance (t\<lparr>reader := s\<rparr>))
                       else advance (t\<lparr>reader := s, long_name := None, pax_override := None\<rparr>)))))"
  by pat_completeness auto
termination
  by (relation "measure (\<lambda>t. length (pending (reader t)))")
     (auto dest: entry_shrinks)

declare advance.simps [simp del]

definition tar_next :: "tar_entries \<Rightarrow> raw_entry res option \<times> tar_entries" where
  "tar_next t =
     (if tar_done t then (None, t)
      else
        (case advance t of
           (Inr (Some entry), t) \<Rightarrow> (Some (Inr entry), t)
         | (Inr None, t) \<Rightarrow> (None, t\<lparr>tar_done := True\<rparr>)
         | (Inl e, t) \<Rightarrow> (Some (Inl e), t\<lparr>tar_done := True\<rparr>)))"

end
