(* ===== verification/Tar_Spec.thy ===== *)
theory Tar_Spec
  imports Tar
begin

text \<open>
  What a tar archive is, independently of the parser: members made of a header
  block and a padded payload, with the GNU and PAX records that rename the next
  file.  The parser delivers exactly the regular files of such an archive, stops
  after the first error, and can be made to panic by one malformed PAX record.
\<close>

section \<open>Reading from a source that has the bytes\<close>

lemma fill_append: "length a = n \<Longrightarrow> fill n \<lparr>pending = a @ r, fault = f\<rparr> = (Inr (Complete a), \<lparr>pending = r, fault = f\<rparr>)"
  by (auto simp: fill_def)

lemma payload_loop_append:
  "length acc + length d = sz \<Longrightarrow>
   payload_loop sz acc \<lparr>pending = d @ r, fault = f\<rparr> = (Inr (acc @ d), \<lparr>pending = r, fault = f\<rparr>)"
proof (induction "length d" arbitrary: acc d rule: less_induct)
  case less
  show ?case
  proof (cases "d = []")
    case True
    then show ?thesis using less.prems by (subst payload_loop.simps) simp
  next
    case False
    let ?k = "min CHUNK (length d)"
    have k: "0 < ?k" "sz - length acc = length d" using False less.prems by (simp_all add: CHUNK_def)
    have "fill ?k \<lparr>pending = take ?k d @ (drop ?k d @ r), fault = f\<rparr> =
        (Inr (Complete (take ?k d)), \<lparr>pending = drop ?k d @ r, fault = f\<rparr>)"
      by (rule fill_append) simp
    moreover have "take ?k d @ (drop ?k d @ r) = d @ r"
      by (simp only: append.assoc [symmetric] append_take_drop_id)
    ultimately have fl: "fill ?k \<lparr>pending = d @ r, fault = f\<rparr> =
        (Inr (Complete (take ?k d)), \<lparr>pending = drop ?k d @ r, fault = f\<rparr>)" by metis
    have "payload_loop sz (acc @ take ?k d) \<lparr>pending = drop ?k d @ r, fault = f\<rparr> =
        (Inr ((acc @ take ?k d) @ drop ?k d), \<lparr>pending = r, fault = f\<rparr>)"
      using less.prems k False by (intro less.hyps) simp_all
    then show ?thesis
      using fl k less.prems False
      by (subst payload_loop.simps) (simp del: min_less_iff_conj)
  qed
qed

definition padded :: "bytes \<Rightarrow> bytes" where
  "padded d = d @ replicate (padding (length d)) 0"

lemma read_payload_padded:
  "read_payload (length d) \<lparr>pending = padded d @ r, fault = f\<rparr> = (Inr d, \<lparr>pending = r, fault = f\<rparr>)"
proof -
  let ?pad = "replicate (padding (length d)) (0 :: byte)"
  have "payload_loop (length d) [] \<lparr>pending = d @ (?pad @ r), fault = f\<rparr> =
      (Inr ([] @ d), \<lparr>pending = ?pad @ r, fault = f\<rparr>)"
    by (rule payload_loop_append) simp
  then show ?thesis
    by (simp add: read_payload_def padded_def fill_append)
qed

definition header_ok :: "bytes \<Rightarrow> byte \<Rightarrow> nat \<Rightarrow> bool" where
  "header_ok h flag n =
     (length h = BLOCK \<and> \<not> list_all (\<lambda>b. b = 0) h \<and> verify_checksum h = Inr () \<and>
      parse_size h = Inr n \<and> TYPEFLAG h = flag)"

lemma read_header_ok:
  "header_ok h flag n \<Longrightarrow>
   read_header \<lparr>pending = h @ r, fault = f\<rparr> = (Inr (Some h), \<lparr>pending = r, fault = f\<rparr>)"
  by (simp add: read_header_def fill_append header_ok_def)

section \<open>One record at a time\<close>

definition block :: "bytes \<Rightarrow> bytes \<Rightarrow> bytes" where
  "block h d = h @ padded d"

definition state :: "bytes \<Rightarrow> error option \<Rightarrow> string option \<Rightarrow> string option \<Rightarrow> tar_entries" where
  "state bs f l p = \<lparr>reader = \<lparr>pending = bs, fault = f\<rparr>, tar_done = False, long_name = l, pax_override = p\<rparr>"

definition is_regular :: "byte \<Rightarrow> bool" where
  "is_regular flag = (flag \<in> {0x30, 0x00, 0x37})"

lemma advance_regular:
  assumes "header_ok h flag (length d)" "is_regular flag"
    and "l = None \<and> p = None \<Longrightarrow> header_name h = Inr n"
  shows "advance (state (block h d @ r) f l p) =
    (Inr (Some \<lparr>entry_name = (case p of Some x \<Rightarrow> x | None \<Rightarrow> (case l of Some x \<Rightarrow> x | None \<Rightarrow> n)),
                entry_data = d\<rparr>),
     state r f (if p = None then None else l) None)"
  using assms
  by (subst advance.simps)
     (auto simp: state_def block_def read_header_ok read_payload_padded header_ok_def is_regular_def Let_def
       split: option.splits)

lemma advance_long_name:
  assumes "header_ok h 0x4C (length d)" "trim_nul d = Inr n"
  shows "advance (state (block h d @ r) f l p) = advance (state r f (Some n) p)"
  using assms
  by (subst advance.simps)
     (auto simp: state_def block_def read_header_ok read_payload_padded header_ok_def Let_def)

lemma advance_pax:
  assumes "header_ok h flag (length d)" "flag = 0x78 \<or> flag = 0x58" "pax_path d = Inr q"
  shows "advance (state (block h d @ r) f l p) =
    advance (state r f l (case q of Some x \<Rightarrow> Some x | None \<Rightarrow> p))"
  using assms
  by (subst advance.simps)
     (auto simp: state_def block_def read_header_ok read_payload_padded header_ok_def Let_def
       split: option.splits)

lemma advance_pax_panic:
  assumes "header_ok h flag (length d)" "flag = 0x78 \<or> flag = 0x58" "pax_path d = Inl e"
  shows "fst (advance (state (block h d @ r) f l p)) = Inl e"
  using assms
  by (subst advance.simps)
     (auto simp: state_def block_def read_header_ok read_payload_padded header_ok_def Let_def)

lemma advance_ignored:
  assumes "header_ok h flag (length d)" "flag = 0x4B \<or> flag = 0x67"
  shows "advance (state (block h d @ r) f l p) = advance (state r f l p)"
  using assms
  by (subst advance.simps)
     (auto simp: state_def block_def read_header_ok read_payload_padded header_ok_def Let_def)

lemma advance_other:
  assumes "header_ok h flag (length d)" "\<not> is_regular flag" "flag \<notin> {0x4C, 0x4B, 0x67, 0x78, 0x58}"
  shows "advance (state (block h d @ r) f l p) = advance (state r f None None)"
  using assms
  by (subst advance.simps)
     (auto simp: state_def block_def read_header_ok read_payload_padded header_ok_def is_regular_def Let_def)

section \<open>Archives\<close>

datatype member =
    Regular bytes bytes
  | Gnu bytes bytes bytes bytes
  | Pax bytes bytes bytes bytes
  | Skipped bytes bytes

fun member_bytes :: "member \<Rightarrow> bytes" where
  "member_bytes (Regular h d) = block h d"
| "member_bytes (Gnu hl dl h d) = block hl dl @ block h d"
| "member_bytes (Pax hx dx h d) = block hx dx @ block h d"
| "member_bytes (Skipped h d) = block h d"

fun member_entries :: "member \<Rightarrow> raw_entry list" where
  "member_entries (Regular h d) =
     (case header_name h of Inr n \<Rightarrow> [\<lparr>entry_name = n, entry_data = d\<rparr>] | Inl _ \<Rightarrow> [])"
| "member_entries (Gnu hl dl h d) =
     (case trim_nul dl of Inr n \<Rightarrow> [\<lparr>entry_name = n, entry_data = d\<rparr>] | Inl _ \<Rightarrow> [])"
| "member_entries (Pax hx dx h d) =
     (case pax_path dx of Inr (Some n) \<Rightarrow> [\<lparr>entry_name = n, entry_data = d\<rparr>] | _ \<Rightarrow> [])"
| "member_entries (Skipped h d) = []"

definition regular_at :: "bytes \<Rightarrow> bytes \<Rightarrow> bool" where
  "regular_at h d = (header_ok h (TYPEFLAG h) (length d) \<and> is_regular (TYPEFLAG h))"

fun member_ok :: "member \<Rightarrow> bool" where
  "member_ok (Regular h d) = (regular_at h d \<and> (\<exists>n. header_name h = Inr n))"
| "member_ok (Gnu hl dl h d) =
     (header_ok hl 0x4C (length dl) \<and> (\<exists>n. trim_nul dl = Inr n) \<and> regular_at h d)"
| "member_ok (Pax hx dx h d) =
     (header_ok hx 0x78 (length dx) \<and> (\<exists>n. pax_path dx = Inr (Some n)) \<and> regular_at h d)"
| "member_ok (Skipped h d) =
     (header_ok h (TYPEFLAG h) (length d) \<and> \<not> is_regular (TYPEFLAG h) \<and>
      TYPEFLAG h \<notin> {0x4C, 0x4B, 0x67, 0x78, 0x58})"

definition archive :: "member list \<Rightarrow> bytes" where
  "archive ms = concat (map member_bytes ms) @ replicate 1024 0"

lemma advance_end: "advance (state (replicate 1024 0 @ r) f l p) = (Inr None, state (replicate 512 0 @ r) f l p)"
  by (subst advance.simps)
     (simp add: state_def read_header_def fill_def BLOCK_def list_all_iff)

lemma advance_member:
  assumes "member_ok m"
  shows "(member_entries m = [] \<longrightarrow> advance (state (member_bytes m @ r) f None None) = advance (state r f None None)) \<and>
    (\<forall>e. member_entries m = [e] \<longrightarrow>
       advance (state (member_bytes m @ r) f None None) = (Inr (Some e), state r f None None))"
  using assms
proof (cases m)
  case (Regular h d)
  then obtain n where "header_name h = Inr n" "regular_at h d" using assms by auto
  then show ?thesis
    using Regular advance_regular [of h "TYPEFLAG h" d None None n r f] by (simp add: regular_at_def)
next
  case (Gnu hl dl h d)
  then obtain n where n: "trim_nul dl = Inr n" "regular_at h d" "header_ok hl 0x4C (length dl)"
    using assms by auto
  then show ?thesis
    using Gnu advance_long_name [OF n(3,1), of "block h d @ r" f None None]
      advance_regular [of h "TYPEFLAG h" d "Some n" None n r f] by (simp add: regular_at_def)
next
  case (Pax hx dx h d)
  then obtain n where n: "pax_path dx = Inr (Some n)" "regular_at h d" "header_ok hx 0x78 (length dx)"
    using assms by auto
  then show ?thesis
    using Pax advance_pax [OF n(3) _ n(1), of "block h d @ r" f None None]
      advance_regular [of h "TYPEFLAG h" d None "Some n" n r f] by (simp add: regular_at_def)
next
  case (Skipped h d)
  then show ?thesis
    using assms advance_other [of h "TYPEFLAG h" d r f None None] by simp
qed

lemma member_entries_cases:
  "member_ok m \<Longrightarrow> (member_entries m = [] \<and> (\<exists>h d. m = Skipped h d)) \<or> (\<exists>e. member_entries m = [e])"
  by (cases m) auto

lemma length_block: "BLOCK \<le> length (block h d)" if "length h = BLOCK"
  using that by (simp add: block_def)

section \<open>Draining\<close>

lemma tar_next_state: "tar_next (state bs f l p) =
    (case advance (state bs f l p) of
       (Inr (Some entry), t) \<Rightarrow> (Some (Inr entry), t)
     | (Inr None, t) \<Rightarrow> (None, t\<lparr>tar_done := True\<rparr>)
     | (Inl e, t) \<Rightarrow> (Some (Inl e), t\<lparr>tar_done := True\<rparr>))"
  by (simp add: tar_next_def state_def)

lemma yields_archive:
  "list_all member_ok ms \<Longrightarrow>
   yields tar_next (state (archive ms @ r) f None None) (map Inr (concat (map member_entries ms)))"
proof (induction ms)
  case Nil
  then show ?case by (auto simp: archive_def tar_next_state advance_end intro: yields.intros)
next
  case (Cons m ms)
  have split: "archive (m # ms) @ r = member_bytes m @ archive ms @ r" by (simp add: archive_def)
  have ok: "member_ok m" and IH: "yields tar_next (state (archive ms @ r) f None None)
      (map Inr (concat (map member_entries ms)))" using Cons by simp_all
  note adv = advance_member [OF ok, of "archive ms @ r" f]
  from member_entries_cases [OF ok] show ?case
  proof (elim disjE conjE exE)
    assume e: "member_entries m = []"
    then have "tar_next (state (archive (m # ms) @ r) f None None) = tar_next (state (archive ms @ r) f None None)"
      using adv by (simp add: tar_next_state split)
    from yields_same_next [OF this IH] e show ?thesis by simp
  next
    fix e assume e: "member_entries m = [e]"
    then have "tar_next (state (archive (m # ms) @ r) f None None) =
        (Some (Inr e), state (archive ms @ r) f None None)"
      using adv by (simp add: tar_next_state split)
    from yields.item [OF this IH] e show ?thesis by simp
  qed
qed

definition tar_left :: "tar_entries \<Rightarrow> nat" where
  "tar_left t = (if tar_done t then 0 else Suc (length (pending (reader t))))"

lemma advance_step:
  assumes h: "read_header (reader t) = (Inr (Some h), s)" and n: "parse_size h = Inr n"
    and p: "read_payload n s = (pr, s2)"
  shows "(\<exists>t2. advance t = advance t2 \<and> reader t2 = s2 \<and> tar_done t2 = tar_done t) \<or>
         (\<exists>r t2. advance t = (r, t2) \<and> tar_done t2 = tar_done t \<and> reader t2 \<in> {s, s2})"
proof (cases "is_regular (TYPEFLAG h)")
  case True
  then have "TYPEFLAG h \<in> {0x30, 0x00, 0x37}" by (simp add: is_regular_def)
  then have "\<exists>r t2. advance t = (r, t2) \<and> tar_done t2 = tar_done t \<and> reader t2 \<in> {s, s2}"
    using h n p
    by (subst advance.simps) (simp add: Let_def split: option.split sum.split prod.split)
  then show ?thesis by blast
next
  case False
  then have reg: "TYPEFLAG h \<notin> {0x30, 0x00, 0x37}" by (simp add: is_regular_def)
  note un = advance.simps [of t]
  show ?thesis
  proof (cases pr)
    case (Inl e)
    then have "advance t = (Inl e, t\<lparr>reader := s2\<rparr>)" using h n p reg by (simp add: un Let_def)
    then show ?thesis by auto
  next
    case (Inr bs)
    consider "TYPEFLAG h = 0x4C" | "TYPEFLAG h = 0x4B \<or> TYPEFLAG h = 0x67"
      | "TYPEFLAG h = 0x78 \<or> TYPEFLAG h = 0x58" | "TYPEFLAG h \<notin> {0x4C, 0x4B, 0x67, 0x78, 0x58}"
      by blast
    then show ?thesis
    proof cases
      case 1
      show ?thesis
      proof (cases "trim_nul bs")
        case (Inl e)
        then have "advance t = (Inl e, t\<lparr>reader := s2\<rparr>)" using h n p 1 Inr by (simp add: un Let_def)
        then show ?thesis by auto
      next
        case (Inr x)
        then have "advance t = advance (t\<lparr>reader := s2, long_name := Some x\<rparr>)"
          using h n p 1 \<open>pr = Inr bs\<close> by (simp add: un Let_def)
        moreover have "reader (t\<lparr>reader := s2, long_name := Some x\<rparr>) = s2 \<and>
          tar_done (t\<lparr>reader := s2, long_name := Some x\<rparr>) = tar_done t" by simp
        ultimately show ?thesis by blast
      qed
    next
      case 2
      then have "advance t = advance (t\<lparr>reader := s2\<rparr>)" using h n p Inr by (auto simp: un Let_def)
      moreover have "reader (t\<lparr>reader := s2\<rparr>) = s2 \<and> tar_done (t\<lparr>reader := s2\<rparr>) = tar_done t" by simp
      ultimately show ?thesis by blast
    next
      case 3
      show ?thesis
      proof (cases "pax_path bs")
        case (Inl e)
        then have "advance t = (Inl e, t\<lparr>reader := s2\<rparr>)" using h n p 3 Inr by (auto simp: un Let_def)
        then show ?thesis by auto
      next
        case (Inr q)
        let ?t = "case q of None \<Rightarrow> t\<lparr>reader := s2\<rparr> | Some x \<Rightarrow> t\<lparr>reader := s2, pax_override := Some x\<rparr>"
        have "advance t = advance ?t"
          using h n p 3 \<open>pr = Inr bs\<close> Inr by (auto simp: un Let_def split: option.split)
        moreover have "reader ?t = s2 \<and> tar_done ?t = tar_done t" by (simp split: option.split)
        ultimately show ?thesis by blast
      qed
    next
      case 4
      let ?t = "t\<lparr>reader := s2, long_name := None, pax_override := None\<rparr>"
      have "advance t = advance ?t" using h n p Inr 4 reg by (simp add: un Let_def)
      moreover have "reader ?t = s2 \<and> tar_done ?t = tar_done t" by simp
      ultimately show ?thesis by blast
    qed
  qed
qed

lemma advance_shrinks:
  "advance t = (r, t') \<Longrightarrow> tar_done t' = tar_done t \<and> length (pending (reader t')) \<le> length (pending (reader t)) \<and>
     (\<forall>e. r = Inr (Some e) \<longrightarrow> length (pending (reader t')) < length (pending (reader t)))"
proof (induction "length (pending (reader t))" arbitrary: t rule: less_induct)
  case less
  obtain hr s where h: "read_header (reader t) = (hr, s)" by fastforce
  have hs: "length (pending s) \<le> length (pending (reader t))"
    using h by (auto simp: read_header_def split: prod.splits sum.splits filled.splits if_splits dest!: fill_shrinks)
  consider e where "hr = Inl e" | "hr = Inr None" | hd where "hr = Inr (Some hd)"
    by (metis not_None_eq sumE)
  then show ?case
  proof cases
    case (3 hd)
    have lt: "length (pending s) < length (pending (reader t))"
      using read_header_shrinks [of "reader t" hd s] h 3 by (simp add: BLOCK_def)
    show ?thesis
    proof (cases "parse_size hd")
      case (Inl e)
      then show ?thesis using less.prems h 3 lt by (auto simp: advance.simps [of t])
    next
      case (Inr n)
      obtain pr s2 where p: "read_payload n s = (pr, s2)" by fastforce
      have le: "length (pending s2) < length (pending (reader t))"
        using read_payload_shrinks [OF p] lt by simp
      from advance_step [of t hd s n pr s2] h 3 Inr p
      consider t2 where "advance t = advance t2" "reader t2 = s2" "tar_done t2 = tar_done t"
        | r2 t2 where "advance t = (r2, t2)" "tar_done t2 = tar_done t" "reader t2 \<in> {s, s2}" by blast
      then show ?thesis
      proof cases
        case (1 t2)
        then show ?thesis using less.hyps [of t2] less.prems le by auto
      next
        case (2 r2 t2)
        then show ?thesis using less.prems le lt by auto
      qed
    qed
  qed (use less.prems h hs in \<open>auto simp: advance.simps [of t]\<close>)
qed

interpretation tar_pull: pull tar_next tar_left
proof
  fix s x s'
  assume "tar_next s = (Some x, s')"
  then show "tar_left s' < tar_left s"
    using advance_shrinks [of s]
    by (auto simp: tar_next_def tar_left_def split: if_splits prod.splits sum.splits option.splits)
qed

text \<open>All that the parser yields, for any input.\<close>

definition tar_items :: "tar_entries \<Rightarrow> raw_entry res list" where
  "tar_items t = drain (Suc (tar_left t)) tar_next t"

lemma tar_next_error_done:
  "tar_next t = (Some (Inl e), t') \<Longrightarrow> tar_done t'"
  by (auto simp: tar_next_def split: if_splits prod.splits sum.splits option.splits)

lemma drain_errors_last:
  "drain n tar_next t = xs @ Inl e # ys \<Longrightarrow> ys = []"
proof (induction n arbitrary: t xs)
  case (Suc n)
  obtain r t' where r: "tar_next t = (r, t')" by fastforce
  show ?case
  proof (cases xs)
    case Nil
    then have "r = Some (Inl e)" "drain n tar_next t' = ys"
      using Suc.prems r by (auto split: option.splits)
    then have "tar_done t'" using r tar_next_error_done by blast
    then have "drain n tar_next t' = []" by (cases n) (simp_all add: tar_next_def)
    then show ?thesis using \<open>drain n tar_next t' = ys\<close> by simp
  next
    case (Cons x zs)
    then show ?thesis using Suc r by (auto split: option.splits)
  qed
qed simp

lemma member_bytes_length: "member_ok m \<Longrightarrow> length (member_entries m) < length (member_bytes m)"
  by (cases m)
     (auto simp: regular_at_def header_ok_def block_def BLOCK_def split: sum.split option.split)

lemma members_length: "list_all member_ok ms \<Longrightarrow>
    length (concat (map member_entries ms)) \<le> length (concat (map member_bytes ms))"
  by (induction ms) (auto dest: member_bytes_length)

lemma tar_items_archive:
  assumes "list_all member_ok ms"
  shows "tar_items (state (archive ms @ r) f None None) = map Inr (concat (map member_entries ms))"
  unfolding tar_items_def
  using members_length [OF assms]
  by (intro yields_drain [OF yields_archive] assms) (simp add: tar_left_def state_def archive_def)

text \<open>A header built field by field, for the concrete instances below.\<close>

definition header_with :: "byte \<Rightarrow> string \<Rightarrow> string \<Rightarrow> bytes" where
  "header_with flag sz cks =
     [0x61] @ replicate 123 0 @ as_bytes sz @ [0] @ replicate 12 0 @ as_bytes cks @ [0] @ [flag] @
     replicate 355 0"

lemma parse_octal_text:
  assumes "s \<noteq> []" "list_all is_ascii_digit s"
  shows "parse_octal (as_bytes s @ 0 # r) = parse_uint 64 8 s"
proof -
  have d: "is_ascii_digit c \<Longrightarrow> solid c \<and> (of_char c :: nat) < 128 \<and> (of_char c :: byte) \<noteq> 0" for c
  proof -
    assume "is_ascii_digit c"
    then have "48 \<le> (of_char c :: nat)" "(of_char c :: nat) \<le> 57" by (simp_all add: is_ascii_digit_def Let_def)
    moreover from this have "unat (of_char c :: byte) \<noteq> 0" by (simp add: unat_of_char)
    ultimately show ?thesis by (auto simp: solid_def)
  qed
  have "takeWhile (\<lambda>b. b \<noteq> 0) (as_bytes s @ 0 # r) = as_bytes s"
  proof -
    have "\<forall>b\<in>set (as_bytes s). b \<noteq> 0" using assms(2) d by (auto simp: as_bytes_def list_all_iff)
    then show ?thesis by (subst takeWhile_append2) auto
  qed
  moreover have "from_utf8 (as_bytes s) = Inr s"
    using assms(2) d by (intro from_utf8_ascii) (auto simp: list_all_iff)
  moreover have "trim s = s"
    using assms d hd_in_set [of s] last_in_set [of s] by (intro trim_solid) (auto simp: list_all_iff)
  ultimately show ?thesis using assms(1) by (simp add: parse_octal_def Let_def)
qed

lemma header_with_ok:
  assumes sz: "length sz = 11" "list_all is_ascii_digit sz" "parse_uint 64 8 sz = Some n"
    and cks: "length cks = 7" "list_all is_ascii_digit cks"
      "parse_uint 64 8 cks = Some (353 + sum_list (map of_char sz) + unat flag)"
  shows "header_ok (header_with flag sz cks) flag n"
proof -
  let ?h = "header_with flag sz cks"
  have len: "length ?h = BLOCK" using sz(1) cks(1) by (simp add: header_with_def BLOCK_def)
  have nz: "\<not> list_all (\<lambda>b. b = 0) ?h" by (simp add: header_with_def)
  have flag: "TYPEFLAG ?h = flag"
    using sz(1) cks(1) by (simp add: TYPEFLAG_def header_with_def nth_append)
  have size: "SIZE ?h = as_bytes sz @ 0 # []" and ck: "CHECKSUM ?h = as_bytes cks @ 0 # []"
    using sz(1) cks(1) by (simp_all add: SIZE_def CHECKSUM_def bytes_at_def header_with_def)
  have "as_bytes sz ! 0 < 0x80"
  proof -
    have "is_ascii_digit (sz ! 0)" using sz by (simp add: list_all_length)
    then have "(of_char (sz ! 0) :: nat) < 128" by (simp add: is_ascii_digit_def Let_def)
    then show ?thesis using sz(1) by (simp add: as_bytes_def of_char_byte_less)
  qed
  then have "parse_size ?h = Inr n"
    using sz parse_octal_text [of sz "[]"]
    by (cases "sz = []") (auto simp: parse_size_def size nth_append Let_def)
  moreover have "verify_checksum ?h = Inr ()"
  proof -
    have v: "take 148 ?h @ replicate 8 0x20 @ drop 156 ?h =
        [0x61] @ replicate 123 0 @ as_bytes sz @ [0] @ replicate 12 0 @ replicate 8 0x20 @ [flag] @ replicate 355 0"
      using sz(1) cks(1) by (simp add: header_with_def)
    have "sum_list (map unat (as_bytes sz)) = sum_list (map of_char sz)"
      by (simp add: as_bytes_def unat_of_char comp_def)
    then have "sum_list (map unat (take 148 ?h @ replicate 8 0x20 @ drop 156 ?h)) =
        353 + sum_list (map of_char sz) + unat flag"
      unfolding v by (simp add: sum_list_replicate)
    moreover have "parse_octal (as_bytes cks @ 0 # []) = Some (353 + sum_list (map of_char sz) + unat flag)"
      using cks parse_octal_text [of cks "[]"] by (cases "cks = []") auto
    ultimately show ?thesis by (simp add: verify_checksum_def ck Let_def)
  qed
  ultimately show ?thesis using len nz flag by (simp add: header_ok_def)
qed

lemma header_with_instances:
  "header_ok (header_with 0x30 ''00000000003'' ''0001644'') 0x30 3"
  "header_ok (header_with 0x78 ''00000000003'' ''0001754'') 0x78 3"
  "header_ok (header_with 0x4C ''00000000002'' ''0001677'') 0x4C 2"
  "header_ok (header_with 0x78 ''00000000011'' ''0001753'') 0x78 9"
  by (intro header_with_ok; simp add: is_ascii_digit_def parse_uint_def parse_digits_def to_digit_def)+

lemma from_utf8_texts:
  "from_utf8 [0x39] = Inr ''9''" "from_utf8 [0x31] = Inr ''1''" "from_utf8 [0x71] = Inr ''q''"
  "from_utf8 [0x62, 0x62] = Inr ''bb''" "from_utf8 [0x61] = Inr ''a''"
  using from_utf8_ascii [of "''9''"] from_utf8_ascii [of "''1''"] from_utf8_ascii [of "''q''"]
    from_utf8_ascii [of "''bb''"] from_utf8_ascii [of "''a''"]
  by (simp_all add: as_bytes_def)

lemma pax_path_instances:
  "pax_path [0x39, 0x20, 0x70, 0x61, 0x74, 0x68, 0x3D, 0x71, 0x0A] = Inr (Some ''q'')"
  "pax_path [0x31, 0x20, 0x78] = Inl (Panic ''slice index starts after it ends'')"
  by (subst pax_path.simps,
      simp add: from_utf8_texts parse_uint_def parse_digits_def to_digit_def bytes_at_def as_bytes_def
        strip_suffix_def)+

lemma header_with_name: "header_name (header_with flag sz cks) = Inr ''a''" if "length sz = 11" "length cks = 7"
proof -
  have "NAME (header_with flag sz cks) = 0x61 # replicate 99 0"
    by (simp add: NAME_def bytes_at_def header_with_def)
  moreover have "MAGIC (header_with flag sz cks) = replicate 6 0"
    using that by (simp add: MAGIC_def bytes_at_def header_with_def)
  moreover have "trim_nul (0x61 # replicate 99 0) = Inr ''a''"
  proof -
    have "find_idx (\<lambda>b. b = 0) (0x61 # replicate 99 (0 :: byte)) = Some 1"
      using replicate_Suc [of 98 "0 :: byte"] by simp
    then show ?thesis by (simp add: trim_nul_def from_utf8_texts)
  qed
  moreover have "\<not> starts_with (as_bytes ''ustar'') (replicate 6 (0 :: byte))"
    using replicate_Suc [of 5 "0 :: byte"] by (simp add: as_bytes_def starts_with_def)
  ultimately show ?thesis by (simp add: header_name_def)
qed

section \<open>Properties\<close>

text \<open>C5: The parser reads every well-formed archive: from members with valid headers, GNU long names, PAX
  paths and skipped record types, followed by the end marker and anything else, it yields exactly the
  regular files, in order, each under its own name.\<close>

theorem tar_reads_archives:
  assumes "list_all member_ok ms"
  shows "tar_items (tar_entries_new (stream_of (archive ms @ r))) = map Inr (concat (map member_entries ms))"
  using tar_items_archive [OF assms, of r None]
  by (simp add: tar_entries_new_def stream_of_def state_def)

theorem tar_reads_archives_witness:
  "tar_items (tar_entries_new (stream_of (archive
       [Regular (header_with 0x30 ''00000000003'' ''0001644'') [1, 2, 3],
        Pax (header_with 0x78 ''00000000011'' ''0001753'') [0x39, 0x20, 0x70, 0x61, 0x74, 0x68, 0x3D, 0x71, 0x0A]
          (header_with 0x30 ''00000000003'' ''0001644'') [4, 5, 6]] @ []))) =
   [Inr \<lparr>entry_name = ''a'', entry_data = [1, 2, 3]\<rparr>, Inr \<lparr>entry_name = ''q'', entry_data = [4, 5, 6]\<rparr>]"
proof -
  let ?h = "header_with 0x30 ''00000000003'' ''0001644''"
  have h: "header_ok ?h 0x30 (Suc (Suc (Suc 0)))" "TYPEFLAG ?h = 0x30" "header_name ?h = Inr ''a''"
    using header_with_instances(1) header_with_name by (simp_all add: header_ok_def eval_nat_numeral)
  have hx: "header_ok (header_with 0x78 ''00000000011'' ''0001753'') 0x78
      (length [0x39, 0x20, 0x70, 0x61, 0x74, 0x68, 0x3D, 0x71, 0x0A :: byte])"
    using header_with_instances(4) by (simp add: eval_nat_numeral)
  show ?thesis
    using tar_reads_archives [of "[Regular ?h [1, 2, 3],
        Pax (header_with 0x78 ''00000000011'' ''0001753'') [0x39, 0x20, 0x70, 0x61, 0x74, 0x68, 0x3D, 0x71, 0x0A]
          ?h [4, 5, 6]]" "[]"] h hx
    by (simp add: regular_at_def is_regular_def pax_path_instances)
qed

text \<open>Nothing follows an error: a tar stream cannot be resynchronised, so an error is the last item the
  parser yields, whatever the input.\<close>

theorem tar_error_is_last:
  assumes "tar_items t = xs @ Inl e # ys"
  shows "ys = []"
  using assms drain_errors_last unfolding tar_items_def by blast

theorem tar_error_is_last_witness:
  "tar_items (tar_entries_new (stream_of [1])) = [] @ Inl (Format ''tar archive ends mid-header'') # [] \<and>
   ([] :: raw_entry res list) = []"
proof
  have "advance (tar_entries_new (stream_of [1])) =
      (Inl (Format ''tar archive ends mid-header''), tar_entries_new (stream_of []))"
    by (subst advance.simps)
       (simp add: tar_entries_new_def stream_of_def read_header_def fill_def BLOCK_def)
  then show *: "tar_items (tar_entries_new (stream_of [1])) = [] @ Inl (Format ''tar archive ends mid-header'') # []"
    by (simp add: tar_items_def tar_left_def tar_next_def tar_entries_new_def stream_of_def)
  show "([] :: raw_entry res list) = []" by (rule tar_error_is_last [OF *])
qed

text \<open>C40: A PAX record whose declared length ends before its first space (\<^verbatim>\<open>1 x\<close>) makes the parser panic
  instead of reporting an error, in an otherwise valid archive.\<close>

theorem tar_pax_record_panics:
  assumes "header_ok h 0x78 3"
  shows "tar_items (tar_entries_new (stream_of (block h [0x31, 0x20, 0x78] @ r))) =
    [Inl (Panic ''slice index starts after it ends'')]"
proof -
  note pax_path_instances(2)
  then have "fst (advance (state (block h [0x31, 0x20, 0x78] @ r) None None None)) =
      Inl (Panic ''slice index starts after it ends'')"
    using assms by (intro advance_pax_panic) (auto simp: eval_nat_numeral)
  then have "\<exists>t. tar_next (state (block h [0x31, 0x20, 0x78] @ r) None None None) =
      (Some (Inl (Panic ''slice index starts after it ends'')), t) \<and> tar_done t"
    by (auto simp: tar_next_state split: prod.splits)
  then obtain t where t: "tar_next (state (block h [0x31, 0x20, 0x78] @ r) None None None) =
      (Some (Inl (Panic ''slice index starts after it ends'')), t)" "tar_done t" by blast
  have "drain n tar_next t = []" for n using t(2) by (cases n) (simp_all add: tar_next_def)
  then show ?thesis
    using t(1) by (simp add: tar_items_def tar_entries_new_def stream_of_def state_def)
qed

theorem tar_pax_record_panics_witness:
  "tar_items (tar_entries_new (stream_of
     (block (header_with 0x78 ''00000000003'' ''0001754'') [0x31, 0x20, 0x78] @ []))) =
   [Inl (Panic ''slice index starts after it ends'')]"
  by (rule tar_pax_record_panics [OF header_with_instances(2)])

text \<open>When a GNU long name and a PAX path precede the same file, the file takes the PAX path and the
  long name is left behind: the next file is delivered under it instead of its own name.\<close>

theorem tar_long_name_leaks:
  assumes "header_ok hl 0x4C (length dl)" and "trim_nul dl = Inr n"
    and "header_ok hx 0x78 (length dx)" and "pax_path dx = Inr (Some p)"
    and "regular_at h d" and "regular_at h' d'"
  shows "take 2 (tar_items (tar_entries_new (stream_of
      (block hl dl @ block hx dx @ block h d @ block h' d' @ r)))) =
    [Inr \<lparr>entry_name = p, entry_data = d\<rparr>, Inr \<lparr>entry_name = n, entry_data = d'\<rparr>]"
proof -
  let ?s = "state (block hl dl @ block hx dx @ block h d @ block h' d' @ r) None None None"
  have "advance ?s = (Inr (Some \<lparr>entry_name = p, entry_data = d\<rparr>), state (block h' d' @ r) None (Some n) None)"
    using advance_long_name [OF assms(1,2)] advance_pax [OF assms(3) _ assms(4)]
      advance_regular [of h "TYPEFLAG h" d "Some n" "Some p"] assms(5)
    by (simp add: regular_at_def)
  then have n1: "tar_next ?s = (Some (Inr \<lparr>entry_name = p, entry_data = d\<rparr>), state (block h' d' @ r) None (Some n) None)"
    by (simp add: tar_next_state)
  have "advance (state (block h' d' @ r) None (Some n) None) =
      (Inr (Some \<lparr>entry_name = n, entry_data = d'\<rparr>), state r None (Some n) None) \<or>
      (\<exists>t. advance (state (block h' d' @ r) None (Some n) None) = (Inr (Some \<lparr>entry_name = n, entry_data = d'\<rparr>), t))"
    using advance_regular [of h' "TYPEFLAG h'" d' "Some n" None n r None] assms(6) by (simp add: regular_at_def)
  then obtain t where n2: "tar_next (state (block h' d' @ r) None (Some n) None) =
      (Some (Inr \<lparr>entry_name = n, entry_data = d'\<rparr>), t)"
    by (auto simp: tar_next_state)
  have len: "1 < tar_left ?s" using assms(1)
    by (simp add: tar_left_def state_def header_ok_def block_def BLOCK_def)
  then obtain k where "tar_left ?s = Suc (Suc k)" by (cases "tar_left ?s"; cases "tar_left ?s - 1") auto
  then have "tar_items ?s = Inr \<lparr>entry_name = p, entry_data = d\<rparr> # Inr \<lparr>entry_name = n, entry_data = d'\<rparr> #
      drain (Suc k) tar_next t"
    using n1 n2 by (simp add: tar_items_def)
  then show ?thesis by (simp add: tar_entries_new_def stream_of_def state_def)
qed

theorem tar_long_name_leaks_witness:
  "take 2 (tar_items (tar_entries_new (stream_of
      (block (header_with 0x4C ''00000000002'' ''0001677'') [0x62, 0x62] @
       block (header_with 0x78 ''00000000011'' ''0001753'') [0x39, 0x20, 0x70, 0x61, 0x74, 0x68, 0x3D, 0x71, 0x0A] @
       block (header_with 0x30 ''00000000003'' ''0001644'') [1, 2, 3] @
       block (header_with 0x30 ''00000000003'' ''0001644'') [4, 5, 6] @ [])))) =
    [Inr \<lparr>entry_name = ''q'', entry_data = [1, 2, 3]\<rparr>, Inr \<lparr>entry_name = ''bb'', entry_data = [4, 5, 6]\<rparr>]"
proof (rule tar_long_name_leaks)
  let ?h = "header_with 0x30 ''00000000003'' ''0001644''"
  have "header_ok ?h 0x30 (Suc (Suc (Suc 0)))" "TYPEFLAG ?h = 0x30"
    using header_with_instances(1) by (simp_all add: header_ok_def eval_nat_numeral)
  then show "regular_at ?h [1, 2, 3]" "regular_at ?h [4, 5, 6]"
    by (simp_all add: regular_at_def is_regular_def)
  show "trim_nul [0x62, 0x62] = Inr ''bb''" by (simp add: trim_nul_def from_utf8_texts)
  show "pax_path [0x39, 0x20, 0x70, 0x61, 0x74, 0x68, 0x3D, 0x71, 0x0A] = Inr (Some ''q'')"
    by (rule pax_path_instances)
qed (use header_with_instances in \<open>simp_all add: eval_nat_numeral\<close>)

end
