(* ===== verification/Reader.thy ===== *)
theory Reader
  imports Tar_Spec Samples Names
begin

text \<open>
  \<^verbatim>\<open>webdataset-shard/src/reader.rs\<close>: from the bytes of shards to samples.  \<open>ShardFiles\<close>
  selects and renames the files of one archive, \<open>Expand\<close> strings several archives
  together with boundaries between them, \<open>Grouper\<close> collects files that share a
  base name.  Decompression (\<^verbatim>\<open>compress.rs\<close> with third-party codecs) is the
  parameter \<open>decompress\<close>.  The archive reader thread is a bounded channel filled
  until the first error, so its consumer sees the items of the inline reader.
\<close>

record tar_file =
  file_name :: string
  file_data :: bytes
  file_url :: "string option"
  file_path :: "string option"

datatype file_event = File tar_file | EndOfShard

record selection =
  sel_select :: "(string \<Rightarrow> bool) option"
  sel_rename :: "(string \<Rightarrow> string) option"
  sel_skip :: bool

definition selection_new :: selection where
  "selection_new = \<lparr>sel_select = None, sel_rename = None, sel_skip = True\<rparr>"

definition select_files :: "(string \<Rightarrow> bool) \<Rightarrow> selection \<Rightarrow> selection" where
  "select_files x s = s\<lparr>sel_select := Some x\<rparr>"

definition rename_files :: "(string \<Rightarrow> string) \<Rightarrow> selection \<Rightarrow> selection" where
  "rename_files x s = s\<lparr>sel_rename := Some x\<rparr>"

definition skip_metadata :: "bool \<Rightarrow> selection \<Rightarrow> selection" where
  "skip_metadata x s = s\<lparr>sel_skip := x\<rparr>"

definition selection_apply :: "selection \<Rightarrow> string \<Rightarrow> string option" where
  "selection_apply sel name =
     (if sel_skip sel \<and> is_shard_metadata name then None
      else
        (let name' = (case sel_rename sel of Some f \<Rightarrow> f name | None \<Rightarrow> name)
         in case sel_select sel of
              Some p \<Rightarrow> if p name' then Some name' else None
            | None \<Rightarrow> Some name'))"

section \<open>The files of one archive\<close>

record shard_files =
  entries :: tar_entries
  shard_url :: "string option"
  shard_path :: "string option"
  shard_selection :: selection

definition describe :: "string option \<Rightarrow> string" where
  "describe u = (case u of Some url \<Rightarrow> url @ '': '' | None \<Rightarrow> [])"

definition shard_files_new ::
  "(stream \<Rightarrow> stream res) \<Rightarrow> stream \<Rightarrow> string option \<Rightarrow> string option \<Rightarrow> selection \<Rightarrow> shard_files res" where
  "shard_files_new decompress s url path sel =
     map_res
       (\<lambda>decoded. \<lparr>entries = tar_entries_new decoded, shard_url = url, shard_path = path,
                  shard_selection = sel\<rparr>)
       (decompress s)"

lemma tar_next_shrinks: "(Some x, t') = tar_next t \<Longrightarrow> tar_left t' < tar_left t"
  by (rule tar_pull.progress [where x = x]) simp

function shard_files_next :: "shard_files \<Rightarrow> tar_file res option \<times> shard_files" where
  "shard_files_next sf =
     (case tar_next (entries sf) of
        (None, t) \<Rightarrow> (None, sf\<lparr>entries := t\<rparr>)
      | (Some (Inl e), t) \<Rightarrow> (Some (Inl (Context (describe (shard_url sf)) e)), sf\<lparr>entries := t\<rparr>)
      | (Some (Inr entry), t) \<Rightarrow>
          (case selection_apply (shard_selection sf) (entry_name entry) of
             None \<Rightarrow> shard_files_next (sf\<lparr>entries := t\<rparr>)
           | Some name \<Rightarrow>
               (Some (Inr \<lparr>file_name = name, file_data = entry_data entry, file_url = shard_url sf,
                          file_path = shard_path sf\<rparr>),
                sf\<lparr>entries := t\<rparr>)))"
  by pat_completeness auto
termination
  by (relation "measure (\<lambda>sf. tar_left (entries sf))") (auto dest: tar_next_shrinks)

declare shard_files_next.simps [simp del]

record tar_files =
  inner :: shard_files
  files_done :: bool

definition tar_files_next :: "tar_files \<Rightarrow> tar_file res option \<times> tar_files" where
  "tar_files_next tf =
     (if files_done tf then (None, tf)
      else
        (case shard_files_next (inner tf) of
           (item, sf) \<Rightarrow>
             (item,
              \<lparr>inner = sf,
               files_done = (case item of Some (Inr _) \<Rightarrow> False | _ \<Rightarrow> True)\<rparr>)))"

definition with_options ::
  "(stream \<Rightarrow> stream res) \<Rightarrow> stream \<Rightarrow> string option \<Rightarrow> string option \<Rightarrow> selection \<Rightarrow> tar_files res" where
  "with_options decompress s url path sel =
     map_res (\<lambda>sf. \<lparr>inner = sf, files_done = False\<rparr>) (shard_files_new decompress s url path sel)"

section \<open>Several archives\<close>

record shard_source =
  src_url :: string
  src_path :: "string option"
  src_stream :: stream

record expand =
  sources :: "shard_source res list"
  ex_selection :: selection
  ex_handler :: handler
  current :: "tar_files option"
  pending_boundary :: bool
  ex_done :: bool

definition expand_new :: "shard_source res list \<Rightarrow> selection \<Rightarrow> handler \<Rightarrow> expand" where
  "expand_new ss sel h =
     \<lparr>sources = ss, ex_selection = sel, ex_handler = h, current = None, pending_boundary = False,
      ex_done = False\<rparr>"

function expand_next :: "(stream \<Rightarrow> stream res) \<Rightarrow> expand \<Rightarrow> file_event res option \<times> expand" where
  "expand_next dec ex =
     (if pending_boundary ex then (Some (Inr EndOfShard), ex\<lparr>pending_boundary := False\<rparr>)
      else if ex_done ex then (None, ex)
      else
        (case current ex of
           Some files \<Rightarrow>
             (case tar_files_next files of
                (Some (Inr f), files) \<Rightarrow> (Some (Inr (File f)), ex\<lparr>current := Some files\<rparr>)
              | (Some (Inl e), files) \<Rightarrow>
                  (let ex' = ex\<lparr>current := None, pending_boundary := True\<rparr>
                   in case ex_handler ex e of
                        Continue \<Rightarrow> expand_next dec ex'
                      | Stop \<Rightarrow> expand_next dec (ex'\<lparr>ex_done := True\<rparr>)
                      | Reraise \<Rightarrow> (Some (Inl e), ex'))
              | (None, files) \<Rightarrow> expand_next dec (ex\<lparr>current := None, pending_boundary := True\<rparr>))
         | None \<Rightarrow>
             (case sources ex of
                [] \<Rightarrow> (None, ex\<lparr>ex_done := True\<rparr>)
              | Inl e # rest \<Rightarrow>
                  (let ex' = ex\<lparr>sources := rest\<rparr>
                   in case ex_handler ex e of
                        Continue \<Rightarrow> expand_next dec ex'
                      | Stop \<Rightarrow> (None, ex'\<lparr>ex_done := True\<rparr>)
                      | Reraise \<Rightarrow> (Some (Inl e), ex'))
              | Inr src # rest \<Rightarrow>
                  (let ex' = ex\<lparr>sources := rest\<rparr>
                   in case with_options dec (src_stream src) (Some (src_url src)) (src_path src) (ex_selection ex) of
                        Inr files \<Rightarrow> expand_next dec (ex'\<lparr>current := Some files\<rparr>)
                      | Inl e \<Rightarrow>
                          (let e' = Context (src_url src) e
                           in case ex_handler ex e' of
                                Continue \<Rightarrow> expand_next dec ex'
                              | Stop \<Rightarrow> (None, ex'\<lparr>ex_done := True\<rparr>)
                              | Reraise \<Rightarrow> (Some (Inl e'), ex'))))))"
  by pat_completeness auto
termination
  by (relation "measure (\<lambda>(dec, ex). 2 * length (sources ex) + (if current ex = None then 0 else 1))") auto

declare expand_next.simps [simp del]

section \<open>Grouping\<close>

record grouper =
  gr_current :: "sample option"
  gr_handler :: handler
  gr_lowercase :: bool

definition grouper_new :: "handler \<Rightarrow> grouper" where
  "grouper_new h = \<lparr>gr_current = None, gr_handler = h, gr_lowercase = True\<rparr>"

definition lowercase :: "bool \<Rightarrow> grouper \<Rightarrow> grouper" where
  "lowercase x s = s\<lparr>gr_lowercase := x\<rparr>"

datatype grouped = GSample sample | GPending | GFailed error | GStop

definition valid_opt :: "sample option \<Rightarrow> sample option" where
  "valid_opt s = (case s of Some x \<Rightarrow> if is_valid x then Some x else None | None \<Rightarrow> None)"

definition emit :: "sample option \<Rightarrow> grouped" where
  "emit s = (case s of Some x \<Rightarrow> GSample x | None \<Rightarrow> GPending)"

definition start_sample :: "string \<Rightarrow> tar_file \<Rightarrow> sample" where
  "start_sample stem f =
     (let s = with_key stem;
          s = (case file_url f of Some u \<Rightarrow> sample_insert URL (Text u) s | None \<Rightarrow> s)
      in case file_path f of Some p \<Rightarrow> sample_insert LOCAL_PATH (Text p) s | None \<Rightarrow> s)"

definition push :: "grouper \<Rightarrow> file_event \<Rightarrow> grouped \<times> grouper" where
  "push g event =
     (case event of
        EndOfShard \<Rightarrow> (emit (valid_opt (gr_current g)), g\<lparr>gr_current := None\<rparr>)
      | File f \<Rightarrow>
          (case base_plus_ext (file_name f) of
             None \<Rightarrow> (GPending, g)
           | Some (stem, ext) \<Rightarrow>
               (let ext = (if gr_lowercase g then to_ascii_lowercase ext else ext);
                    fresh = (Option.bind (gr_current g) sample_key \<noteq> Some stem);
                    finished = (if fresh then valid_opt (gr_current g) else None);
                    cur = (if fresh then start_sample stem f else the (gr_current g))
                in if contains_key ext cur then
                     (let e = DuplicateKey ext stem
                      in case gr_handler g e of
                           Continue \<Rightarrow> (emit finished, g\<lparr>gr_current := Some cur\<rparr>)
                         | Stop \<Rightarrow> (GStop, g\<lparr>gr_current := Some cur\<rparr>)
                         | Reraise \<Rightarrow> (GFailed e, g\<lparr>gr_current := Some cur\<rparr>))
                   else
                     (emit finished,
                      g\<lparr>gr_current := Some (sample_insert ext (Bytes (file_data f)) cur)\<rparr>))))"

definition finish :: "grouper \<Rightarrow> sample option \<times> grouper" where
  "finish g = (valid_opt (gr_current g), g\<lparr>gr_current := None\<rparr>)"

record group_by_keys =
  gk_files :: "file_event res list"
  gk_handler :: handler
  gk_grouper :: grouper
  gk_done :: bool

definition group_events :: "file_event res list \<Rightarrow> handler \<Rightarrow> group_by_keys" where
  "group_events fs h = \<lparr>gk_files = fs, gk_handler = h, gk_grouper = grouper_new h, gk_done = False\<rparr>"

definition as_events :: "tar_file res list \<Rightarrow> file_event res list" where
  "as_events fs = map (map_res File) fs"

text \<open>One round of the loop of \<^verbatim>\<open>GroupByKeys::next\<close> consumes one event.\<close>
function group_next :: "group_by_keys \<Rightarrow> sample res option \<times> group_by_keys" where
  "group_next g =
     (if gk_done g then
        (case finish (gk_grouper g) of (s, gr) \<Rightarrow> (map_option Inr s, g\<lparr>gk_grouper := gr\<rparr>))
      else
        (case gk_files g of
           [] \<Rightarrow> group_next (g\<lparr>gk_done := True\<rparr>)
         | Inl e # rest \<Rightarrow>
             (let g' = g\<lparr>gk_files := rest\<rparr>
              in case gk_handler g e of
                   Continue \<Rightarrow> group_next g'
                 | Stop \<Rightarrow> group_next (g'\<lparr>gk_done := True\<rparr>)
                 | Reraise \<Rightarrow> (Some (Inl e), g'\<lparr>gk_done := True\<rparr>))
         | Inr event # rest \<Rightarrow>
             (let g' = g\<lparr>gk_files := rest\<rparr>
              in case push (gk_grouper g) event of
                   (GSample s, gr) \<Rightarrow> (Some (Inr s), g'\<lparr>gk_grouper := gr\<rparr>)
                 | (GPending, gr) \<Rightarrow> group_next (g'\<lparr>gk_grouper := gr\<rparr>)
                 | (GFailed e, gr) \<Rightarrow> (Some (Inl e), g'\<lparr>gk_grouper := gr\<rparr>)
                 | (GStop, gr) \<Rightarrow> group_next (g'\<lparr>gk_grouper := gr, gk_done := True\<rparr>))))"
  by pat_completeness auto
termination
  by (relation "measure (\<lambda>g. (if gk_done g then 0 else Suc (length (gk_files g))))") auto

declare group_next.simps [simp del]

end
