(* ===== verification/Grouping.thy ===== *)
theory Grouping
  imports Reader
begin

text \<open>
  What grouping means, independently of the state machine: cut the stream of
  files into maximal runs of consecutive files with the same base name inside one
  shard, and make one sample of each run.  \<open>group_next\<close> computes exactly that.
\<close>

definition belongs :: "string \<Rightarrow> file_event \<Rightarrow> bool" where
  "belongs stem ev =
     (case ev of
        EndOfShard \<Rightarrow> False
      | File f \<Rightarrow>
          (case base_plus_ext (file_name f) of None \<Rightarrow> True | Some (s, _) \<Rightarrow> s = stem))"

text \<open>A run: its base name, its first file, and all its events.\<close>
function runs :: "file_event list \<Rightarrow> (string \<times> tar_file \<times> file_event list) list" where
  "runs [] = []"
| "runs (EndOfShard # es) = runs es"
| "runs (File f # es) =
     (case base_plus_ext (file_name f) of
        None \<Rightarrow> runs es
      | Some (stem, _) \<Rightarrow>
          (stem, f, File f # takeWhile (belongs stem) es) # runs (dropWhile (belongs stem) es))"
  by pat_completeness auto
termination
  by (relation "measure length") (auto simp: length_dropWhile_le le_imp_less_Suc)

definition add_file :: "sample \<Rightarrow> file_event \<Rightarrow> sample" where
  "add_file s ev =
     (case ev of
        EndOfShard \<Rightarrow> s
      | File f \<Rightarrow>
          (case base_plus_ext (file_name f) of
             None \<Rightarrow> s
           | Some (_, ext) \<Rightarrow>
               (let ext = to_ascii_lowercase ext in
                if contains_key ext s then s else put ext (Bytes (file_data f)) s)))"

definition run_sample :: "string \<times> tar_file \<times> file_event list \<Rightarrow> sample" where
  "run_sample r = (case r of (stem, f, es) \<Rightarrow> foldl add_file (start_sample stem f) es)"

section \<open>Samples under construction\<close>

definition building :: "string \<Rightarrow> sample \<Rightarrow> bool" where
  "building stem s = (get KEY s = Some (Text stem) \<and> (\<forall>(k, v)\<in>set s. v \<noteq> Bool True))"

lemma set_put: "set (put k v m) \<subseteq> insert (k, v) (set m)"
  by (induction k v m rule: put.induct) auto

lemma building_put:
  "building stem s \<Longrightarrow> k \<noteq> KEY \<Longrightarrow> v \<noteq> Bool True \<Longrightarrow> building stem (put k v s)"
  using set_put [of k v s] by (auto simp: building_def get_put)

lemma building_valid: "building stem s \<Longrightarrow> is_valid s"
  by (auto simp: building_def is_valid_def get_def dest: map_of_SomeD)

lemma building_key: "building stem s \<Longrightarrow> sample_key s = Some stem"
  by (simp add: building_def sample_key_def value_str_def)

lemma building_start: "building stem (start_sample stem f)"
proof -
  have "building stem (with_key stem)"
    by (simp add: building_def with_key_def sample_insert_def)
  then show ?thesis
    by (auto simp: start_sample_def sample_insert_def Let_def KEY_def URL_def LOCAL_PATH_def
        intro!: building_put split: option.split)
qed

lemma building_add: "building stem s \<Longrightarrow> building stem (add_file s ev)"
proof (cases ev)
  case (File f)
  assume b: "building stem s"
  show ?thesis
  proof (cases "base_plus_ext (file_name f)")
    case (Some r)
    then obtain a e where r: "base_plus_ext (file_name f) = Some (a, e)" by (cases r) auto
    show ?thesis
    proof (cases "contains_key (to_ascii_lowercase e) s")
      case False
      then have "to_ascii_lowercase e \<noteq> KEY" using b by (auto simp: building_def contains_key_def)
      then show ?thesis using b r File False by (simp add: add_file_def Let_def building_put)
    qed (simp add: add_file_def File r b Let_def)
  qed (simp add: add_file_def File b)
qed (simp add: add_file_def)

lemma building_foldl: "building stem s \<Longrightarrow> building stem (foldl add_file s es)"
  by (induction es arbitrary: s) (auto simp: building_add)

section \<open>The state machine, one event at a time\<close>

definition opt_list :: "'a option \<Rightarrow> 'a list" where
  "opt_list x = (case x of None \<Rightarrow> [] | Some y \<Rightarrow> [y])"

fun gspec :: "sample option \<Rightarrow> file_event list \<Rightarrow> sample list" where
  "gspec cur [] = opt_list cur"
| "gspec cur (EndOfShard # es) = opt_list cur @ gspec None es"
| "gspec cur (File f # es) =
     (case base_plus_ext (file_name f) of
        None \<Rightarrow> gspec cur es
      | Some (stem, ext) \<Rightarrow>
          if Option.bind cur sample_key = Some stem then gspec (Some (add_file (the cur) (File f))) es
          else opt_list cur @ gspec (Some (add_file (start_sample stem f) (File f))) es)"

definition gk :: "handler \<Rightarrow> file_event res list \<Rightarrow> sample option \<Rightarrow> group_by_keys" where
  "gk h fs cur =
     \<lparr>gk_files = fs, gk_handler = h,
      gk_grouper = \<lparr>gr_current = cur, gr_handler = h, gr_lowercase = True\<rparr>, gk_done = False\<rparr>"

definition cur_ok :: "sample option \<Rightarrow> bool" where
  "cur_ok cur = (case cur of None \<Rightarrow> True | Some s \<Rightarrow> \<exists>stem. building stem s)"

lemma valid_opt_ok: "cur_ok cur \<Longrightarrow> valid_opt cur = cur"
  by (auto simp: cur_ok_def valid_opt_def building_valid split: option.splits)

lemma push_step:
  assumes cont: "\<And>e. h e = Continue" and ok: "cur_ok cur"
  shows "\<exists>em cur'. push \<lparr>gr_current = cur, gr_handler = h, gr_lowercase = True\<rparr> ev =
      (emit em, \<lparr>gr_current = cur', gr_handler = h, gr_lowercase = True\<rparr>) \<and> cur_ok cur' \<and>
      (\<forall>es. gspec cur (ev # es) = opt_list em @ gspec cur' es)"
proof (cases ev)
  case EndOfShard
  then show ?thesis
    using valid_opt_ok [OF ok]
    by (intro exI [of _ cur] exI [of _ None]) (simp add: push_def cur_ok_def)
next
  case (File f)
  show ?thesis
  proof (cases "base_plus_ext (file_name f)")
    case None
    then show ?thesis
      using File ok by (intro exI [of _ None] exI [of _ cur]) (simp add: push_def emit_def opt_list_def)
  next
    case (Some r)
    then obtain stem ext where r: "base_plus_ext (file_name f) = Some (stem, ext)" by (cases r) auto
    let ?ext = "to_ascii_lowercase ext"
    show ?thesis
    proof (cases "Option.bind cur sample_key = Some stem")
      case True
      then obtain s where s: "cur = Some s" by (cases cur) auto
      with ok obtain st where b: "building st s" by (auto simp: cur_ok_def)
      have "cur_ok (Some (add_file s (File f)))" using building_add [OF b] by (auto simp: cur_ok_def)
      then show ?thesis
        using True s r File cont
        by (intro exI [of _ None] exI [of _ "Some (add_file s (File f))"])
           (simp add: push_def add_file_def sample_insert_def emit_def opt_list_def Let_def)
    next
      case False
      have "cur_ok (Some (add_file (start_sample stem f) (File f)))"
        using building_add [OF building_start] by (auto simp: cur_ok_def)
      then show ?thesis
        using False r File cont valid_opt_ok [OF ok]
        by (intro exI [of _ cur] exI [of _ "Some (add_file (start_sample stem f) (File f))"])
           (simp add: push_def add_file_def sample_insert_def Let_def)
    qed
  qed
qed

lemma drain_finished:
  "drain n group_next \<lparr>gk_files = fs, gk_handler = h,
      gk_grouper = \<lparr>gr_current = None, gr_handler = h', gr_lowercase = b\<rparr>, gk_done = True\<rparr> = []"
  by (cases n) (simp_all add: group_next.simps finish_def valid_opt_def)

lemma group_next_nil:
  assumes "cur_ok cur"
  shows "drain (Suc n) group_next (gk h [] cur) = map Inr (opt_list cur)"
proof -
  have "group_next (gk h [] cur) =
      (map_option Inr cur,
       \<lparr>gk_files = [], gk_handler = h,
        gk_grouper = \<lparr>gr_current = None, gr_handler = h, gr_lowercase = True\<rparr>, gk_done = True\<rparr>)"
    using valid_opt_ok [OF assms] by (simp add: group_next.simps gk_def finish_def)
  then show ?thesis
    by (cases cur) (simp_all add: opt_list_def drain_finished)
qed

lemma drain_group_next:
  assumes cont: "\<And>e. h e = Continue"
  shows "cur_ok cur \<Longrightarrow> length fs < n \<Longrightarrow>
    drain n group_next (gk h fs cur) = map Inr (gspec cur (rights fs)) "
proof (induction fs arbitrary: cur n)
  case Nil
  then obtain k where "n = Suc k" by (cases n) auto
  then show ?case using group_next_nil [OF Nil(1), of k h] by simp
next
  case (Cons x fs)
  obtain k where n: "n = Suc k" using Cons.prems(2) by (cases n) auto
  show ?case
  proof (cases x)
    case (Inl e)
    then have "group_next (gk h (x # fs) cur) = group_next (gk h fs cur)"
      using cont by (subst group_next.simps) (simp add: gk_def)
    then have "drain n group_next (gk h (x # fs) cur) = drain n group_next (gk h fs cur)"
      by (rule drain_same_next)
    then show ?thesis using Cons Inl by simp
  next
    case (Inr ev)
    obtain em cur' where p: "push \<lparr>gr_current = cur, gr_handler = h, gr_lowercase = True\<rparr> ev =
        (emit em, \<lparr>gr_current = cur', gr_handler = h, gr_lowercase = True\<rparr>)" "cur_ok cur'"
        "\<And>es. gspec cur (ev # es) = opt_list em @ gspec cur' es"
      using push_step [of h cur ev, OF cont Cons.prems(1)] by blast
    show ?thesis
    proof (cases em)
      case None
      then have "group_next (gk h (x # fs) cur) = group_next (gk h fs cur')"
        using p Inr by (subst group_next.simps) (simp add: gk_def emit_def)
      then have "drain n group_next (gk h (x # fs) cur) = drain n group_next (gk h fs cur')"
        by (rule drain_same_next)
      then show ?thesis using Cons.IH [OF p(2), of n] Cons.prems(2) Inr p(3) None
        by (simp add: opt_list_def)
    next
      case (Some s)
      then have "group_next (gk h (x # fs) cur) = (Some (Inr s), gk h fs cur')"
        using p Inr by (subst group_next.simps) (simp add: gk_def emit_def)
      then show ?thesis using Cons.IH [OF p(2), of k] Cons.prems(2) Inr p(3) Some n
        by (simp add: opt_list_def)
    qed
  qed
qed

section \<open>The spec of runs\<close>

lemma gspec_run:
  "building stem s \<Longrightarrow>
   gspec (Some s) es = foldl add_file s (takeWhile (belongs stem) es) # gspec None (dropWhile (belongs stem) es)"
proof (induction es arbitrary: s)
  case Nil
  then show ?case by (simp add: opt_list_def)
next
  case (Cons ev es)
  show ?case
  proof (cases ev)
    case EndOfShard
    then show ?thesis by (simp add: belongs_def opt_list_def)
  next
    case (File f)
    show ?thesis
    proof (cases "base_plus_ext (file_name f)")
      case None
      then show ?thesis using Cons File by (simp add: belongs_def add_file_def)
    next
      case (Some r)
      then obtain st ext where r: "base_plus_ext (file_name f) = Some (st, ext)" by (cases r) auto
      show ?thesis
      proof (cases "st = stem")
        case True
        then show ?thesis
          using Cons.IH [OF building_add [OF Cons.prems]] building_key [OF Cons.prems] File r
          by (simp add: belongs_def)
      next
        case False
        then show ?thesis
          using building_key [OF Cons.prems] File r by (simp add: belongs_def opt_list_def)
      qed
    qed
  qed
qed

lemma gspec_runs: "gspec None es = map run_sample (runs es)"
proof (induction es rule: runs.induct)
  case (3 f es)
  show ?case
  proof (cases "base_plus_ext (file_name f)")
    case None
    then show ?thesis using 3 by simp
  next
    case (Some r)
    then obtain stem ext where r: "base_plus_ext (file_name f) = Some (stem, ext)" by (cases r) auto
    have "gspec (Some (add_file (start_sample stem f) (File f))) es =
        foldl add_file (add_file (start_sample stem f) (File f)) (takeWhile (belongs stem) es) #
        gspec None (dropWhile (belongs stem) es)"
      by (rule gspec_run [OF building_add [OF building_start]])
    then show ?thesis
      using 3(2) r by (simp add: run_sample_def opt_list_def)
  qed
qed (simp_all add: opt_list_def)

definition group_all :: "file_event res list \<Rightarrow> handler \<Rightarrow> sample res list" where
  "group_all fs h = drain (Suc (Suc (length fs))) group_next (group_events fs h)"

lemma group_all_runs:
  assumes "\<And>e. h e = Continue"
  shows "group_all fs h = map Inr (map run_sample (runs (rights fs)))"
proof -
  have "group_events fs h = gk h fs None"
    by (simp add: group_events_def gk_def grouper_new_def)
  then show ?thesis
    using drain_group_next [of h None fs "Suc (Suc (length fs))", OF assms]
    by (simp add: group_all_def cur_ok_def gspec_runs)
qed

lemma takeWhile_dropWhile_boundary:
  "takeWhile (belongs stem) (a @ EndOfShard # b) = takeWhile (belongs stem) a"
  "dropWhile (belongs stem) (a @ EndOfShard # b) = dropWhile (belongs stem) a @ EndOfShard # b"
  by (induction a) (simp_all add: belongs_def)

lemma runs_boundary: "runs (a @ EndOfShard # b) = runs a @ runs b"
proof (induction a rule: runs.induct)
  case (3 f es)
  then show ?case
    by (cases "base_plus_ext (file_name f)") (auto simp: takeWhile_dropWhile_boundary)
qed simp_all

section \<open>What a sample holds\<close>

text \<open>The contents of the first file of the run with this (lowercased) extension.\<close>

fun first_data :: "string \<Rightarrow> file_event list \<Rightarrow> bytes option" where
  "first_data k [] = None"
| "first_data k (EndOfShard # es) = first_data k es"
| "first_data k (File f # es) =
     (case base_plus_ext (file_name f) of
        None \<Rightarrow> first_data k es
      | Some (_, ext) \<Rightarrow> if to_ascii_lowercase ext = k then Some (file_data f) else first_data k es)"

lemma get_add_file:
  "get k (add_file s (File f)) =
     (case get k s of
        Some v \<Rightarrow> Some v
      | None \<Rightarrow>
          (case base_plus_ext (file_name f) of
             Some (_, ext) \<Rightarrow> if to_ascii_lowercase ext = k then Some (Bytes (file_data f)) else None
           | None \<Rightarrow> None))"
  by (auto simp: add_file_def Let_def get_put contains_key_def split: option.split)

lemma get_foldl_add:
  "get k (foldl add_file s es) =
     (case get k s of Some v \<Rightarrow> Some v | None \<Rightarrow> map_option Bytes (first_data k es))"
proof (induction es arbitrary: s)
  case (Cons ev es)
  show ?case
  proof (cases ev)
    case EndOfShard
    then have "add_file s ev = s" by (simp add: add_file_def)
    then show ?thesis using Cons EndOfShard by (simp split: option.split)
  next
    case (File f)
    then show ?thesis
      by (cases "base_plus_ext (file_name f)") (auto simp: Cons get_add_file split: option.split)
  qed
qed (simp split: option.split)

lemma get_start_sample:
  "k \<notin> {KEY, URL, LOCAL_PATH} \<Longrightarrow> get k (start_sample stem f) = None"
  by (auto simp: start_sample_def with_key_def sample_insert_def get_put Let_def split: option.split)

lemma sample_url_start: "file_url f = Some u \<Longrightarrow> get URL (start_sample stem f) = Some (Text u)"
  by (auto simp: start_sample_def with_key_def sample_insert_def get_put Let_def KEY_def URL_def LOCAL_PATH_def
      split: option.split)

definition run_events :: "string \<times> tar_file \<times> file_event list \<Rightarrow> file_event list" where
  "run_events r = (case r of (stem, f, es) \<Rightarrow> es)"

definition named :: "file_event \<Rightarrow> bool" where
  "named ev = (case ev of EndOfShard \<Rightarrow> False | File f \<Rightarrow> base_plus_ext (file_name f) \<noteq> None)"

lemma named_simps [simp]:
  "\<not> named EndOfShard" "named (File f) = (base_plus_ext (file_name f) \<noteq> None)"
  by (simp_all add: named_def)

lemma filter_named_split:
  "filter named (takeWhile P es) @ filter named (dropWhile P es) = filter named es"
  by (metis filter_append takeWhile_dropWhile_id)

lemma runs_cover: "filter named (concat (map run_events (runs es))) = filter named es"
proof (induction es rule: runs.induct)
  case (3 f es)
  then show ?case
    by (cases "base_plus_ext (file_name f)")
       (auto simp: run_events_def filter_named_split)
qed simp_all

lemma runs_belong: "(stem, f, es) \<in> set (runs evs) \<Longrightarrow> list_all (belongs stem) es"
proof (induction evs rule: runs.induct)
  case (3 g es')
  then show ?case
    by (cases "base_plus_ext (file_name g)")
       (auto simp: belongs_def [of _ "File g"] list_all_iff dest: set_takeWhileD)
qed simp_all

section \<open>The properties of grouping\<close>

definition plain_event :: "string \<Rightarrow> bytes \<Rightarrow> file_event" where
  "plain_event n d = File \<lparr>file_name = n, file_data = d, file_url = None, file_path = None\<rparr>"

definition plain_file :: "string \<Rightarrow> bytes \<Rightarrow> file_event res" where
  "plain_file n d = Inr (File \<lparr>file_name = n, file_data = d, file_url = None, file_path = None\<rparr>)"

text \<open>C21: when the handler continues after every error, the grouping iterator yields one
  sample for each maximal run of consecutive files that share a base name within one
  shard, in order; files without an extension and failed items are skipped, and
  nothing else is added or dropped: the runs cover every file that has an extension,
  in order, and all the files of a run have its base name.\<close>
theorem grouping_is_runs:
  assumes "\<And>e. h e = Continue"
  shows "group_all fs h = map (Inr \<circ> run_sample) (runs (rights fs)) \<and>
    filter named (concat (map run_events (runs (rights fs)))) = filter named (rights fs) \<and>
    list_all (\<lambda>(stem, f, es). list_all (belongs stem) es) (runs (rights fs))"
  using group_all_runs [OF assms] runs_cover runs_belong by (auto simp: list_all_iff)

theorem grouping_is_runs_witness:
  "group_all [plain_file ''a.txt'' [1], plain_file ''a.cls'' [2], plain_file ''b.txt'' [3]]
      ignore_and_continue =
    [Inr [(KEY, Text ''a''), (''txt'', Bytes [1]), (''cls'', Bytes [2])],
     Inr [(KEY, Text ''b''), (''txt'', Bytes [3])]]"
proof -
  let ?fs = "[plain_file ''a.txt'' [1], plain_file ''a.cls'' [2], plain_file ''b.txt'' [3]]"
  have "map (Inr \<circ> run_sample) (runs (rights ?fs)) =
    ([Inr [(KEY, Text ''a''), (''txt'', Bytes [1]), (''cls'', Bytes [2])],
      Inr [(KEY, Text ''b''), (''txt'', Bytes [3])]] :: sample res list)"
    by code_simp
  then show ?thesis
    using grouping_is_runs [of ignore_and_continue ?fs] by simp
qed

text \<open>A sample of a run is keyed by the base name, carries the URL of the run's first
  file, and every other field is the contents of the first file of the run with that
  lowercased extension.\<close>
theorem run_sample_fields:
  assumes "file_url f = Some u" and "k \<notin> {KEY, URL, LOCAL_PATH}"
  shows "sample_key (run_sample (stem, f, es)) = Some stem \<and>
    sample_url (run_sample (stem, f, es)) = Some u \<and>
    get k (run_sample (stem, f, es)) = map_option Bytes (first_data k es) \<and>
    is_valid (run_sample (stem, f, es))"
  using assms get_start_sample [OF assms(2)] sample_url_start [OF assms(1)]
    building_key [OF building_foldl [OF building_start]]
    building_valid [OF building_foldl [OF building_start]]
  by (simp add: run_sample_def get_foldl_add sample_url_def value_str_def)

theorem run_sample_fields_witness:
  "get ''txt'' (run_sample (''a'', \<lparr>file_name = ''a.txt'', file_data = [1], file_url = Some ''u'', file_path = None\<rparr>,
      [plain_event ''a.txt'' [1], plain_event ''a.TXT'' [2]])) = Some (Bytes [1])"
proof -
  have "''txt'' \<notin> {KEY, URL, LOCAL_PATH}" by (simp add: KEY_def URL_def LOCAL_PATH_def)
  moreover have "first_data ''txt'' [plain_event ''a.txt'' [1], plain_event ''a.TXT'' [2]] = Some [1]"
    by code_simp
  ultimately show ?thesis
    using run_sample_fields [of "\<lparr>file_name = ''a.txt'', file_data = [1], file_url = Some ''u'', file_path = None\<rparr>"
        "''u''" "''txt''"] by simp
qed

text \<open>No sample spans two shards: grouping a stream cut by an end-of-shard marker is
  grouping its two halves.\<close>
theorem grouping_respects_shards:
  assumes "\<And>e. h e = Continue"
  shows "group_all (xs @ Inr EndOfShard # ys) h = group_all xs h @ group_all ys h"
  by (simp add: group_all_runs [OF assms] rights_append runs_boundary)

theorem grouping_respects_shards_witness:
  "group_all [plain_file ''a.txt'' [1], Inr EndOfShard, plain_file ''a.cls'' [2]] ignore_and_continue =
    [Inr [(KEY, Text ''a''), (''txt'', Bytes [1])], Inr [(KEY, Text ''a''), (''cls'', Bytes [2])]]"
proof -
  have "map run_sample (runs (rights [plain_file ''a.txt'' [1]])) =
      [[(KEY, Text ''a''), (''txt'', Bytes [1])]]"
    "map run_sample (runs (rights [plain_file ''a.cls'' [2]])) =
      [[(KEY, Text ''a''), (''cls'', Bytes [2])]]" by code_simp+
  then show ?thesis
    using grouping_respects_shards [of ignore_and_continue "[plain_file ''a.txt'' [1]]"
        "[plain_file ''a.cls'' [2]]"]
    by (simp add: group_all_runs del: rights.simps)
qed


text \<open>A file whose extension is a reserved field name destroys its predecessor: when
  \<^verbatim>\<open>b.__key__\<close> follows the file of another sample and the handler reraises, the sample
  that was already complete is dropped, and the empty new one is emitted.\<close>
theorem reserved_extension_loses_sample:
  "group_all [plain_file ''a.txt'' d, plain_file ''b.__key__'' e] reraise_exception =
    [Inl (DuplicateKey ''__key__'' ''b''), Inr [(KEY, Text ''b'')]]"
proof -
  have "base_plus_ext ''a.txt'' = Some (''a'', ''txt'')"
    "base_plus_ext ''b.__key__'' = Some (''b'', ''__key__'')" by code_simp+
  moreover have "to_ascii_lowercase ''txt'' = ''txt''"
    "to_ascii_lowercase ''__key__'' = ''__key__''" by code_simp+
  ultimately show ?thesis
    by (simp add: group_all_def group_events_def grouper_new_def plain_file_def group_next.simps
        push_def valid_opt_def is_valid_def start_sample_def with_key_def sample_insert_def
        contains_key_def sample_key_def value_str_def emit_def finish_def KEY_def Let_def)
qed

end
