(* ===== verification/Writer.thy ===== *)
theory Writer
  imports Grouping "HOL-Library.List_Lexorder"
begin

text \<open>
  \<^verbatim>\<open>webdataset-shard/src/writer.rs\<close> and the choice of a compression in
  \<^verbatim>\<open>compress.rs\<close>: samples are written as tar members, and a series of numbered shards
  is started as the limits are reached.  The \<^verbatim>\<open>tar\<close> crate is represented by the members
  it was given; what it and the output streams refuse is the parameter \<open>sinks\<close>: a shard
  name is opened and finished at most once, so each answer may depend on the name, and for
  a member on those already in the archive.  Counters are natural numbers: \<open>2\<^sup>6\<^sup>4\<close> samples or
  bytes are out of reach.
\<close>

type_synonym encoder = "string \<Rightarrow> field_value \<Rightarrow> bytes res"

definition raw_encode :: encoder where
  "raw_encode ext v =
     (case v of
        Bytes b \<Rightarrow> Inr b
      | Text s \<Rightarrow> Inr (as_bytes s)
      | _ \<Rightarrow> Inl (Encode ext ''the raw encoder only stores bytes and text''))"

datatype compression = NoCompression | GzipCompression | ZstdCompression | Bzip2Compression | XzCompression

definition for_name :: "string \<Rightarrow> compression" where
  "for_name name =
     (let lower = to_ascii_lowercase name in
      if ends_with ''.tgz'' lower \<or> ends_with ''.gz'' lower then GzipCompression
      else if ends_with ''.zst'' lower \<or> ends_with ''.zstd'' lower then ZstdCompression
      else if ends_with ''.bz2'' lower \<or> ends_with ''.tbz'' lower then Bzip2Compression
      else if ends_with ''.xz'' lower then XzCompression
      else NoCompression)"

section \<open>One archive\<close>

record out_member =
  out_path :: string
  out_data :: bytes
  out_mode :: nat
  out_mtime :: nat
  out_user :: string
  out_group :: string

record sinks =
  open_fails :: "string \<Rightarrow> compression \<Rightarrow> error option"
  append_fails :: "string \<Rightarrow> out_member list \<Rightarrow> out_member \<Rightarrow> bool"
  finish_fails :: "string \<Rightarrow> out_member list \<Rightarrow> error option"

record tar_writer =
  tw_url :: string
  builder :: "out_member list option"
  tw_encode :: encoder
  tw_user :: string
  tw_group :: string
  tw_mode :: nat
  tw_mtime :: "nat option"
  tw_keep_meta :: bool

definition tar_writer_new :: "string \<Rightarrow> tar_writer" where
  "tar_writer_new url =
     \<lparr>tw_url = url, builder = Some [], tw_encode = raw_encode, tw_user = ''bigdata'', tw_group = ''bigdata'',
      tw_mode = 0x124, tw_mtime = None, tw_keep_meta = False\<rparr>"

definition tar_writer_create :: "sinks \<Rightarrow> string \<Rightarrow> tar_writer res" where
  "tar_writer_create sk url =
     (case open_fails sk url (for_name url) of None \<Rightarrow> Inr (tar_writer_new url) | Some e \<Rightarrow> Inl e)"

definition with_encoder :: "encoder \<Rightarrow> tar_writer \<Rightarrow> tar_writer" where
  "with_encoder enc w = w\<lparr>tw_encode := enc\<rparr>"

definition with_owner :: "string \<Rightarrow> string \<Rightarrow> tar_writer \<Rightarrow> tar_writer" where
  "with_owner user grp w = w\<lparr>tw_user := user, tw_group := grp\<rparr>"

definition with_mode :: "nat \<Rightarrow> tar_writer \<Rightarrow> tar_writer" where
  "with_mode m w = w\<lparr>tw_mode := m\<rparr>"

definition with_mtime :: "nat option \<Rightarrow> tar_writer \<Rightarrow> tar_writer" where
  "with_mtime t w = w\<lparr>tw_mtime := t\<rparr>"

definition keep_meta :: "bool \<Rightarrow> tar_writer \<Rightarrow> tar_writer" where
  "keep_meta b w = w\<lparr>tw_keep_meta := b\<rparr>"

text \<open>The fields that are stored, in the order in which they are stored.\<close>
definition stored_names :: "bool \<Rightarrow> sample \<Rightarrow> string list" where
  "stored_names keep s = sort (filter (\<lambda>n. n \<noteq> KEY \<and> (keep \<or> \<not> starts_with ''_'' n)) (keys s))"

definition member_of :: "tar_writer \<Rightarrow> nat \<Rightarrow> string \<Rightarrow> string \<Rightarrow> bytes \<Rightarrow> out_member" where
  "member_of w now key name bs =
     \<lparr>out_path = key @ ''.'' @ name, out_data = bs, out_mode = tw_mode w,
      out_mtime = (case tw_mtime w of Some t \<Rightarrow> t | None \<Rightarrow> now), out_user = tw_user w, out_group = tw_group w\<rparr>"

fun write_fields ::
  "sinks \<Rightarrow> nat \<Rightarrow> string \<Rightarrow> sample \<Rightarrow> string list \<Rightarrow> nat \<Rightarrow> tar_writer \<Rightarrow> nat res \<times> tar_writer" where
  "write_fields sk now key s [] written w = (Inr written, w)"
| "write_fields sk now key s (name # names) written w =
     (case get name s of
        None \<Rightarrow> (Inl (Panic ''name came from the sample''), w)
      | Some v \<Rightarrow>
          (case tw_encode w name v of
             Inl e \<Rightarrow> (Inl e, w)
           | Inr bs \<Rightarrow>
               (case builder w of
                  None \<Rightarrow> (Inl (Value ''writer is already closed''), w)
                | Some ms \<Rightarrow>
                    (let m = member_of w now key name bs in
                     if append_fails sk (tw_url w) ms m then (Inl (Encode name []), w)
                     else
                       write_fields sk now key s names (written + length bs)
                         (w\<lparr>builder := Some (ms @ [m])\<rparr>)))))"

definition tar_write :: "sinks \<Rightarrow> nat \<Rightarrow> sample \<Rightarrow> tar_writer \<Rightarrow> nat res \<times> tar_writer" where
  "tar_write sk now s w =
     (case sample_key s of
        None \<Rightarrow> (Inl (Value ''a sample must have a __key__ before it can be written''), w)
      | Some key \<Rightarrow> write_fields sk now key s (stored_names (tw_keep_meta w) s) 0 w)"

text \<open>Closing hands out the members of the finished archive.\<close>
definition tar_close :: "sinks \<Rightarrow> tar_writer \<Rightarrow> (string \<times> out_member list) list res \<times> tar_writer" where
  "tar_close sk w =
     (case builder w of
        None \<Rightarrow> (Inr [], w)
      | Some ms \<Rightarrow>
          (case finish_fails sk (tw_url w) ms of
             Some e \<Rightarrow> (Inl e, w\<lparr>builder := None\<rparr>)
           | None \<Rightarrow> (Inr [(tw_url w, ms)], w\<lparr>builder := None\<rparr>)))"

section \<open>A series of archives\<close>

record shard_writer =
  pattern :: string
  max_count :: nat
  max_size :: nat
  shard :: nat
  sw_count :: nat
  sw_size :: nat
  sw_total :: nat
  sw_current :: "tar_writer option"
  sw_name :: "string option"
  sw_encode :: encoder
  post :: "(string list \<Rightarrow> string \<Rightarrow> error option) option"
  posted :: "string list"
  archives :: "(string \<times> out_member list) list"

definition shard_writer_new :: "string \<Rightarrow> shard_writer res" where
  "shard_writer_new pat =
     map_res
       (\<lambda>_. \<lparr>pattern = pat, max_count = 100000, max_size = 3000000000, shard = 0, sw_count = 0, sw_size = 0,
             sw_total = 0, sw_current = None, sw_name = None, sw_encode = raw_encode, post = None,
             posted = [], archives = []\<rparr>)
       (format_shard_pattern pat 0)"

definition with_start_shard :: "nat \<Rightarrow> shard_writer \<Rightarrow> shard_writer" where
  "with_start_shard n w = w\<lparr>shard := n\<rparr>"

definition with_max_count :: "nat \<Rightarrow> shard_writer \<Rightarrow> shard_writer" where
  "with_max_count n w = w\<lparr>max_count := n\<rparr>"

definition with_max_size :: "nat \<Rightarrow> shard_writer \<Rightarrow> shard_writer" where
  "with_max_size n w = w\<lparr>max_size := n\<rparr>"

definition shard_with_encoder :: "encoder \<Rightarrow> shard_writer \<Rightarrow> shard_writer" where
  "shard_with_encoder enc w = w\<lparr>sw_encode := enc\<rparr>"

text \<open>The hook may keep a state: its answer may depend on the names it was called with before.\<close>
definition with_post_hook :: "(string list \<Rightarrow> string \<Rightarrow> error option) \<Rightarrow> shard_writer \<Rightarrow> shard_writer" where
  "with_post_hook f w = w\<lparr>post := Some f\<rparr>"

definition finish_shard :: "sinks \<Rightarrow> shard_writer \<Rightarrow> unit res \<times> shard_writer" where
  "finish_shard sk w =
     (case sw_current w of
        None \<Rightarrow> (Inr (), w)
      | Some tw \<Rightarrow>
          (let w = w\<lparr>sw_current := None\<rparr>
           in case fst (tar_close sk tw) of
                Inl e \<Rightarrow> (Inl e, w)
              | Inr fin \<Rightarrow>
                  (let w = w\<lparr>archives := archives w @ fin\<rparr>
                   in case (post w, sw_name w) of
                        (Some f, Some name) \<Rightarrow>
                          (case f (posted w) name of
                             None \<Rightarrow> (Inr (), w\<lparr>posted := posted w @ [name]\<rparr>)
                           | Some e \<Rightarrow> (Inl e, w\<lparr>posted := posted w @ [name]\<rparr>))
                      | _ \<Rightarrow> (Inr (), w))))"

definition next_shard :: "sinks \<Rightarrow> shard_writer \<Rightarrow> unit res \<times> shard_writer" where
  "next_shard sk w =
     (case finish_shard sk w of
        (Inl e, w) \<Rightarrow> (Inl e, w)
      | (Inr _, w) \<Rightarrow>
          (case format_shard_pattern (pattern w) (shard w) of
             Inl e \<Rightarrow> (Inl e, w)
           | Inr name \<Rightarrow>
               (let w = w\<lparr>shard := shard w + 1\<rparr>
                in case tar_writer_create sk name of
                     Inl e \<Rightarrow> (Inl e, w)
                   | Inr tw \<Rightarrow>
                       (Inr (),
                        w\<lparr>sw_current := Some (with_encoder (sw_encode w) tw), sw_name := Some name,
                          sw_count := 0, sw_size := 0\<rparr>))))"

definition append_sample :: "sinks \<Rightarrow> nat \<Rightarrow> sample \<Rightarrow> shard_writer \<Rightarrow> unit res \<times> shard_writer" where
  "append_sample sk now s w =
     (case sw_current w of
        None \<Rightarrow> (Inl (Panic ''next_shard installed a writer''), w)
      | Some tw \<Rightarrow>
          (case tar_write sk now s tw of
             (Inl e, tw) \<Rightarrow> (Inl e, w\<lparr>sw_current := Some tw\<rparr>)
           | (Inr sz, tw) \<Rightarrow>
               (Inr (),
                w\<lparr>sw_current := Some tw, sw_count := sw_count w + 1, sw_total := sw_total w + 1,
                  sw_size := sw_size w + sz\<rparr>)))"

definition shard_write :: "sinks \<Rightarrow> nat \<Rightarrow> sample \<Rightarrow> shard_writer \<Rightarrow> unit res \<times> shard_writer" where
  "shard_write sk now s w =
     (if sw_current w = None \<or> max_count w \<le> sw_count w \<or> max_size w \<le> sw_size w then
        (case next_shard sk w of
           (Inl e, w) \<Rightarrow> (Inl e, w)
         | (Inr _, w) \<Rightarrow> append_sample sk now s w)
      else append_sample sk now s w)"

definition shard_close :: "sinks \<Rightarrow> shard_writer \<Rightarrow> unit res \<times> shard_writer" where
  "shard_close sk w = finish_shard sk w"

definition current_shard :: "shard_writer \<Rightarrow> string option" where "current_shard w = sw_name w"

definition writer_total :: "shard_writer \<Rightarrow> nat" where "writer_total w = sw_total w"

definition shard_count :: "shard_writer \<Rightarrow> nat" where "shard_count w = shard w"

end
