(* ===== verification/Writer_Spec.thy ===== *)
theory Writer_Spec
  imports Writer
begin

text \<open>
  What the shard writer promises: the samples come out in order, each whole in one
  archive, cut where the limits say; and what reading and grouping make of the members.
\<close>

section \<open>The members of one sample\<close>

definition stored_fields :: "encoder \<Rightarrow> bool \<Rightarrow> sample \<Rightarrow> (string \<times> bytes) list res" where
  "stored_fields enc keep s =
     collect_res
       (\<lambda>n. and_then (ok_or (Panic ''name came from the sample'') (get n s)) (\<lambda>v. map_res (Pair n) (enc n v)))
       (stored_names keep s)"

definition payload :: "(string \<times> bytes) list \<Rightarrow> nat" where
  "payload fs = sum_list (map (length \<circ> snd) fs)"

definition sinks_ok :: "sinks \<Rightarrow> bool" where
  "sinks_ok sk =
     ((\<forall>u c. open_fails sk u c = None) \<and> (\<forall>u ms m. \<not> append_fails sk u ms m) \<and>
      (\<forall>u ms. finish_fails sk u ms = None))"

lemma sinks_okD:
  "sinks_ok sk \<Longrightarrow> open_fails sk u c = None" "sinks_ok sk \<Longrightarrow> \<not> append_fails sk u ms m"
  "sinks_ok sk \<Longrightarrow> finish_fails sk u ms = None"
  by (simp_all add: sinks_ok_def)

lemma member_of_builder [simp]: "member_of (w\<lparr>builder := b\<rparr>) = member_of w"
  by (intro ext) (simp add: member_of_def)

lemma write_fields_ok:
  assumes ok: "sinks_ok sk"
  shows "collect_res (\<lambda>n. and_then (ok_or (Panic ''name came from the sample'') (get n s))
       (\<lambda>v. map_res (Pair n) (tw_encode w n v))) names = Inr fs \<Longrightarrow>
    builder w = Some ms \<Longrightarrow>
    write_fields sk now key s names written w =
      (Inr (written + payload fs), w\<lparr>builder := Some (ms @ map (\<lambda>(n, bs). member_of w now key n bs) fs)\<rparr>)"
proof (induction names arbitrary: fs ms written w)
  case Nil
  then show ?case by (simp add: payload_def)
next
  case (Cons n names)
  from Cons.prems(1) obtain v bs gs where
    n: "get n s = Some v" "tw_encode w n v = Inr bs" "fs = (n, bs) # gs" and
    gs: "collect_res (\<lambda>n. and_then (ok_or (Panic ''name came from the sample'') (get n s))
       (\<lambda>v. map_res (Pair n) (tw_encode w n v))) names = Inr gs"
    by (cases "get n s") (auto split: sum.splits simp: map_res_def)
  let ?w = "w\<lparr>builder := Some (ms @ [member_of w now key n bs])\<rparr>"
  have "write_fields sk now key s names (written + length bs) ?w =
      (Inr (written + length bs + payload gs), ?w\<lparr>builder := Some ((ms @ [member_of w now key n bs]) @
        map (\<lambda>(n, bs). member_of ?w now key n bs) gs)\<rparr>)"
    by (rule Cons.IH) (use gs in simp_all)
  then show ?case
    using Cons.prems(2) n sinks_okD(2) [OF ok] by (simp add: payload_def Let_def)
qed

text \<open>A sample that can be written, its members and its size.\<close>

definition writable :: "encoder \<Rightarrow> sample \<Rightarrow> bool" where
  "writable enc s = (sample_key s \<noteq> None \<and> (\<exists>fs. stored_fields enc False s = Inr fs))"

definition fields_of :: "encoder \<Rightarrow> sample \<Rightarrow> (string \<times> bytes) list" where
  "fields_of enc s = (case stored_fields enc False s of Inr fs \<Rightarrow> fs | Inl e \<Rightarrow> [])"

definition members :: "encoder \<Rightarrow> nat \<times> sample \<Rightarrow> out_member list" where
  "members enc x =
     (case x of
        (now, s) \<Rightarrow> map (\<lambda>(n, bs). member_of (tar_writer_new []) now (the (sample_key s)) n bs) (fields_of enc s))"

definition sample_size :: "encoder \<Rightarrow> nat \<times> sample \<Rightarrow> nat" where
  "sample_size enc x = payload (fields_of enc (snd x))"

definition open_writer :: "encoder \<Rightarrow> string \<Rightarrow> out_member list \<Rightarrow> tar_writer" where
  "open_writer enc url ms = (with_encoder enc (tar_writer_new url))\<lparr>builder := Some ms\<rparr>"

lemma member_of_open: "member_of (open_writer enc url ms) = member_of (tar_writer_new [])"
  by (intro ext) (simp add: member_of_def open_writer_def with_encoder_def tar_writer_new_def)

lemma tar_write_open:
  assumes ok: "sinks_ok sk" and s: "writable enc s"
  shows "tar_write sk now s (open_writer enc url ms) =
    (Inr (sample_size enc (now, s)), open_writer enc url (ms @ members enc (now, s)))"
proof -
  obtain key where key: "sample_key s = Some key" using s by (auto simp: writable_def)
  obtain fs where fs: "stored_fields enc False s = Inr fs" using s by (auto simp: writable_def)
  have w: "tw_encode (open_writer enc url ms) = enc" "builder (open_writer enc url ms) = Some ms"
    "\<not> tw_keep_meta (open_writer enc url ms)"
    by (simp_all add: open_writer_def with_encoder_def tar_writer_new_def)
  have "write_fields sk now key s (stored_names False s) 0 (open_writer enc url ms) =
      (Inr (0 + payload fs), (open_writer enc url ms)\<lparr>builder :=
        Some (ms @ map (\<lambda>(n, bs). member_of (open_writer enc url ms) now key n bs) fs)\<rparr>)"
    by (rule write_fields_ok [OF ok]) (use fs w in \<open>simp_all add: stored_fields_def\<close>)
  moreover have "(open_writer enc url ms)\<lparr>builder := Some ns\<rparr> = open_writer enc url ns" for ns
    by (simp add: open_writer_def)
  ultimately show ?thesis
    using key fs w by (simp add: tar_write_def members_def sample_size_def fields_of_def member_of_open)
qed

section \<open>Cutting the samples\<close>

definition held_size :: "('a \<Rightarrow> nat) \<Rightarrow> 'a list \<Rightarrow> nat" where
  "held_size sz xs = sum_list (map sz xs)"

fun shard_chunks :: "nat \<Rightarrow> nat \<Rightarrow> ('a \<Rightarrow> nat) \<Rightarrow> 'a list \<Rightarrow> 'a list \<Rightarrow> 'a list list" where
  "shard_chunks mc ms sz cur [] = [cur]"
| "shard_chunks mc ms sz cur (x # xs) =
     (if mc \<le> length cur \<or> ms \<le> held_size sz cur then cur # shard_chunks mc ms sz [x] xs
      else shard_chunks mc ms sz (cur @ [x]) xs)"

definition chunk_ok :: "nat \<Rightarrow> nat \<Rightarrow> ('a \<Rightarrow> nat) \<Rightarrow> 'a list \<Rightarrow> bool" where
  "chunk_ok mc ms sz ch =
     (ch \<noteq> [] \<and> length ch \<le> max 1 mc \<and> (1 < length ch \<longrightarrow> held_size sz (butlast ch) < ms))"

definition chunk_full :: "nat \<Rightarrow> nat \<Rightarrow> ('a \<Rightarrow> nat) \<Rightarrow> 'a list \<Rightarrow> bool" where
  "chunk_full mc ms sz ch = (mc \<le> length ch \<or> ms \<le> held_size sz ch)"

lemma chunks_not_Nil [simp]: "shard_chunks mc ms sz cur xs \<noteq> []"
  by (induction mc ms sz cur xs rule: shard_chunks.induct) auto

lemma concat_dealt: "concat (shard_chunks mc ms sz cur xs) = cur @ xs"
  by (induction mc ms sz cur xs rule: shard_chunks.induct) auto

lemma chunks_ok: "chunk_ok mc ms sz cur \<Longrightarrow> list_all (chunk_ok mc ms sz) (shard_chunks mc ms sz cur xs)"
proof (induction mc ms sz cur xs rule: shard_chunks.induct)
  case (2 mc ms sz cur x xs)
  have "chunk_ok mc ms sz [x]" by (simp add: chunk_ok_def)
  moreover have "chunk_ok mc ms sz (cur @ [x])" if "\<not> (mc \<le> length cur \<or> ms \<le> held_size sz cur)"
    using that 2(3) by (auto simp: chunk_ok_def)
  ultimately show ?case using 2 by simp
qed simp

lemma chunks_full: "list_all (chunk_full mc ms sz) (butlast (shard_chunks mc ms sz cur xs))"
  by (induction mc ms sz cur xs rule: shard_chunks.induct) (auto simp: chunk_full_def)

section \<open>The writer cuts like that\<close>

fun write_all :: "sinks \<Rightarrow> (nat \<times> sample) list \<Rightarrow> shard_writer \<Rightarrow> unit res \<times> shard_writer" where
  "write_all sk [] w = (Inr (), w)"
| "write_all sk ((now, s) # xs) w =
     (case shard_write sk now s w of
        (Inl e, w) \<Rightarrow> (Inl e, w)
      | (Inr _, w) \<Rightarrow> write_all sk xs w)"

definition archive_of :: "encoder \<Rightarrow> (nat \<Rightarrow> string) \<Rightarrow> nat \<times> (nat \<times> sample) list \<Rightarrow> string \<times> out_member list" where
  "archive_of enc name x = (case x of (i, ch) \<Rightarrow> (name i, concat (map (members enc) ch)))"

text \<open>The writer \<open>b\<close> after the chunks \<open>fin\<close> were finished, with \<open>cur\<close> in the open shard.\<close>
definition writing ::
  "shard_writer \<Rightarrow> (nat \<Rightarrow> string) \<Rightarrow> (nat \<times> sample) list list \<Rightarrow> (nat \<times> sample) list \<Rightarrow> shard_writer" where
  "writing b name fin cur =
     (let enc = sw_encode b; i = shard b + length fin
      in b\<lparr>shard := Suc i, sw_count := length cur, sw_size := held_size (sample_size enc) cur,
           sw_total := sw_total b + length (concat fin) + length cur,
           sw_current := Some (open_writer enc (name i) (concat (map (members enc) cur))),
           sw_name := Some (name i),
           posted := posted b @ (if post b = None then [] else map (\<lambda>j. name (shard b + j)) [0..<length fin]),
           archives := archives b @ map (archive_of enc name) (enumerate (shard b) fin)\<rparr>)"

definition hook_ok :: "shard_writer \<Rightarrow> bool" where
  "hook_ok b = (case post b of None \<Rightarrow> True | Some f \<Rightarrow> \<forall>l n. f l n = None)"

lemma enumerate_snoc: "enumerate n (xs @ [x]) = enumerate n xs @ [(n + length xs, x)]"
  by (simp add: enumerate_append_eq)

lemma writing_more:
  assumes ok: "sinks_ok sk" and s: "writable (sw_encode b) s"
  shows "append_sample sk now s (writing b name fin cur) = (Inr (), writing b name fin (cur @ [(now, s)]))"
  using tar_write_open [OF ok s]
  by (simp add: append_sample_def writing_def Let_def held_size_def)

lemma finish_writing:
  assumes ok: "sinks_ok sk" and h: "hook_ok b"
  shows "\<exists>w. finish_shard sk (writing b name fin cur) = (Inr (), w) \<and>
    archives w = archives b @ map (archive_of (sw_encode b) name) (enumerate (shard b) (fin @ [cur])) \<and>
    posted w = posted b @ (if post b = None then [] else map (\<lambda>j. name (shard b + j)) [0..<Suc (length fin)]) \<and>
    w = (writing b name fin cur)\<lparr>sw_current := None, archives := archives w, posted := posted w\<rparr>"
proof (cases "post b")
  case None
  then show ?thesis using sinks_okD(3) [OF ok]
    by (simp add: finish_shard_def writing_def Let_def tar_close_def open_writer_def with_encoder_def
        tar_writer_new_def enumerate_snoc archive_of_def)
next
  case (Some f)
  then have "\<And>l n. f l n = None" using h by (simp add: hook_ok_def)
  then show ?thesis using sinks_okD(3) [OF ok] Some
    by (simp add: finish_shard_def writing_def Let_def tar_close_def open_writer_def with_encoder_def
        tar_writer_new_def enumerate_snoc archive_of_def)
qed

lemma writing_rolls:
  assumes ok: "sinks_ok sk" and h: "hook_ok b" and s: "writable (sw_encode b) s"
    and name: "\<And>i. format_shard_pattern (pattern b) i = Inr (name i)"
  shows "(case next_shard sk (writing b name fin cur) of
      (Inl e, w) \<Rightarrow> (Inl e, w) | (Inr _, w) \<Rightarrow> append_sample sk now s w) =
    (Inr (), writing b name (fin @ [cur]) [(now, s)])"
proof -
  obtain w where w: "finish_shard sk (writing b name fin cur) = (Inr (), w)"
    "archives w = archives b @ map (archive_of (sw_encode b) name) (enumerate (shard b) (fin @ [cur]))"
    "posted w = posted b @ (if post b = None then [] else map (\<lambda>j. name (shard b + j)) [0..<Suc (length fin)])"
    "w = (writing b name fin cur)\<lparr>sw_current := None, archives := archives w, posted := posted w\<rparr>"
    using finish_writing [OF ok h] by blast
  have p: "pattern w = pattern b" "shard w = shard b + Suc (length fin)" "sw_encode w = sw_encode b"
    by (subst w(4), simp add: writing_def Let_def)+
  have tw: "with_encoder (sw_encode b) (tar_writer_new u) = open_writer (sw_encode b) u []" for u
    by (simp add: open_writer_def with_encoder_def tar_writer_new_def)
  have "next_shard sk (writing b name fin cur) = (Inr (),
      w\<lparr>shard := Suc (shard b + Suc (length fin)),
        sw_current := Some (open_writer (sw_encode b) (name (shard b + Suc (length fin))) []),
        sw_name := Some (name (shard b + Suc (length fin))), sw_count := 0, sw_size := 0\<rparr>)"
    using w(1) sinks_okD(1) [OF ok] by (simp add: next_shard_def p name tar_writer_create_def tw)
  also have "... = (Inr (), writing b name (fin @ [cur]) [])"
    by (subst (1) w(4)) (simp add: w(2,3) writing_def Let_def held_size_def)
  finally show ?thesis using writing_more [OF ok s] by simp
qed

lemma write_first:
  assumes ok: "sinks_ok sk" and s: "writable (sw_encode b) s"
    and name: "\<And>i. format_shard_pattern (pattern b) i = Inr (name i)" and none: "sw_current b = None"
  shows "shard_write sk now s b = (Inr (), writing b name [] [(now, s)])"
proof -
  have tw: "with_encoder (sw_encode b) (tar_writer_new u) = open_writer (sw_encode b) u []" for u
    by (simp add: open_writer_def with_encoder_def tar_writer_new_def)
  have "next_shard sk b = (Inr (), writing b name [] [])"
    using none sinks_okD(1) [OF ok]
    by (simp add: next_shard_def finish_shard_def name tar_writer_create_def tw writing_def Let_def held_size_def)
  then show ?thesis using none writing_more [OF ok s, of now name "[]" "[]"] by (simp add: shard_write_def)
qed

lemma write_all_chunks:
  assumes ok: "sinks_ok sk" and h: "hook_ok b"
    and name: "\<And>i. format_shard_pattern (pattern b) i = Inr (name i)"
  shows "list_all (\<lambda>(now, s). writable (sw_encode b) s) xs \<Longrightarrow>
    \<exists>fin' cur'. write_all sk xs (writing b name fin cur) = (Inr (), writing b name fin' cur') \<and>
      fin' @ [cur'] = fin @ shard_chunks (max_count b) (max_size b) (sample_size (sw_encode b)) cur xs"
proof (induction xs arbitrary: fin cur)
  case (Cons x xs)
  obtain now s where x: "x = (now, s)" by (cases x)
  have s: "writable (sw_encode b) s" using Cons.prems x by simp
  let ?full = "max_count b \<le> length cur \<or> max_size b \<le> held_size (sample_size (sw_encode b)) cur"
  have cond: "(sw_current (writing b name fin cur) = None \<or>
      max_count (writing b name fin cur) \<le> sw_count (writing b name fin cur) \<or>
      max_size (writing b name fin cur) \<le> sw_size (writing b name fin cur)) = ?full"
    by (simp add: writing_def Let_def)
  show ?case
  proof (cases ?full)
    case True
    then have "shard_write sk now s (writing b name fin cur) = (Inr (), writing b name (fin @ [cur]) [(now, s)])"
      unfolding shard_write_def cond using writing_rolls [OF ok h s name] by simp
    then show ?thesis using Cons.IH [of "fin @ [cur]" "[(now, s)]"] Cons.prems x True by auto
  next
    case False
    then have "shard_write sk now s (writing b name fin cur) = (Inr (), writing b name fin (cur @ [(now, s)]))"
      unfolding shard_write_def cond using writing_more [OF ok s] by simp
    then show ?thesis using Cons.IH [of fin "cur @ [(now, s)]"] Cons.prems x False by auto
  qed
qed simp

section \<open>Reading the members back\<close>

definition file_of_member :: "string option \<Rightarrow> string option \<Rightarrow> out_member \<Rightarrow> tar_file" where
  "file_of_member u p m = \<lparr>file_name = out_path m, file_data = out_data m, file_url = u, file_path = p\<rparr>"

text \<open>A sample that survives: its key has a plain file name, it has a field to store, the
  extensions hold no slash and stay distinct in lower case, and none is taken.\<close>
definition readable :: "string list \<Rightarrow> encoder \<Rightarrow> sample \<Rightarrow> bool" where
  "readable reserved enc s =
     (writable enc s \<and> good_base (the (sample_key s)) \<and> fields_of enc s \<noteq> [] \<and>
      list_all (\<lambda>(n, bs). CHR ''/'' \<notin> set n \<and> to_ascii_lowercase n \<notin> set reserved) (fields_of enc s) \<and>
      distinct (map (to_ascii_lowercase \<circ> fst) (fields_of enc s)))"

definition member_events :: "string option \<Rightarrow> string option \<Rightarrow> encoder \<Rightarrow> nat \<times> sample \<Rightarrow> file_event list" where
  "member_events u p enc x = map (File \<circ> file_of_member u p) (members enc x)"

text \<open>The sample that comes back: its key, where it was read, and the stored fields.\<close>
definition read_sample :: "string option \<Rightarrow> string option \<Rightarrow> encoder \<Rightarrow> nat \<times> sample \<Rightarrow> sample" where
  "read_sample u p enc x =
     with_key (the (sample_key (snd x))) @
     (case u of Some l \<Rightarrow> [(URL, Text l)] | None \<Rightarrow> []) @
     (case p of Some l \<Rightarrow> [(LOCAL_PATH, Text l)] | None \<Rightarrow> []) @
     map (\<lambda>(n, bs). (to_ascii_lowercase n, Bytes bs)) (fields_of enc (snd x))"

definition reserved_names :: "string list" where
  "reserved_names = [KEY, URL, LOCAL_PATH]"

lemma reserved_distinct: "KEY \<noteq> URL" "KEY \<noteq> LOCAL_PATH" "URL \<noteq> LOCAL_PATH"
  by (simp_all add: KEY_def URL_def LOCAL_PATH_def)

lemma start_sample_fields:
  "start_sample key f =
     with_key key @ (case file_url f of Some l \<Rightarrow> [(URL, Text l)] | None \<Rightarrow> []) @
     (case file_path f of Some l \<Rightarrow> [(LOCAL_PATH, Text l)] | None \<Rightarrow> [])"
  using reserved_distinct
  by (auto simp: start_sample_def with_key_def sample_insert_def split: option.split)

lemma add_file_member:
  assumes "good_base key" "CHR ''/'' \<notin> set n" "to_ascii_lowercase n \<notin> set (keys s)"
    and "file_name f = key @ ''.'' @ n"
  shows "add_file s (File f) = s @ [(to_ascii_lowercase n, Bytes (file_data f))]"
proof -
  have "base_plus_ext (file_name f) = Some (key, n)"
    using assms(1,2,4) base_plus_ext_join [of key n] by simp
  moreover have "get (to_ascii_lowercase n) s = None" using assms(3) by (simp add: get_None_iff)
  ultimately show ?thesis by (simp add: add_file_def contains_key_def put_new)
qed

lemma foldl_members:
  assumes key: "good_base key"
  shows "list_all (\<lambda>(n, bs). CHR ''/'' \<notin> set n) fs \<Longrightarrow>
    distinct (keys s @ map (to_ascii_lowercase \<circ> fst) fs) \<Longrightarrow>
    foldl add_file s (map (File \<circ> file_of_member u p) (map (\<lambda>(n, bs). member_of w now key n bs) fs)) =
      s @ map (\<lambda>(n, bs). (to_ascii_lowercase n, Bytes bs)) fs"
proof (induction fs arbitrary: s)
  case (Cons e fs)
  obtain n bs where e: "e = (n, bs)" by (cases e)
  let ?f = "file_of_member u p (member_of w now key n bs)"
  have "add_file s (File ?f) = s @ [(to_ascii_lowercase n, Bytes (file_data ?f))]"
    by (rule add_file_member [OF key]) (use Cons.prems e in \<open>auto simp: file_of_member_def member_of_def\<close>)
  then show ?case using Cons.IH [of "s @ [(to_ascii_lowercase n, Bytes bs)]"] Cons.prems e
    by (simp add: file_of_member_def member_of_def)
qed simp

lemma belongs_member:
  assumes "good_base key" "CHR ''/'' \<notin> set n"
  shows "belongs stem (File (file_of_member u p (member_of w now key n bs))) \<longleftrightarrow> key = stem"
  using base_plus_ext_join [OF assms] by (simp add: belongs_def file_of_member_def member_of_def)

lemma while_stop:
  assumes "\<forall>x\<in>set xs. P x" and "ys = [] \<or> (\<exists>y ys'. ys = y # ys' \<and> \<not> P y)"
  shows "takeWhile P (xs @ ys) = xs" "dropWhile P (xs @ ys) = ys"
  using assms by (induction xs) auto

lemma runs_one_sample:
  assumes r: "readable reserved_names enc s"
    and other: "es = [] \<or> (\<exists>e es'. es = e # es' \<and> \<not> belongs (the (sample_key s)) e)"
  shows "map run_sample (runs (member_events u p enc (now, s) @ es)) =
    read_sample u p enc (now, s) # map run_sample (runs es)"
proof -
  let ?key = "the (sample_key s)" and ?m = "\<lambda>(n, bs). member_of (tar_writer_new []) now (the (sample_key s)) n bs"
  let ?fs = "fields_of enc s"
  have key: "good_base ?key" and ne: "?fs \<noteq> []"
    and ns: "list_all (\<lambda>(n, bs). CHR ''/'' \<notin> set n) ?fs"
    using r by (auto simp: readable_def list_all_iff)
  obtain n bs gs where fs: "?fs = (n, bs) # gs" using ne by (cases ?fs) auto
  let ?f = "file_of_member u p (?m (n, bs))"
  let ?rest = "map (File \<circ> file_of_member u p) (map ?m gs)"
  have ev: "member_events u p enc (now, s) = File ?f # ?rest"
    by (simp add: member_events_def members_def fs)
  have bpe: "base_plus_ext (file_name ?f) = Some (?key, n)"
    using ns fs base_plus_ext_join [OF key, of n] by (simp add: file_of_member_def member_of_def)
  have "\<forall>x\<in>set ?rest. belongs ?key x"
  proof
    fix x assume "x \<in> set ?rest"
    then obtain n' bs' where "(n', bs') \<in> set gs" "x = File (file_of_member u p (?m (n', bs')))" by auto
    then show "belongs ?key x" using ns fs belongs_member [OF key, of n'] by (auto simp: list_all_iff)
  qed
  then have tw: "takeWhile (belongs ?key) (?rest @ es) = ?rest" "dropWhile (belongs ?key) (?rest @ es) = es"
    using while_stop [OF _ other] by blast+
  have "set (keys (start_sample ?key ?f)) \<subseteq> set reserved_names"
    by (auto simp: start_sample_fields with_key_def sample_insert_def reserved_names_def file_of_member_def
        split: option.splits)
  moreover have "distinct (keys (start_sample ?key ?f))"
    using reserved_distinct
    by (auto simp: start_sample_fields with_key_def sample_insert_def file_of_member_def split: option.split)
  ultimately have d: "distinct (keys (start_sample ?key ?f) @ map (to_ascii_lowercase \<circ> fst) ?fs)"
    using r by (auto simp: readable_def list_all_iff)
  have "runs (member_events u p enc (now, s) @ es) = (?key, ?f, File ?f # ?rest) # runs es"
    using bpe tw by (simp add: ev)
  moreover have "run_sample (?key, ?f, File ?f # ?rest) = read_sample u p enc (now, s)"
    using foldl_members [OF key ns d, of u p "tar_writer_new []" now]
    by (simp add: run_sample_def read_sample_def start_sample_fields fs file_of_member_def)
  ultimately show ?thesis by simp
qed

text \<open>Two neighbours with the same key would be read as one sample.\<close>

definition keys_alternate :: "(nat \<times> sample) list \<Rightarrow> bool" where
  "keys_alternate xs = successively (\<lambda>x y. sample_key (snd x) \<noteq> sample_key (snd y)) xs"

lemma members_hd:
  assumes "readable rs enc s"
  shows "\<exists>n bs fs. member_events u p enc (now, s) =
    File (file_of_member u p (member_of (tar_writer_new []) now (the (sample_key s)) n bs)) # fs \<and> CHR ''/'' \<notin> set n"
  using assms by (cases "fields_of enc s") (auto simp: readable_def member_events_def members_def)

lemma runs_samples:
  "list_all (\<lambda>x. readable reserved_names enc (snd x)) xs \<Longrightarrow> keys_alternate xs \<Longrightarrow>
   map run_sample (runs (concat (map (member_events u p enc) xs))) = map (read_sample u p enc) xs"
proof (induction xs)
  case (Cons x xs)
  obtain now s where x: "x = (now, s)" by (cases x)
  let ?es = "concat (map (member_events u p enc) xs)"
  have r: "readable reserved_names enc s" using Cons.prems x by simp
  have "?es = [] \<or> (\<exists>e es'. ?es = e # es' \<and> \<not> belongs (the (sample_key s)) e)"
  proof (cases xs)
    case (Cons y ys)
    obtain now' s' where y: "y = (now', s')" by (cases y)
    have r': "readable reserved_names enc s'" using Cons.prems Cons y by simp
    then obtain n bs fs where m: "member_events u p enc (now', s') =
        File (file_of_member u p (member_of (tar_writer_new []) now' (the (sample_key s')) n bs)) # fs"
        "CHR ''/'' \<notin> set n"
      using members_hd [OF r'] by blast
    have "sample_key s \<noteq> sample_key s'" using Cons.prems Cons x y by (simp add: keys_alternate_def)
    then have "the (sample_key s) \<noteq> the (sample_key s')" using r r' by (auto simp: readable_def writable_def)
    then have "\<not> belongs (the (sample_key s)) (File (file_of_member u p (member_of (tar_writer_new []) now' (the (sample_key s')) n bs)))"
      using r' m(2) belongs_member [of "the (sample_key s')" n] by (auto simp: readable_def)
    then show ?thesis using m(1) Cons y by auto
  qed simp
  from runs_one_sample [OF r this, of u p now] have
    "map run_sample (runs (member_events u p enc x @ ?es)) = read_sample u p enc x # map run_sample (runs ?es)"
    by (simp add: x)
  moreover have "keys_alternate xs" using Cons.prems by (cases xs) (auto simp: keys_alternate_def)
  ultimately show ?case using Cons by simp
qed simp

lemma concat_member_events:
  "map (File \<circ> file_of_member u p) (concat (map (members enc) xs)) = concat (map (member_events u p enc) xs)"
  by (induction xs) (simp_all add: member_events_def)

section \<open>Properties\<close>

text \<open>C7: rolling over: when nothing fails, writing samples and closing produces archives numbered
  from the start shard on, whose members are the samples' in order, each sample whole in one
  archive; no archive is empty or holds more samples than the count limit, only its last
  sample may cross the size limit, and every archive but the last has reached a limit.\<close>
theorem shard_writer_rotation:
  assumes ok: "sinks_ok sk" and h: "hook_ok b" and name: "\<And>i. format_shard_pattern (pattern b) i = Inr (name i)"
    and fresh: "sw_current b = None" and xs: "xs \<noteq> []" "list_all (\<lambda>(now, s). writable (sw_encode b) s) xs"
  shows "\<exists>w w' chs. write_all sk xs b = (Inr (), w) \<and> shard_close sk w = (Inr (), w') \<and>
    archives w' = archives b @ map (archive_of (sw_encode b) name) (enumerate (shard b) chs) \<and>
    concat chs = xs \<and>
    list_all (chunk_ok (max_count b) (max_size b) (sample_size (sw_encode b))) chs \<and>
    list_all (chunk_full (max_count b) (max_size b) (sample_size (sw_encode b))) (butlast chs)"
proof -
  obtain now s ys where x: "xs = (now, s) # ys" using xs(1) by (cases xs) auto
  let ?chs = "shard_chunks (max_count b) (max_size b) (sample_size (sw_encode b)) [(now, s)] ys"
  have first: "shard_write sk now s b = (Inr (), writing b name [] [(now, s)])"
    using xs(2) x by (intro write_first [OF ok _ name fresh]) auto
  obtain fin cur where run: "write_all sk ys (writing b name [] [(now, s)]) = (Inr (), writing b name fin cur)"
    and chs: "fin @ [cur] = ?chs"
    using write_all_chunks [OF ok h name, where xs = ys and fin = "[]" and cur = "[(now, s)]"] xs(2) x by auto
  obtain w where "finish_shard sk (writing b name fin cur) = (Inr (), w)"
    "archives w = archives b @ map (archive_of (sw_encode b) name) (enumerate (shard b) (fin @ [cur]))"
    using finish_writing [OF ok h] by blast
  moreover have "chunk_ok (max_count b) (max_size b) (sample_size (sw_encode b)) [(now, s)]"
    by (simp add: chunk_ok_def)
  ultimately show ?thesis
    using run first chs x
    by (rule_tac x = "writing b name fin cur" in exI, rule_tac x = w in exI, rule_tac x = ?chs in exI)
       (simp add: shard_close_def chunks_ok chunks_full concat_dealt)
qed

text \<open>Two samples under a count limit of one.\<close>

definition demo_sinks :: sinks where
  "demo_sinks = \<lparr>open_fails = (\<lambda>u c. None), append_fails = (\<lambda>u ms m. False), finish_fails = (\<lambda>u ms. None)\<rparr>"

definition demo_sample :: "string \<Rightarrow> sample" where
  "demo_sample k = [(KEY, Text k), (''txt'', Text ''hi''), (''_x'', Null)]"

lemma demo_fields: "stored_fields raw_encode False (demo_sample k) = Inr [(''txt'', as_bytes ''hi'')]"
  by (simp add: stored_fields_def stored_names_def demo_sample_def starts_with_prefix KEY_def
      raw_encode_def)

lemma demo_key [simp]: "sample_key (demo_sample k) = Some k"
  by (simp add: sample_key_def demo_sample_def value_str_def)

lemma demo_writable: "writable raw_encode (demo_sample k)"
  using demo_fields by (simp add: writable_def)

definition demo_writer :: shard_writer where
  "demo_writer =
     \<lparr>pattern = ''%d'', max_count = 1, max_size = 100, shard = 0, sw_count = 0, sw_size = 0,
      sw_total = 0, sw_current = None, sw_name = None, sw_encode = raw_encode, post = None,
      posted = [], archives = []\<rparr>"

lemma plain_pattern: "format_shard_pattern ''%d'' i = Inr (show_nat i)"
proof -
  have "\<not> starts_with ''%'' ''d''" "takeWhile is_ascii_digit ''d'' = []" "dropWhile is_ascii_digit ''d'' = ''d''"
    by code_simp+
  then show ?thesis
    by (simp add: format_shard_pattern_def format_loop_step conversion_def pad_left_def starts_with_def
        parse_uint_def parse_digits_def)
qed

theorem shard_writer_rotation_witness:
  "\<exists>w w' chs. write_all demo_sinks [(0, demo_sample ''a''), (0, demo_sample ''b'')] demo_writer = (Inr (), w) \<and>
    shard_close demo_sinks w = (Inr (), w') \<and>
    archives w' = map (archive_of raw_encode show_nat) (enumerate 0 chs) \<and>
    concat chs = [(0, demo_sample ''a''), (0, demo_sample ''b'')]"
proof -
  have "\<exists>w w' chs. write_all demo_sinks [(0, demo_sample ''a''), (0, demo_sample ''b'')] demo_writer = (Inr (), w) \<and>
    shard_close demo_sinks w = (Inr (), w') \<and>
    archives w' = archives demo_writer @ map (archive_of (sw_encode demo_writer) show_nat) (enumerate (shard demo_writer) chs) \<and>
    concat chs = [(0, demo_sample ''a''), (0, demo_sample ''b'')] \<and>
    list_all (chunk_ok (max_count demo_writer) (max_size demo_writer) (sample_size (sw_encode demo_writer))) chs \<and>
    list_all (chunk_full (max_count demo_writer) (max_size demo_writer) (sample_size (sw_encode demo_writer))) (butlast chs)"
    by (rule shard_writer_rotation)
       (simp_all add: demo_sinks_def sinks_ok_def demo_writer_def hook_ok_def plain_pattern demo_writable)
  then show ?thesis by (auto simp: demo_writer_def)
qed



text \<open>A failed write leaves a torso: the fields are encoded one by one as they are appended, so
  when a later field cannot be encoded the call fails but the fields before it stay in the
  archive, where a reader takes them for a sample.\<close>
theorem failed_write_leaves_fields:
  "tar_write demo_sinks 0 [(KEY, Text k), (''a'', Text ''x''), (''b'', Null)] (tar_writer_new ''u'') =
   (Inl (Encode ''b'' ''the raw encoder only stores bytes and text''),
    (tar_writer_new ''u'')\<lparr>builder := Some [member_of (tar_writer_new ''u'') 0 k ''a'' (as_bytes ''x'')]\<rparr>)"
proof -
  have "stored_names False [(KEY, Text k), (''a'', Text ''x''), (''b'', Null)] = [''a'', ''b'']"
    by (simp add: stored_names_def KEY_def starts_with_prefix)
  then show ?thesis
    by (simp add: tar_write_def sample_key_def value_str_def tar_writer_new_def raw_encode_def demo_sinks_def KEY_def)
qed

text \<open>The number of shards that have been started, as the documentation calls it, is the number of
  the shard that comes next: a fresh writer that starts at 5 has a count of 5 and no shard.\<close>
lemma shard_count_starts_at:
  "map_res (\<lambda>w. (shard_count (with_start_shard 5 w), archives w, current_shard w)) (shard_writer_new pat) =
   map_res (\<lambda>_. (5, [], None)) (format_shard_pattern pat 0)"
  by (cases "format_shard_pattern pat 0") (simp_all add: shard_writer_new_def shard_count_def with_start_shard_def current_shard_def)

end
