(* ===== verification/Expanding.thy ===== *)
theory Expanding
  imports Grouping "HOL-Library.Sublist"
begin

text \<open>
  What \<open>Expand\<close> delivers, for every list of sources, every handler and every
  content of the archives: the selected files of each archive up to its first
  error, and a boundary behind every archive that was opened.
\<close>

section \<open>One archive\<close>

definition file_of :: "shard_files \<Rightarrow> raw_entry \<Rightarrow> tar_file option" where
  "file_of sf e =
     map_option
       (\<lambda>n. \<lparr>file_name = n, file_data = entry_data e, file_url = shard_url sf,
             file_path = shard_path sf\<rparr>)
       (selection_apply (shard_selection sf) (entry_name e))"

fun shard_items :: "shard_files \<Rightarrow> raw_entry res list \<Rightarrow> tar_file res list" where
  "shard_items sf [] = []"
| "shard_items sf (Inl e # xs) = Inl (Context (describe (shard_url sf)) e) # shard_items sf xs"
| "shard_items sf (Inr e # xs) =
     (case file_of sf e of None \<Rightarrow> shard_items sf xs | Some f \<Rightarrow> Inr f # shard_items sf xs)"

lemma shard_items_entries [simp]: "shard_items (sf\<lparr>entries := t\<rparr>) xs = shard_items sf xs"
  by (induction sf xs rule: shard_items.induct) (simp_all add: file_of_def split: option.split)

lemma yields_shard_files:
  "yields tar_next t xs \<Longrightarrow> yields shard_files_next (sf\<lparr>entries := t\<rparr>) (shard_items sf xs)"
proof (induction arbitrary: sf rule: yields.induct)
  case (stop t t')
  then show ?case by (auto intro!: yields.stop simp: shard_files_next.simps [of "sf\<lparr>entries := t\<rparr>"])
next
  case (item t x t' xs)
  note un = shard_files_next.simps [of "sf\<lparr>entries := t\<rparr>"]
  show ?case
  proof (cases x)
    case (Inl e)
    then show ?thesis using item un by (auto intro!: yields.item)
  next
    case (Inr e)
    show ?thesis
    proof (cases "selection_apply (shard_selection sf) (entry_name e)")
      case None
      then have "shard_files_next (sf\<lparr>entries := t\<rparr>) = shard_files_next (sf\<lparr>entries := t'\<rparr>)"
        using item.hyps(1) Inr un by simp
      from yields_same_next [OF this item.IH] show ?thesis using Inr None by (simp add: file_of_def)
    next
      case (Some n)
      then show ?thesis using item Inr un by (auto intro!: yields.item simp: file_of_def)
    qed
  qed
qed

text \<open>An iterator that stops after its first error.\<close>

fun to_error :: "'a res list \<Rightarrow> 'a res list" where
  "to_error [] = []"
| "to_error (Inl e # xs) = [Inl e]"
| "to_error (Inr x # xs) = Inr x # to_error xs"

lemma yields_tar_files:
  "yields shard_files_next sf xs \<Longrightarrow>
   yields tar_files_next \<lparr>inner = sf, files_done = False\<rparr> (to_error xs)"
proof (induction rule: yields.induct)
  case (stop sf sf')
  then show ?case by (auto intro!: yields.stop simp: tar_files_next_def)
next
  case (item sf x sf' xs)
  show ?case
  proof (cases x)
    case (Inl e)
    have "yields tar_files_next \<lparr>inner = sf', files_done = True\<rparr> []"
      by (rule yields.stop) (simp add: tar_files_next_def)
    moreover have "tar_files_next \<lparr>inner = sf, files_done = False\<rparr> =
        (Some (Inl e), \<lparr>inner = sf', files_done = True\<rparr>)"
      using item.hyps(1) Inl by (simp add: tar_files_next_def)
    ultimately show ?thesis using Inl by (simp add: yields.item)
  next
    case (Inr f)
    then show ?thesis using item by (auto intro!: yields.item simp: tar_files_next_def)
  qed
qed

section \<open>Several archives\<close>

text \<open>The events of an open archive, then those of the sources behind it: \<open>rest\<close> is what
  follows its boundary.\<close>

fun archive_events ::
  "handler \<Rightarrow> file_event res list \<Rightarrow> tar_file res list \<Rightarrow> file_event res list" where
  "archive_events h rest [] = Inr EndOfShard # rest"
| "archive_events h rest (Inr f # xs) = Inr (File f) # archive_events h rest xs"
| "archive_events h rest (Inl e # xs) =
     (case h e of
        Continue \<Rightarrow> Inr EndOfShard # rest
      | Stop \<Rightarrow> [Inr EndOfShard]
      | Reraise \<Rightarrow> Inl e # Inr EndOfShard # rest)"

definition failed_source :: "handler \<Rightarrow> error \<Rightarrow> file_event res list \<Rightarrow> file_event res list" where
  "failed_source h e rest =
     (case h e of Continue \<Rightarrow> rest | Stop \<Rightarrow> [] | Reraise \<Rightarrow> Inl e # rest)"

definition source_items :: "selection \<Rightarrow> shard_source \<Rightarrow> stream \<Rightarrow> tar_file res list" where
  "source_items sel src decoded =
     shard_items
       \<lparr>entries = tar_entries_new decoded, shard_url = Some (src_url src), shard_path = src_path src,
        shard_selection = sel\<rparr>
       (tar_items (tar_entries_new decoded))"

fun expand_events ::
  "(stream \<Rightarrow> stream res) \<Rightarrow> selection \<Rightarrow> handler \<Rightarrow> shard_source res list \<Rightarrow> file_event res list" where
  "expand_events dec sel h [] = []"
| "expand_events dec sel h (Inl e # rest) = failed_source h e (expand_events dec sel h rest)"
| "expand_events dec sel h (Inr src # rest) =
     (case dec (src_stream src) of
        Inl e \<Rightarrow> failed_source h (Context (src_url src) e) (expand_events dec sel h rest)
      | Inr decoded \<Rightarrow>
          archive_events h (expand_events dec sel h rest) (source_items sel src decoded))"

definition ex_state :: "shard_source res list \<Rightarrow> selection \<Rightarrow> handler \<Rightarrow> tar_files option \<Rightarrow> bool \<Rightarrow> bool \<Rightarrow> expand" where
  "ex_state ss sel h cur p d =
     \<lparr>sources = ss, ex_selection = sel, ex_handler = h, current = cur, pending_boundary = p,
      ex_done = d\<rparr>"

lemma yields_boundary:
  assumes "yields (expand_next dec) (ex_state ss sel h None False d) xs"
  shows "yields (expand_next dec) (ex_state ss sel h None True d) (Inr EndOfShard # xs)"
  using assms by (auto intro!: yields.item simp: ex_state_def expand_next.simps)

lemma yields_done: "yields (expand_next dec) (ex_state ss sel h None False True) []"
  by (auto intro!: yields.stop simp: ex_state_def expand_next.simps)

lemma yields_archive_events:
  assumes "yields tar_files_next tf xs"
    and rest: "yields (expand_next dec) (ex_state ss sel h None False False) rest"
  shows "yields (expand_next dec) (ex_state ss sel h (Some tf) False False) (archive_events h rest xs)"
  using assms(1)
proof (induction rule: yields.induct)
  case (stop tf tf')
  then have "expand_next dec (ex_state ss sel h (Some tf) False False) =
      expand_next dec (ex_state ss sel h None True False)"
    by (subst expand_next.simps) (simp add: ex_state_def)
  from yields_same_next [OF this yields_boundary [OF rest]] show ?case by simp
next
  case (item tf x tf' xs)
  show ?case
  proof (cases x)
    case (Inr f)
    then have "expand_next dec (ex_state ss sel h (Some tf) False False) =
        (Some (Inr (File f)), ex_state ss sel h (Some tf') False False)"
      using item.hyps(1) by (subst expand_next.simps) (simp add: ex_state_def)
    then show ?thesis using item.IH Inr by (auto intro: yields.item)
  next
    case (Inl e)
    show ?thesis
    proof (cases "h e")
      case Continue
      then have "expand_next dec (ex_state ss sel h (Some tf) False False) =
          expand_next dec (ex_state ss sel h None True False)"
        using item.hyps(1) Inl by (subst expand_next.simps) (simp add: ex_state_def Let_def)
      from yields_same_next [OF this yields_boundary [OF rest]] show ?thesis using Inl Continue by simp
    next
      case Stop
      then have "expand_next dec (ex_state ss sel h (Some tf) False False) =
          expand_next dec (ex_state ss sel h None True True)"
        using item.hyps(1) Inl by (subst expand_next.simps) (simp add: ex_state_def Let_def)
      from yields_same_next [OF this yields_boundary [OF yields_done]] show ?thesis
        using Inl Stop by simp
    next
      case Reraise
      then have "expand_next dec (ex_state ss sel h (Some tf) False False) =
          (Some (Inl e), ex_state ss sel h None True False)"
        using item.hyps(1) Inl by (subst expand_next.simps) (simp add: ex_state_def Let_def)
      then show ?thesis using yields_boundary [OF rest] Inl Reraise by (auto intro: yields.item)
    qed
  qed
qed

lemma yields_failed_source:
  assumes step: "expand_next dec s =
      (case h e of
         Continue \<Rightarrow> expand_next dec (ex_state ss sel h None False False)
       | Stop \<Rightarrow> (None, ex_state ss sel h None False True)
       | Reraise \<Rightarrow> (Some (Inl e), ex_state ss sel h None False False))"
    and rest: "yields (expand_next dec) (ex_state ss sel h None False False) rest"
  shows "yields (expand_next dec) s (failed_source h e rest)"
proof (cases "h e")
  case Continue
  then show ?thesis using step rest by (auto intro: yields_same_next simp: failed_source_def)
next
  case Stop
  then show ?thesis using step by (auto intro: yields.stop simp: failed_source_def)
next
  case Reraise
  then show ?thesis using step rest by (auto intro: yields.item simp: failed_source_def)
qed

lemma to_error_archive: "archive_events h rest (to_error xs) = archive_events h rest xs"
  by (induction xs rule: to_error.induct) simp_all

lemma yields_expand:
  "yields (expand_next dec) (ex_state ss sel h None False False) (expand_events dec sel h ss)"
proof (induction ss)
  case Nil
  have "expand_next dec (ex_state [] sel h None False False) = (None, ex_state [] sel h None False True)"
    by (subst expand_next.simps) (simp add: ex_state_def)
  then show ?case by (auto intro: yields.stop)
next
  case (Cons x ss)
  show ?case
  proof (cases x)
    case (Inl e)
    have "expand_next dec (ex_state (x # ss) sel h None False False) =
      (case h e of
         Continue \<Rightarrow> expand_next dec (ex_state ss sel h None False False)
       | Stop \<Rightarrow> (None, ex_state ss sel h None False True)
       | Reraise \<Rightarrow> (Some (Inl e), ex_state ss sel h None False False))"
      using Inl by (subst expand_next.simps) (simp add: ex_state_def Let_def split: action.split)
    from yields_failed_source [OF this Cons.IH] show ?thesis using Inl by simp
  next
    case (Inr src)
    show ?thesis
    proof (cases "dec (src_stream src)")
      case (Inl e)
      let ?e = "Context (src_url src) e"
      have "expand_next dec (ex_state (x # ss) sel h None False False) =
        (case h ?e of
           Continue \<Rightarrow> expand_next dec (ex_state ss sel h None False False)
         | Stop \<Rightarrow> (None, ex_state ss sel h None False True)
         | Reraise \<Rightarrow> (Some (Inl ?e), ex_state ss sel h None False False))"
        using Inl Inr
        by (subst expand_next.simps)
           (simp add: ex_state_def Let_def with_options_def shard_files_new_def split: action.split)
      from yields_failed_source [OF this Cons.IH] show ?thesis using Inl Inr by simp
    next
      case (Inr decoded)
      let ?sf = "\<lparr>entries = tar_entries_new decoded, shard_url = Some (src_url src),
        shard_path = src_path src, shard_selection = sel\<rparr>"
      let ?tf = "\<lparr>inner = ?sf, files_done = False\<rparr>"
      have step: "expand_next dec (ex_state (x # ss) sel h None False False) =
          expand_next dec (ex_state ss sel h (Some ?tf) False False)"
        using Inr \<open>x = Inr src\<close>
        by (subst expand_next.simps)
           (simp add: ex_state_def Let_def with_options_def shard_files_new_def)
      have "yields tar_next (tar_entries_new decoded) (tar_items (tar_entries_new decoded))"
        unfolding tar_items_def by (rule tar_pull.yields_all)
      then have "yields tar_files_next ?tf (to_error (source_items sel src decoded))"
        using yields_tar_files yields_shard_files [of _ _ ?sf] by (simp add: source_items_def)
      from yields_same_next [OF step yields_archive_events [OF this Cons.IH]]
      show ?thesis using Inr \<open>x = Inr src\<close> by (simp add: to_error_archive)
    qed
  qed
qed

section \<open>Blocks\<close>

fun files_before_error :: "'a res list \<Rightarrow> 'a list" where
  "files_before_error [] = []"
| "files_before_error (Inl e # xs) = []"
| "files_before_error (Inr f # xs) = f # files_before_error xs"

definition blocks_events :: "(string \<times> tar_file list) list \<Rightarrow> file_event list" where
  "blocks_events bs = concat (map (\<lambda>(u, fs). map File fs @ [EndOfShard]) bs)"

lemma shard_items_url:
  "f \<in> set (files_before_error (shard_items sf xs)) \<Longrightarrow> file_url f = shard_url sf"
  by (induction sf xs rule: shard_items.induct)
     (auto simp: file_of_def split: option.splits)

lemma archive_events_rights:
  "rights (archive_events h rest xs) =
     map File (files_before_error xs) @ EndOfShard # rights rest \<or>
   rights (archive_events h rest xs) = map File (files_before_error xs) @ [EndOfShard]"
  by (induction h rest xs rule: archive_events.induct) (auto split: action.split)

lemma source_items_url:
  "f \<in> set (files_before_error (source_items sel src d)) \<Longrightarrow> file_url f = Some (src_url src)"
  by (auto simp: source_items_def dest: shard_items_url)

lemma expand_events_blocks:
  "\<exists>bs. rights (expand_events dec sel h ss) = blocks_events bs \<and>
     subseq (map fst bs) (map src_url (rights ss)) \<and>
     list_all (\<lambda>(u, fs). list_all (\<lambda>f. file_url f = Some u) fs) bs"
proof (induction dec sel h ss rule: expand_events.induct)
  case (1 dec sel h)
  show ?case by (intro exI [of _ "[]"]) (simp add: blocks_events_def)
next
  case (2 dec sel h e rest)
  show ?case
  proof (cases "h e")
    case Stop
    then show ?thesis by (intro exI [of _ "[]"]) (simp add: blocks_events_def failed_source_def)
  qed (use 2 in \<open>simp_all add: failed_source_def\<close>)
next
  case (3 dec sel h src rest)
  show ?case
  proof (cases "dec (src_stream src)")
    case (Inl e)
    show ?thesis
    proof (cases "h (Context (src_url src) e)")
      case Stop
      then show ?thesis using Inl
        by (intro exI [of _ "[]"]) (simp add: blocks_events_def failed_source_def)
    qed (use 3(1) Inl in \<open>auto simp: failed_source_def intro: list_emb_Cons\<close>)
  next
    case (Inr d)
    let ?fs = "files_before_error (source_items sel src d)"
    have url: "list_all (\<lambda>f. file_url f = Some (src_url src)) ?fs"
      using source_items_url by (auto simp: list_all_iff)
    from 3(2) [OF Inr] obtain bs where bs: "rights (expand_events dec sel h rest) = blocks_events bs"
        "subseq (map fst bs) (map src_url (rights rest))"
        "list_all (\<lambda>(u, fs). list_all (\<lambda>f. file_url f = Some u) fs) bs" by blast
    from archive_events_rights [of h "expand_events dec sel h rest" "source_items sel src d"]
    show ?thesis
    proof
      assume "rights (archive_events h (expand_events dec sel h rest) (source_items sel src d)) =
        map File ?fs @ EndOfShard # rights (expand_events dec sel h rest)"
      then show ?thesis using bs url Inr
        by (intro exI [of _ "(src_url src, ?fs) # bs"]) (simp add: blocks_events_def)
    next
      assume "rights (archive_events h (expand_events dec sel h rest) (source_items sel src d)) =
        map File ?fs @ [EndOfShard]"
      then show ?thesis using url Inr
        by (intro exI [of _ "[(src_url src, ?fs)]"]) (simp add: blocks_events_def)
    qed
  qed
qed

text \<open>What one source contributes: the selected files up to the first error.\<close>

definition source_files :: "(stream \<Rightarrow> stream res) \<Rightarrow> selection \<Rightarrow> shard_source \<Rightarrow> tar_file list" where
  "source_files dec sel src =
     (case dec (src_stream src) of
        Inl e \<Rightarrow> []
      | Inr decoded \<Rightarrow> files_before_error (source_items sel src decoded))"

lemma archive_rights_continue:
  assumes "\<And>e. h e = Continue"
  shows "rights (archive_events h rest xs) = map File (files_before_error xs) @ EndOfShard # rights rest"
  using assms by (induction h rest xs rule: archive_events.induct) auto

lemma runs_of_sources:
  assumes "\<And>e. h e = Continue"
  shows "runs (rights (expand_events dec sel h ss)) =
    concat (map (\<lambda>src. runs (map File (source_files dec sel src))) (rights ss))"
proof (induction ss)
  case (Cons x ss)
  then show ?case
    by (cases x)
       (auto simp: assms failed_source_def source_files_def archive_rights_continue
         runs_boundary split: sum.split)
qed simp

lemma group_all_sources:
  assumes "\<And>e. h e = Continue"
  shows "group_all (expand_events dec sel h ss) h =
    concat (map (\<lambda>src. map (Inr \<circ> run_sample) (runs (map File (source_files dec sel src)))) (rights ss))"
  by (simp add: group_all_runs [OF assms] runs_of_sources [OF assms] map_concat comp_def)

text \<open>A source whose decompressed bytes are an archive.\<close>

definition source_ok :: "(stream \<Rightarrow> stream res) \<Rightarrow> shard_source \<Rightarrow> member list \<Rightarrow> bool" where
  "source_ok dec src ms =
     (list_all member_ok ms \<and>
      (\<exists>r f. dec (src_stream src) = Inr \<lparr>pending = archive ms @ r, fault = f\<rparr>))"

fun selected :: "selection \<Rightarrow> string \<Rightarrow> string option \<Rightarrow> raw_entry list \<Rightarrow> tar_file list" where
  "selected sel u p [] = []"
| "selected sel u p (e # es) =
     (case selection_apply sel (entry_name e) of
        None \<Rightarrow> selected sel u p es
      | Some n \<Rightarrow>
          \<lparr>file_name = n, file_data = entry_data e, file_url = Some u, file_path = p\<rparr>
            # selected sel u p es)"

definition member_files :: "selection \<Rightarrow> shard_source \<Rightarrow> member list \<Rightarrow> tar_file list" where
  "member_files sel src ms = selected sel (src_url src) (src_path src) (concat (map member_entries ms))"

lemma shard_items_selected:
  "shard_items \<lparr>entries = t, shard_url = Some u, shard_path = p, shard_selection = sel\<rparr> (map Inr es) =
    map Inr (selected sel u p es)"
  by (induction es) (simp_all add: file_of_def split: option.split)

lemma source_items_ok:
  assumes "source_ok dec src ms"
  obtains d where "dec (src_stream src) = Inr d"
    and "source_items sel src d = map Inr (member_files sel src ms)"
proof -
  from assms obtain r f where d: "dec (src_stream src) = Inr \<lparr>pending = archive ms @ r, fault = f\<rparr>"
    and ms: "list_all member_ok ms" by (auto simp: source_ok_def)
  have "tar_items (tar_entries_new \<lparr>pending = archive ms @ r, fault = f\<rparr>) =
      map Inr (concat (map member_entries ms))"
    using tar_items_archive [OF ms, of r f] by (simp add: tar_entries_new_def state_def)
  then show thesis
    using that [OF d] by (simp add: source_items_def shard_items_selected member_files_def)
qed

lemma archive_events_files:
  "archive_events h rest (map Inr fs) = map (Inr \<circ> File) fs @ Inr EndOfShard # rest"
  by (induction fs) simp_all

lemma expand_events_ok:
  "list_all2 (source_ok dec) srcs mss \<Longrightarrow>
   expand_events dec sel h (map Inr srcs) =
     concat (map2 (\<lambda>src ms. map (Inr \<circ> File) (member_files sel src ms) @ [Inr EndOfShard]) srcs mss)"
proof (induction rule: list_all2_induct)
  case (Cons src srcs ms mss)
  from source_items_ok [OF Cons.hyps(1), of sel] obtain d where
    "dec (src_stream src) = Inr d" "source_items sel src d = map Inr (member_files sel src ms)" .
  then show ?case using Cons.IH by (simp add: archive_events_files)
qed simp

lemma source_files_ok: "source_ok dec src ms \<Longrightarrow> source_files dec sel src = member_files sel src ms"
proof -
  have "files_before_error (map Inr fs) = fs" for fs :: "tar_file list" by (induction fs) simp_all
  then show "source_ok dec src ms \<Longrightarrow> ?thesis"
    by (elim source_items_ok [where sel = sel]) (simp add: source_files_def)
qed

lemma yields_expand_new: "yields (expand_next dec) (expand_new ss sel h) (expand_events dec sel h ss)"
  using yields_expand by (simp add: expand_new_def ex_state_def)

section \<open>Properties\<close>


text \<open>A boundary always separates two shards: whatever the archives contain and whatever
  the handler decides, the delivered events are whole blocks, each the files of one
  source, all tagged with its URL, closed by an end-of-shard marker, in the order of
  the sources.\<close>
theorem expand_blocks:
  "\<exists>xs bs. yields (expand_next dec) (expand_new ss sel h) xs \<and> rights xs = blocks_events bs \<and>
     subseq (map fst bs) (map src_url (rights ss)) \<and>
     list_all (\<lambda>(u, fs). list_all (\<lambda>f. file_url f = Some u) fs) bs"
  using yields_expand_new expand_events_blocks by metis

end
