(* ===== verification/Pipeline.thy ===== *)
theory Pipeline
  imports Samples Iterators
begin

text \<open>
  \<^verbatim>\<open>webdataset/src/pipeline.rs\<close>: a pipeline is a list of stages that can be run
  again.  A stage turns the items of its input into the items of its output; what it
  keeps across epochs (epoch counters, generators) is a state \<open>'w\<close> that \<open>apply\<close>
  threads.  An endless epoch is outside this model: the streams of one epoch are lists.
\<close>

type_synonym 'w stage = "'w \<Rightarrow> sample res list \<Rightarrow> sample res list \<times> 'w"

datatype repetitions = Once | Times nat | Forever

record 'w data_pipeline =
  stages :: "'w stage list"
  repetitions :: repetitions
  limit :: "nat option"

definition pipeline_new :: "'w data_pipeline" where
  "pipeline_new = \<lparr>stages = [], repetitions = Once, limit = None\<rparr>"

definition pipeline_push :: "'w stage \<Rightarrow> 'w data_pipeline \<Rightarrow> 'w data_pipeline" where
  "pipeline_push st p = p\<lparr>stages := stages p @ [st]\<rparr>"

definition with_stage :: "'w stage \<Rightarrow> 'w data_pipeline \<Rightarrow> 'w data_pipeline" where
  "with_stage st p = pipeline_push st p"

definition repeat :: "nat \<Rightarrow> 'w data_pipeline \<Rightarrow> 'w data_pipeline" where
  "repeat n p = p\<lparr>repetitions := Times n\<rparr>"

definition repeat_forever :: "'w data_pipeline \<Rightarrow> 'w data_pipeline" where
  "repeat_forever p = p\<lparr>repetitions := Forever\<rparr>"

definition with_epoch :: "nat \<Rightarrow> 'w data_pipeline \<Rightarrow> 'w data_pipeline" where
  "with_epoch n p = p\<lparr>repetitions := Forever, limit := Some n\<rparr>"

definition take_samples :: "nat \<Rightarrow> 'w data_pipeline \<Rightarrow> 'w data_pipeline" where
  "take_samples n p = p\<lparr>limit := Some n\<rparr>"

definition pipeline_len :: "'w data_pipeline \<Rightarrow> nat" where
  "pipeline_len p = length (stages p)"

definition pipeline_is_empty :: "'w data_pipeline \<Rightarrow> bool" where
  "pipeline_is_empty p = (stages p = [])"

definition pipeline_stage :: "nat \<Rightarrow> 'w data_pipeline \<Rightarrow> 'w stage option" where
  "pipeline_stage i p = (if i < length (stages p) then Some (stages p ! i) else None)"

definition empty_stream :: "sample res list" where
  "empty_stream = []"

text \<open>\<^verbatim>\<open>Samples\<close>: a source that replays a list.\<close>
definition samples_stage :: "sample list \<Rightarrow> 'w stage" where
  "samples_stage xs w inp = (map Inr xs, w)"

definition run_once :: "'w data_pipeline \<Rightarrow> 'w \<Rightarrow> sample res list \<times> 'w" where
  "run_once p w = foldl (\<lambda>(stream, w) stage. stage w stream) (empty_stream, w) (stages p)"

section \<open>Replaying\<close>

record 'w repeated =
  pipeline :: "'w data_pipeline"
  world :: 'w
  current_epoch :: "sample res list option"
  epochs_left :: "nat option"
  produced :: nat

definition repeated_new :: "'w data_pipeline \<Rightarrow> 'w \<Rightarrow> 'w repeated" where
  "repeated_new p w =
     \<lparr>pipeline = p, world = w, current_epoch = None,
      epochs_left = (case repetitions p of Once \<Rightarrow> Some 1 | Times n \<Rightarrow> Some n | Forever \<Rightarrow> None),
      produced = 0\<rparr>"

text \<open>Start an epoch if none is running; \<open>None\<close> when no epoch is left.\<close>
definition start_epoch :: "'w repeated \<Rightarrow> (sample res list \<times> 'w repeated) option" where
  "start_epoch s =
     (case current_epoch s of
        Some stream \<Rightarrow> Some (stream, s)
      | None \<Rightarrow>
          if epochs_left s = Some 0 then None
          else
            (case run_once (pipeline s) (world s) of
               (stream, w) \<Rightarrow>
                 Some (stream,
                   s\<lparr>world := w, current_epoch := Some stream,
                     epochs_left := map_option (\<lambda>n. n - 1) (epochs_left s), produced := 0\<rparr>)))"

lemma start_epoch_fresh:
  "start_epoch s = Some (stream, s') \<Longrightarrow> current_epoch s = None \<Longrightarrow> produced s' = 0"
  by (auto simp: start_epoch_def split: if_splits prod.splits)

lemma start_epoch_running:
  "start_epoch s = Some (stream, s') \<Longrightarrow> current_epoch s = Some x \<Longrightarrow> s' = s"
  by (auto simp: start_epoch_def)

function repeated_next :: "'w repeated \<Rightarrow> sample res option \<times> 'w repeated" where
  "repeated_next s =
     (case start_epoch s of
        None \<Rightarrow> (None, s)
      | Some (item # rest, s') \<Rightarrow>
          (Some item, s'\<lparr>current_epoch := Some rest, produced := Suc (produced s')\<rparr>)
      | Some ([], s') \<Rightarrow>
          if produced s' = 0 then (None, s'\<lparr>current_epoch := None\<rparr>)
          else repeated_next (s'\<lparr>current_epoch := None\<rparr>))"
  by pat_completeness auto
termination
proof (relation "measure (\<lambda>s. if current_epoch s = None then 0 else 1)", goal_cases)
  case (2 s a b)
  then show ?case using start_epoch_fresh [of s] by (cases "current_epoch s") auto
qed simp

declare repeated_next.simps [simp del]

text \<open>The first \<open>wanted\<close> items of \<^verbatim>\<open>DataPipeline::iter\<close>.\<close>
definition pipeline_items :: "nat \<Rightarrow> 'w data_pipeline \<Rightarrow> 'w \<Rightarrow> sample res list" where
  "pipeline_items wanted p w =
     (let n = (case limit p of Some k \<Rightarrow> min k wanted | None \<Rightarrow> wanted) in
      case repetitions p of
        Once \<Rightarrow> take n (fst (run_once p w))
      | _ \<Rightarrow> drain n repeated_next (repeated_new p w))"

definition items_ok :: "sample res list \<Rightarrow> sample list" where
  "items_ok xs = rights xs"

section \<open>The epochs, one after the other\<close>

text \<open>The epochs that are run: at most \<open>n\<close>, up to the first empty one.\<close>

fun epochs :: "nat \<Rightarrow> ('w \<Rightarrow> sample res list \<times> 'w) \<Rightarrow> 'w \<Rightarrow> sample res list list" where
  "epochs 0 run w = []"
| "epochs (Suc n) run w =
     (case run w of (xs, w') \<Rightarrow> if xs = [] then [] else xs # epochs n run w')"

definition rstate :: "'w data_pipeline \<Rightarrow> 'w \<Rightarrow> sample res list option \<Rightarrow> nat option \<Rightarrow> nat \<Rightarrow> 'w repeated" where
  "rstate p w cur left k =
     \<lparr>pipeline = p, world = w, current_epoch = cur, epochs_left = left, produced = k\<rparr>"

lemma repeated_running:
  "repeated_next (rstate p w (Some (x # xs)) left k) = (Some x, rstate p w (Some xs) left (Suc k))"
  "repeated_next (rstate p w (Some []) left (Suc k)) = repeated_next (rstate p w None left (Suc k))"
  by (subst repeated_next.simps, simp add: rstate_def start_epoch_def)+

lemma repeated_no_epoch: "repeated_next (rstate p w None (Some 0) k) = (None, rstate p w None (Some 0) k)"
  by (subst repeated_next.simps) (simp add: rstate_def start_epoch_def)

lemma repeated_start:
  assumes "run_once p w = (xs, w')" "left \<noteq> Some 0"
  shows "repeated_next (rstate p w None left k) =
    (case xs of
       [] \<Rightarrow> (None, rstate p w' None (map_option (\<lambda>n. n - 1) left) 0)
     | y # ys \<Rightarrow> (Some y, rstate p w' (Some ys) (map_option (\<lambda>n. n - 1) left) 1))"
  using assms by (subst repeated_next.simps) (auto simp: rstate_def start_epoch_def split: list.split)

lemma yields_running:
  "yields repeated_next (rstate p w None left (Suc k + length xs)) ys \<Longrightarrow>
   yields repeated_next (rstate p w (Some xs) left (Suc k)) (xs @ ys)"
proof (induction xs arbitrary: k)
  case Nil
  then show ?case using yields_same_next [OF repeated_running(2)] by simp
next
  case (Cons x xs)
  then have "yields repeated_next (rstate p w (Some xs) left (Suc (Suc k))) (xs @ ys)" by simp
  then show ?case using repeated_running(1) [of p w x xs left "Suc k"] by (auto intro: yields.item)
qed

lemma yields_repeated:
  "yields repeated_next (rstate p w None (Some n) k) (concat (epochs n (run_once p) w))"
proof (induction n arbitrary: w k)
  case 0
  show ?case using repeated_no_epoch [of p w k] by (auto intro: yields.stop)
next
  case (Suc n)
  obtain xs w' where r: "run_once p w = (xs, w')" by fastforce
  note st = repeated_start [OF r, of "Some (Suc n)" k]
  show ?case
  proof (cases xs)
    case Nil
    then show ?thesis using st r by (auto intro: yields.stop)
  next
    case (Cons y ys)
    have "yields repeated_next (rstate p w' (Some ys) (Some n) (Suc 0)) (ys @ concat (epochs n (run_once p) w'))"
      by (rule yields_running) (rule Suc.IH)
    then show ?thesis using st r Cons by (auto intro: yields.item)
  qed
qed

lemma drain_running:
  "length xs \<le> n \<Longrightarrow> drain n repeated_next (rstate p w (Some xs) left (Suc k)) =
     xs @ drain (n - length xs) repeated_next (rstate p w None left (Suc k + length xs))"
proof (induction xs arbitrary: k n)
  case Nil
  then show ?case using drain_same_next [OF repeated_running(2)] by simp
next
  case (Cons x xs)
  then obtain m where "n = Suc m" by (cases n) auto
  then show ?case using Cons repeated_running(1) [of p w x xs left "Suc k"] by simp
qed

lemma length_drain: "length (drain n nxt s) \<le> n"
  by (induction n arbitrary: s) (auto split: prod.split option.split simp: le_SucI)

lemma drain_running_short:
  "n \<le> length xs \<Longrightarrow> drain n repeated_next (rstate p w (Some xs) left (Suc k)) = take n xs"
proof (induction xs arbitrary: k n)
  case (Cons x xs)
  then show ?case using repeated_running(1) [of p w x xs left "Suc k"] by (cases n) auto
qed simp

lemma epochs_more:
  "j \<le> m \<Longrightarrow> \<exists>rest. concat (epochs m run w) = concat (epochs j run w) @ rest"
proof (induction j arbitrary: m w)
  case (Suc j)
  then obtain m' where "m = Suc m'" by (cases m) auto
  then show ?case using Suc by (force split: prod.split)
qed simp

lemma drain_forever:
  assumes "\<And>w. fst (run_once p w) \<noteq> []"
  shows "length (drain n repeated_next (rstate p w None None k)) = n \<and>
    drain n repeated_next (rstate p w None None k) = take n (concat (epochs n (run_once p) w))"
proof (induction n arbitrary: w k rule: less_induct)
  case (less n)
  show ?case
  proof (cases n)
    case (Suc m)
    obtain xs w' where r: "run_once p w = (xs, w')" by fastforce
    then obtain y ys where xs: "xs = y # ys" using assms [of w] by (cases xs) auto
    have st: "repeated_next (rstate p w None None k) = (Some y, rstate p w' (Some ys) None (Suc 0))"
      using repeated_start [OF r, of None k] xs by simp
    show ?thesis
    proof (cases "m \<le> length ys")
      case True
      then have "drain m repeated_next (rstate p w' (Some ys) None (Suc 0)) = take m ys"
        by (rule drain_running_short)
      then show ?thesis using st r xs Suc True by simp
    next
      case False
      let ?k = "m - length ys"
      have dr: "drain m repeated_next (rstate p w' (Some ys) None (Suc 0)) =
          ys @ drain ?k repeated_next (rstate p w' None None (Suc 0 + length ys))"
        using False by (intro drain_running) simp
      have "?k < n" using Suc by simp
      from less.IH [OF this, of w' "Suc 0 + length ys"]
      have IH: "length (drain ?k repeated_next (rstate p w' None None (Suc 0 + length ys))) = ?k"
        "drain ?k repeated_next (rstate p w' None None (Suc 0 + length ys)) = take ?k (concat (epochs ?k (run_once p) w'))"
        by auto
      have "take ?k (concat (epochs ?k (run_once p) w')) = take ?k (concat (epochs m (run_once p) w'))"
      proof -
        obtain rest where "concat (epochs m (run_once p) w') = concat (epochs ?k (run_once p) w') @ rest"
          using epochs_more [of ?k m "run_once p" w'] by auto
        moreover have "?k \<le> length (concat (epochs ?k (run_once p) w'))"
          using arg_cong [OF IH(2), of length] IH(1) by simp
        ultimately show ?thesis by simp
      qed
      then show ?thesis using st r xs Suc dr IH False by simp
    qed
  qed simp
qed

section \<open>Properties\<close>

lemma run_once_stages: "stages p = stages q \<Longrightarrow> run_once p = run_once q"
  by (rule ext) (simp add: run_once_def)

text \<open>Repeating \<open>n\<close> times replays the source: the items are those of the first \<open>n\<close> epochs, each
  started with the state the previous one left, up to the first epoch that gives nothing.\<close>
theorem repeat_epochs:
  "yields repeated_next (repeated_new (repeat n p) w) (concat (epochs n (run_once p) w))"
proof -
  have "run_once (repeat n p) = run_once p" by (rule run_once_stages) (simp add: repeat_def)
  then show ?thesis
    using yields_repeated [of "repeat n p" w n 0] by (simp add: repeated_new_def rstate_def repeat_def)
qed

text \<open>C38: an epoch of fixed length has that length: when the source never runs empty, \<^verbatim>\<open>with_epoch(n)\<close>
  delivers exactly \<open>n\<close> items however short the epochs of the source are, and they are the first \<open>n\<close>
  of the epochs put together.\<close>
theorem with_epoch_exact:
  assumes "\<And>w. fst (run_once p w) \<noteq> []" and "n \<le> wanted"
  shows "length (pipeline_items wanted (with_epoch n p) w) = n \<and>
    pipeline_items wanted (with_epoch n p) w = take n (concat (epochs n (run_once p) w))"
proof -
  have r: "run_once (with_epoch n p) = run_once p" by (rule run_once_stages) (simp add: with_epoch_def)
  have "pipeline_items wanted (with_epoch n p) w =
      drain n repeated_next (rstate (with_epoch n p) w None None 0)"
    using assms(2) by (simp add: pipeline_items_def with_epoch_def repeated_new_def rstate_def Let_def)
  then show ?thesis using drain_forever [of "with_epoch n p" n w 0, unfolded r, OF assms(1)] by metis
qed

theorem with_epoch_exact_witness:
  "pipeline_items 9 (with_epoch 3 (with_stage (samples_stage [with_key ''a'', with_key ''b'']) pipeline_new)) () =
    map Inr [with_key ''a'', with_key ''b'', with_key ''a'']"
proof -
  let ?p = "with_stage (samples_stage [with_key ''a'', with_key ''b'']) pipeline_new :: unit data_pipeline"
  have r: "run_once ?p w = (map Inr [with_key ''a'', with_key ''b''], w)" for w
    by (simp add: run_once_def with_stage_def pipeline_push_def pipeline_new_def samples_stage_def)
  then have "concat (epochs 3 (run_once ?p) ()) =
      map Inr [with_key ''a'', with_key ''b'', with_key ''a'', with_key ''b'', with_key ''a'', with_key ''b'']"
    by (simp add: numeral_3_eq_3)
  then show ?thesis using with_epoch_exact [of ?p 3 9 "()"] r by (simp add: numeral_3_eq_3)
qed

end
