(* ===== verification/Sources.thy ===== *)
theory Sources
  imports Expanding Shards Pipeline
begin

text \<open>
  \<^verbatim>\<open>webdataset/src/sources.rs\<close>: from shard URLs to samples.  An opener turns a URL into
  an opened shard; \<open>gopen\<close> and the file cache are modelled in their own theories and are
  parameters here.  The stage is the composition of opening, expanding and grouping.
\<close>

type_synonym opener = "string \<Rightarrow> shard_source res"

definition streaming_open ::
  "(string \<Rightarrow> stream res) \<Rightarrow> (string \<Rightarrow> string option) \<Rightarrow> opener" where
  "streaming_open gopen local_of url =
     map_res (\<lambda>s. \<lparr>src_url = url, src_path = local_of url, src_stream = s\<rparr>) (gopen url)"

definition caching_open :: "(string \<Rightarrow> (stream \<times> string) res) \<Rightarrow> opener" where
  "caching_open cache_open url =
     map_res (\<lambda>(s, path). \<lparr>src_url = url, src_path = Some path, src_stream = s\<rparr>) (cache_open url)"

text \<open>\<^verbatim>\<open>MemoryOpener\<close>: shards by URL.\<close>
type_synonym memory_opener = "(string \<times> bytes) list"

definition memory_insert :: "string \<Rightarrow> bytes \<Rightarrow> memory_opener \<Rightarrow> memory_opener" where
  "memory_insert url bs m = put url bs m"

definition memory_with :: "string \<Rightarrow> bytes \<Rightarrow> memory_opener \<Rightarrow> memory_opener" where
  "memory_with url bs m = memory_insert url bs m"

definition memory_urls :: "memory_opener \<Rightarrow> string list" where
  "memory_urls m = keys m"

definition memory_open :: "memory_opener \<Rightarrow> opener" where
  "memory_open m url =
     (case get url m of
        None \<Rightarrow> Inl (Value ''not held by this in-memory opener'')
      | Some bs \<Rightarrow> Inr \<lparr>src_url = url, src_path = None, src_stream = stream_of bs\<rparr>)"

record shards_to_samples =
  opener :: opener
  ss_selection :: selection
  ss_handler :: handler

definition shards_to_samples_new :: "opener \<Rightarrow> shards_to_samples" where
  "shards_to_samples_new op =
     \<lparr>opener = op, ss_selection = selection_new, ss_handler = reraise_exception\<rparr>"

definition with_selection :: "selection \<Rightarrow> shards_to_samples \<Rightarrow> shards_to_samples" where
  "with_selection x s = s\<lparr>ss_selection := x\<rparr>"

definition with_handler :: "handler \<Rightarrow> shards_to_samples \<Rightarrow> shards_to_samples" where
  "with_handler x s = s\<lparr>ss_handler := x\<rparr>"

definition open_item :: "opener \<Rightarrow> sample res \<Rightarrow> shard_source res" where
  "open_item op item =
     and_then item
       (\<lambda>s. and_then (ok_or (Value ''shard list produced a sample without a __url__'') (sample_url s))
          (\<lambda>url. with_context url (op url)))"

text \<open>A bound on the events of the opened sources: what the archives can hold, an error and a
  boundary each.\<close>
fun event_bound :: "(stream \<Rightarrow> stream res) \<Rightarrow> shard_source res list \<Rightarrow> nat" where
  "event_bound dec [] = 0"
| "event_bound dec (Inl e # ss) = Suc (event_bound dec ss)"
| "event_bound dec (Inr src # ss) =
     (case dec (src_stream src) of
        Inl e \<Rightarrow> 1
      | Inr decoded \<Rightarrow> tar_left (tar_entries_new decoded) + 2) + event_bound dec ss"

definition shards_to_samples_apply ::
  "(stream \<Rightarrow> stream res) \<Rightarrow> shards_to_samples \<Rightarrow> sample res list \<Rightarrow> sample res list" where
  "shards_to_samples_apply dec st input =
     (let opened = map (open_item (opener st)) input;
          files = drain (Suc (event_bound dec opened)) (expand_next dec)
                    (expand_new opened (ss_selection st) (ss_handler st))
      in group_all files (ss_handler st))"

lemma length_shard_items: "length (shard_items sf xs) \<le> length xs"
  by (induction sf xs rule: shard_items.induct) (auto split: option.split)

lemma length_archive_events:
  "length (archive_events h rest xs) \<le> length xs + 1 + length rest"
  by (induction h rest xs rule: archive_events.induct) (auto split: action.split)

lemma length_expand_events: "length (expand_events dec sel h ss) \<le> event_bound dec ss"
proof (induction dec sel h ss rule: expand_events.induct)
  case (3 dec sel h src rest)
  show ?case
  proof (cases "dec (src_stream src)")
    case (Inl e)
    then show ?thesis using 3(1) by (simp add: failed_source_def split: action.split)
  next
    case (Inr d)
    have "length (source_items sel src d) \<le> tar_left (tar_entries_new d)"
      unfolding source_items_def tar_items_def
      by (rule order.trans [OF length_shard_items tar_pull.length_drain_le])
    then show ?thesis
      using length_archive_events [of h "expand_events dec sel h rest" "source_items sel src d"] 3(2) [OF Inr] Inr
      by simp
  qed
qed (auto simp: failed_source_def split: action.split)

lemma shards_to_samples_events:
  "shards_to_samples_apply dec st input =
     group_all (expand_events dec (ss_selection st) (ss_handler st) (map (open_item (opener st)) input))
       (ss_handler st)"
  using yields_drain [OF yields_expand_new] length_expand_events
  by (simp add: shards_to_samples_apply_def Let_def less_Suc_eq_le del: drain.simps)

section \<open>What a shard contributes\<close>

definition url_samples ::
  "(stream \<Rightarrow> stream res) \<Rightarrow> shards_to_samples \<Rightarrow> string \<Rightarrow> sample list" where
  "url_samples dec st url =
     (case opener st url of
        Inl e \<Rightarrow> []
      | Inr src \<Rightarrow> map run_sample (runs (map File (source_files dec (ss_selection st) src))))"

lemma sample_url_shard: "sample_url (shard_sample url) = Some url"
  by (simp add: shard_sample_def set_url_def sample_insert_def sample_url_def value_str_def)

lemma open_shard_sample: "open_item op (Inr (shard_sample url)) = with_context url (op url)"
  by (simp add: open_item_def sample_url_shard)

lemma shards_to_samples_urls:
  assumes "\<And>e. ss_handler st e = Continue"
  shows "shards_to_samples_apply dec st (map (Inr \<circ> shard_sample) urls) =
    map Inr (concat (map (url_samples dec st) urls))"
proof -
  have "concat (map (\<lambda>src. map (Inr \<circ> run_sample) (runs (map File (source_files dec (ss_selection st) src))))
      (rights (map (open_item (opener st)) (map (Inr \<circ> shard_sample) urls)))) =
    map Inr (concat (map (url_samples dec st) urls))"
    by (induction urls)
       (simp_all add: open_shard_sample url_samples_def with_context_def split: sum.split)
  then show ?thesis
    using group_all_sources [where h = "ss_handler st", OF assms] by (simp add: shards_to_samples_events)
qed

end
