(* ===== verification/Asynch_Filters.thy ===== *)
theory Asynch_Filters
  imports Filters
begin

text \<open>
  \<^verbatim>\<open>webdataset/src/asynch/filters.rs\<close>: the stream adapters of the asynchronous pipeline, and that
  they deliver what the iterator adapters of \<^verbatim>\<open>filters.rs\<close> deliver.  A stream is polled like
  an iterator is pulled: waiting changes when an item comes, not which.  \<open>unfold_next\<close> is
  \<^verbatim>\<open>stream::unfold\<close>: what is carried between items is gone once the stream has ended.
\<close>

definition unfold_next :: "('s \<Rightarrow> ('a \<times> 's option) option) \<Rightarrow> 's option \<Rightarrow> 'a option \<times> 's option" where
  "unfold_next body carried =
     (case carried of
        None \<Rightarrow> (None, None)
      | Some s \<Rightarrow> (case body s of None \<Rightarrow> (None, None) | Some (x, s') \<Rightarrow> (Some x, s')))"

section \<open>Two sources that agree\<close>

locale agreeing =
  fixes nxt :: "'s \<Rightarrow> 'a option \<times> 's" and nxt' :: "'t \<Rightarrow> 'a option \<times> 't"
    and same :: "'s \<Rightarrow> 't \<Rightarrow> bool"
  assumes agree: "same s t \<Longrightarrow> nxt s = (r, s') \<Longrightarrow> \<exists>t'. nxt' t = (r, t') \<and> (r \<noteq> None \<longrightarrow> same s' t')"
begin

lemma drain_agree: "same s t \<Longrightarrow> drain n nxt s = drain n nxt' t"
proof (induction n arbitrary: s t)
  case (Suc n)
  obtain r s' where r: "nxt s = (r, s')" by fastforce
  from agree [OF Suc.prems r] obtain t' where t': "nxt' t = (r, t')" "r \<noteq> None \<longrightarrow> same s' t'" by blast
  then show ?case using r Suc.IH by (cases r) auto
qed simp

lemma yields_agree: "yields nxt s xs \<Longrightarrow> same s t \<Longrightarrow> yields nxt' t xs"
proof (induction arbitrary: t rule: yields.induct)
  case (stop s s')
  then show ?case using agree [of s t None s'] by (auto intro: yields.stop)
next
  case (item s x s' xs)
  then show ?case using agree [OF item.prems item.hyps(1)] by (auto intro: yields.item)
qed

end

section \<open>Shuffling\<close>

definition async_pick :: "(nat \<Rightarrow> 'g \<Rightarrow> nat \<times> 'g) \<Rightarrow> 'a list \<Rightarrow> 'g \<Rightarrow> 'a option \<times> 'a list \<times> 'g" where
  "async_pick draw buf g =
     (if buf = [] then (None, buf, g)
      else (case draw (length buf) g of
              (index, g) \<Rightarrow> (case swap_remove index buf of (x, buf) \<Rightarrow> (Some x, buf, g))))"

record ('a, 'g) async_shuffle =
  as_source :: "'a res list"
  as_buffer :: "'a list"
  as_rng :: 'g
  as_drained :: bool

text \<open>Take a sample out of the buffer; \<open>otherwise\<close> is what an empty buffer means at that place.\<close>
definition async_take ::
  "(nat \<Rightarrow> 'g \<Rightarrow> nat \<times> 'g) \<Rightarrow> ('a res \<times> ('a, 'g) async_shuffle option) option \<Rightarrow> ('a, 'g) async_shuffle \<Rightarrow>
   ('a res \<times> ('a, 'g) async_shuffle option) option" where
  "async_take draw otherwise s =
     (case async_pick draw (as_buffer s) (as_rng s) of
        (None, buf, g) \<Rightarrow> otherwise
      | (Some x, buf, g) \<Rightarrow> Some (Inr x, Some (s\<lparr>as_buffer := buf, as_rng := g\<rparr>)))"

function async_shuffle_body ::
  "(nat \<Rightarrow> 'g \<Rightarrow> nat \<times> 'g) \<Rightarrow> nat \<Rightarrow> nat \<Rightarrow> ('a, 'g) async_shuffle \<Rightarrow>
   ('a res \<times> ('a, 'g) async_shuffle option) option" where
  "async_shuffle_body draw cap init s =
     (if as_drained s then async_take draw None s
      else
        (case as_source s of
           [] \<Rightarrow> async_shuffle_body draw cap init (s\<lparr>as_drained := True\<rparr>)
         | Inl e # rest \<Rightarrow> Some (Inl e, Some (s\<lparr>as_source := rest\<rparr>))
         | Inr x # rest \<Rightarrow>
             (let s = s\<lparr>as_source := rest, as_buffer := as_buffer s @ [x]\<rparr>;
                  full = Some (Inl (Panic ''the buffer is not empty''), None)
              in if length (as_buffer s) < cap then
                   (case rest of
                      Inl e # rest' \<Rightarrow> Some (Inl e, Some (s\<lparr>as_source := rest'\<rparr>))
                    | Inr y # rest' \<Rightarrow>
                        (let s = s\<lparr>as_source := rest', as_buffer := as_buffer s @ [y]\<rparr>
                         in if init \<le> length (as_buffer s) then async_take draw full s
                            else async_shuffle_body draw cap init s)
                    | [] \<Rightarrow>
                        (let s = s\<lparr>as_drained := True\<rparr>
                         in if init \<le> length (as_buffer s) then async_take draw full s
                            else async_shuffle_body draw cap init s))
                 else if init \<le> length (as_buffer s) then async_take draw full s
                 else async_shuffle_body draw cap init s)))"
  by pat_completeness auto
termination
  by (relation "measure (\<lambda>(draw, size, init, s). length (as_source s) + (if as_drained s then 0 else 1))")
     (auto split: if_splits)

declare async_shuffle_body.simps [simp del]

definition async_bufsize :: "nat \<Rightarrow> nat" where "async_bufsize n = max n 1"

definition async_initial :: "nat \<Rightarrow> nat" where "async_initial n = max ((async_bufsize n + 9) div 10) 1"

definition async_shuffled :: "'a res list \<Rightarrow> 'g \<Rightarrow> ('a, 'g) async_shuffle option" where
  "async_shuffled src g = Some \<lparr>as_source = src, as_buffer = [], as_rng = g, as_drained = False\<rparr>"

definition async_shuffle_next ::
  "(nat \<Rightarrow> 'g \<Rightarrow> nat \<times> 'g) \<Rightarrow> nat \<Rightarrow> ('a, 'g) async_shuffle option \<Rightarrow> 'a res option \<times> ('a, 'g) async_shuffle option" where
  "async_shuffle_next draw n = unfold_next (async_shuffle_body draw (async_bufsize n) (async_initial n))"

definition shuffle_state :: "('a, 'g) shuffle \<Rightarrow> ('a, 'g) async_shuffle" where
  "shuffle_state s =
     \<lparr>as_source = sh_source s, as_buffer = buffer s, as_rng = rng s, as_drained = drained s\<rparr>"

lemma shuffle_state_updates [simp]:
  "shuffle_state (s\<lparr>sh_source := xs\<rparr>) = (shuffle_state s)\<lparr>as_source := xs\<rparr>"
  "shuffle_state (s\<lparr>buffer := b\<rparr>) = (shuffle_state s)\<lparr>as_buffer := b\<rparr>"
  "shuffle_state (s\<lparr>rng := g\<rparr>) = (shuffle_state s)\<lparr>as_rng := g\<rparr>"
  "shuffle_state (s\<lparr>drained := d\<rparr>) = (shuffle_state s)\<lparr>as_drained := d\<rparr>"
  by (simp_all add: shuffle_state_def)

lemma shuffle_state_fields [simp]:
  "as_source (shuffle_state s) = sh_source s" "as_buffer (shuffle_state s) = buffer s"
  "as_rng (shuffle_state s) = rng s" "as_drained (shuffle_state s) = drained s"
  by (simp_all add: shuffle_state_def)

definition sync_result ::
  "'a res option \<times> ('a, 'g) shuffle \<Rightarrow> ('a res \<times> ('a, 'g) async_shuffle option) option" where
  "sync_result r = (case r of (None, s) \<Rightarrow> None | (Some x, s) \<Rightarrow> Some (x, Some (shuffle_state s)))"

lemma sync_result_simps [simp]:
  "sync_result (None, s) = None" "sync_result (Some x, s) = Some (x, Some (shuffle_state s))"
  by (simp_all add: sync_result_def)

lemma async_take_pick:
  "t = shuffle_state s \<Longrightarrow> buffer s \<noteq> [] \<or> other = None \<Longrightarrow>
   async_take draw other t = sync_result (pick_from draw s)"
  by (auto simp: async_take_def async_pick_def pick_from_def pick_def split: prod.splits)

lemma async_body_next:
  "0 < initial s \<Longrightarrow>
   async_shuffle_body draw (bufsize s) (initial s) (shuffle_state s) = sync_result (shuffle_next draw s)"
proof (induction draw s rule: shuffle_next.induct)
  case (1 draw s)
  show ?case
  proof (cases "drained s \<or> sh_source s = []")
    case True
    then show ?thesis using 1
      by (subst async_shuffle_body.simps, subst shuffle_next.simps) (auto intro: async_take_pick)
  next
    case False
    then obtain x rest where src: "sh_source s = x # rest" "\<not> drained s" by (cases "sh_source s") auto
    note IH = "1.IH" [OF src(2)] and pos = "1.prems"
    show ?thesis
      using src pos IH
      by (subst async_shuffle_body.simps, subst shuffle_next.simps)
         (auto simp: Let_def split: list.split sum.split intro!: async_take_pick)
  qed
qed

lemma shuffle_next_sizes:
  "bufsize (snd (shuffle_next draw s)) = bufsize s \<and> initial (snd (shuffle_next draw s)) = initial s"
proof (induction draw s rule: shuffle_next.induct)
  case (1 draw s)
  have pick: "bufsize (snd (pick_from draw t)) = bufsize t" "initial (snd (pick_from draw t)) = initial t" for t
    by (auto simp: pick_from_def split: prod.splits)
  show ?case
  proof (cases "drained s \<or> sh_source s = []")
    case True
    then show ?thesis using 1 by (subst (1 2) shuffle_next.simps) (auto simp: pick)
  next
    case False
    then obtain x rest where src: "sh_source s = x # rest" "\<not> drained s" by (cases "sh_source s") auto
    note IH = "1.IH" [OF src(2)]
    show ?thesis
      using src IH by (subst (1 2) shuffle_next.simps) (auto simp: Let_def pick split: list.split sum.split)
  qed
qed

definition same_shuffle :: "nat \<Rightarrow> ('a, 'g) shuffle \<Rightarrow> ('a, 'g) async_shuffle option \<Rightarrow> bool" where
  "same_shuffle n s t = (bufsize s = async_bufsize n \<and> initial s = async_initial n \<and> t = Some (shuffle_state s))"

interpretation shuffles: agreeing "shuffle_next (draw :: nat \<Rightarrow> 'g \<Rightarrow> nat \<times> 'g)" "async_shuffle_next draw n" "same_shuffle n" for draw n
proof
  fix s :: "('a, 'g) shuffle" and t r s'
  assume same: "same_shuffle n s t" and r: "shuffle_next draw s = (r, s')"
  have "0 < initial s" using same by (simp add: same_shuffle_def async_initial_def)
  from async_body_next [OF this, of draw] same r
  have "async_shuffle_body draw (async_bufsize n) (async_initial n) (shuffle_state s) = sync_result (r, s')"
    by (simp add: same_shuffle_def)
  then show "\<exists>t'. async_shuffle_next draw n t = (r, t') \<and> (r \<noteq> None \<longrightarrow> same_shuffle n s' t')"
    using same r shuffle_next_sizes [of draw s]
    by (cases r) (auto simp: async_shuffle_next_def unfold_next_def same_shuffle_def)
qed

lemma shuffled_same: "same_shuffle n (shuffled src n g) (async_shuffled src g)"
  by (auto simp: same_shuffle_def shuffled_def shuffle_new_def async_shuffled_def shuffle_state_def
      async_bufsize_def async_initial_def Let_def min_def max_def)

section \<open>Mapping\<close>

text \<open>The loop of \<^verbatim>\<open>map_sample_with\<close>, over the source and the closure's state.\<close>
fun async_map_body ::
  "(sample \<Rightarrow> 'c \<Rightarrow> sample option res \<times> 'c) \<Rightarrow> handler \<Rightarrow> sample res list \<Rightarrow> 'c \<Rightarrow>
   (sample res \<times> (sample res list \<times> 'c) option) option" where
  "async_map_body f h [] c = None"
| "async_map_body f h (Inl e # xs) c = Some (Inl e, Some (xs, c))"
| "async_map_body f h (Inr s # xs) c =
     (let key = sample_key s in
      case f s c of
        (Inr (Some mapped), c) \<Rightarrow>
          Some (Inr (case key of
                       Some k \<Rightarrow> if \<not> contains_key KEY mapped then set_key k mapped else mapped
                     | None \<Rightarrow> mapped), Some (xs, c))
      | (Inr None, c) \<Rightarrow> async_map_body f h xs c
      | (Inl e, c) \<Rightarrow>
          (case h e of
             Continue \<Rightarrow> async_map_body f h xs c
           | Stop \<Rightarrow> None
           | Reraise \<Rightarrow> Some (Inl e, Some (xs, c))))"

definition async_map_next ::
  "(sample \<Rightarrow> 'c \<Rightarrow> sample option res \<times> 'c) \<Rightarrow> handler \<Rightarrow> (sample res list \<times> 'c) option \<Rightarrow>
   sample res option \<times> (sample res list \<times> 'c) option" where
  "async_map_next f h = unfold_next (\<lambda>(xs, c). async_map_body f h xs c)"

lemma async_map_body_loop:
  "async_map_body f h xs c =
     (case handled_loop (map_body f) h xs c of
        (None, ys, c, d) \<Rightarrow> None | (Some r, ys, c, d) \<Rightarrow> Some (r, Some (ys, c)))"
  by (induction f h xs c rule: async_map_body.induct)
     (auto simp: map_body_def Let_def split: prod.splits sum.splits option.splits action.splits)

lemma handled_loop_done: "handled_loop f h xs c = (Some r, ys, c', d) \<Longrightarrow> \<not> d"
  by (induction f h xs c rule: handled_loop.induct) (auto split: prod.splits sum.splits option.splits action.splits)

interpretation maps: agreeing "map_samples_next f" "async_map_next f h"
  "\<lambda>s t. st_handler s = h \<and> \<not> st_done s \<and> t = Some (st_source s, st_fun s)" for f h
proof
  fix s t r s'
  assume same: "st_handler s = h \<and> \<not> st_done s \<and> t = Some (st_source s, st_fun s)"
    and r: "map_samples_next f s = (r, s')"
  obtain q ys c d where l: "handled_loop (map_body f) h (st_source s) (st_fun s) = (q, ys, c, d)"
    by (metis prod_cases4)
  then have "r = q" "s' = s\<lparr>st_source := ys, st_fun := c, st_done := d\<rparr>"
    using r same by (auto simp: map_samples_next_def handled_next_def)
  then show "\<exists>t'. async_map_next f h t = (r, t') \<and>
      (r \<noteq> None \<longrightarrow> st_handler s' = h \<and> \<not> st_done s' \<and> t' = Some (st_source s', st_fun s'))"
    using same l handled_loop_done [of "map_body f" h "st_source s" "st_fun s" _ ys c d]
    by (cases q) (auto simp: async_map_next_def unfold_next_def async_map_body_loop)
qed

text \<open>\<^verbatim>\<open>decode\<close> and \<^verbatim>\<open>map_sample\<close> hand failures on.\<close>
definition async_map_sample ::
  "(sample \<Rightarrow> 'c \<Rightarrow> sample option res \<times> 'c) \<Rightarrow> (sample res list \<times> 'c) option \<Rightarrow>
   sample res option \<times> (sample res list \<times> 'c) option" where
  "async_map_sample f = async_map_next f reraise_exception"

section \<open>Filtering\<close>

text \<open>\<^verbatim>\<open>StreamExt::filter\<close>, with a closure that keeps a state.\<close>
fun async_filter :: "('a \<Rightarrow> 'c \<Rightarrow> bool \<times> 'c) \<Rightarrow> 'a list \<Rightarrow> 'c \<Rightarrow> 'a option \<times> 'a list \<times> 'c" where
  "async_filter keep [] c = (None, [], c)"
| "async_filter keep (x # xs) c =
     (case keep x c of (b, c) \<Rightarrow> if b then (Some x, xs, c) else async_filter keep xs c)"

definition async_select_keep :: "(sample \<Rightarrow> 'c \<Rightarrow> bool \<times> 'c) \<Rightarrow> sample res \<Rightarrow> 'c \<Rightarrow> bool \<times> 'c" where
  "async_select_keep p item c = (case item of Inr s \<Rightarrow> p s c | Inl e \<Rightarrow> (True, c))"

definition async_select_next ::
  "(sample \<Rightarrow> 'c \<Rightarrow> bool \<times> 'c) \<Rightarrow> sample res list \<times> 'c \<Rightarrow> sample res option \<times> sample res list \<times> 'c" where
  "async_select_next p s = (case s of (xs, c) \<Rightarrow> async_filter (async_select_keep p) xs c)"

lemma async_select_same: "async_select_next p = select_next p"
proof
  fix s
  have "async_filter (async_select_keep p) xs c = select_loop p xs c" for xs c
    by (induction p xs c rule: select_loop.induct) (auto simp: async_select_keep_def split: prod.splits)
  then show "async_select_next p s = select_next p s" by (simp add: async_select_next_def select_next_def split: prod.split)
qed

definition async_rsample_keep :: "('g \<Rightarrow> rat \<times> 'g) \<Rightarrow> rat \<Rightarrow> sample res \<Rightarrow> 'g \<Rightarrow> bool \<times> 'g" where
  "async_rsample_keep uniform probability item g =
     (case item of
        Inr s \<Rightarrow> (case uniform g of (u, g) \<Rightarrow> (u < probability, g))
      | Inl e \<Rightarrow> (True, g))"

definition async_rsample_next ::
  "('g \<Rightarrow> rat \<times> 'g) \<Rightarrow> rat \<Rightarrow> sample res list \<times> 'g \<Rightarrow> sample res option \<times> sample res list \<times> 'g" where
  "async_rsample_next uniform p s =
     (case s of (xs, g) \<Rightarrow> async_filter (async_rsample_keep uniform (max 0 (min p 1))) xs g)"

lemma async_rsample_same:
  "async_rsample_next uniform p (xs, g) = subsample_loop uniform (rsample_new p) xs g"
proof -
  have "async_filter (async_rsample_keep uniform q) xs g = subsample_loop uniform q xs g" for q
    by (induction uniform q xs g rule: subsample_loop.induct) (auto simp: async_rsample_keep_def split: prod.splits)
  then show ?thesis by (simp add: async_rsample_next_def rsample_new_def)
qed

section \<open>Projecting\<close>

definition async_to_tuple :: "string list \<Rightarrow> sample res list \<Rightarrow> field_value list res list" where
  "async_to_tuple specs xs = map (\<lambda>item. and_then item (\<lambda>s. collect_res (\<lambda>spec. require_first_spec spec s) specs)) xs"

fun async_map_row ::
  "(field_value \<Rightarrow> field_value res) option list \<Rightarrow> nat \<Rightarrow> field_value list \<Rightarrow> field_value list res" where
  "async_map_row [] i vs = Inr vs"
| "async_map_row (f # fs) i vs =
     (if length vs \<le> i then Inr vs
      else
        (case f of
           None \<Rightarrow> async_map_row fs (Suc i) vs
         | Some g \<Rightarrow> and_then (g (vs ! i)) (\<lambda>v. async_map_row fs (Suc i) (vs[i := v]))))"

definition async_map_tuple ::
  "(field_value \<Rightarrow> field_value res) option list \<Rightarrow> field_value list res list \<Rightarrow> field_value list res list" where
  "async_map_tuple fs xs = map (\<lambda>item. and_then item (async_map_row fs 0)) xs"

lemma tuple_row_strict:
  "tuple_row True s specs = collect_res (\<lambda>spec. require_first_spec spec s) specs"
  by (induction specs) (auto simp: require_first_spec_def ok_or_def map_res_def split: option.splits sum.splits)

lemma async_map_row_at:
  "async_map_row fs (length pre) (pre @ vs) = map_res ((@) pre) (map_tuple_row fs vs)"
proof (induction fs arbitrary: pre vs)
  case (Cons f fs)
  show ?case
  proof (cases vs)
    case (Cons v ws)
    have step: "async_map_row fs (Suc (length pre)) (pre @ w # ws) = map_res ((@) pre) (map_res ((#) w) (map_tuple_row fs ws))"
      for w using Cons.IH [of "pre @ [w]" ws] by (cases "map_tuple_row fs ws") simp_all
    show ?thesis
    proof (cases f)
      case (Some g)
      then show ?thesis using step Cons by (cases "g v") (simp_all add: nth_append)
    qed (simp add: step Cons)
  qed simp
qed simp

text \<open>A handled loop whose function never drops an item and hands failures on is a map.\<close>
lemma handled_map:
  "length xs < n \<Longrightarrow>
   drain n (handled_next (\<lambda>x c. (map_res Some (g x), c)))
     \<lparr>st_source = xs, st_fun = c, st_handler = reraise_exception, st_done = False\<rparr> =
   map (\<lambda>item. and_then item g) xs"
proof (induction xs arbitrary: n)
  case Nil
  then show ?case by (cases n) (simp_all add: handled_next_def)
next
  case (Cons x xs)
  then obtain m where n: "n = Suc m" "length xs < m" by (cases n) auto
  show ?case
  proof (cases x)
    case (Inr s)
    then show ?thesis using Cons.IH [OF n(2)] n(1) by (cases "g s") (simp_all add: handled_next_def)
  qed (use Cons.IH [OF n(2)] n(1) in \<open>simp add: handled_next_def\<close>)
qed

lemma async_to_tuple_same:
  "drain (Suc (length xs)) (to_tuple_next specs True)
     \<lparr>st_source = xs, st_fun = (), st_handler = reraise_exception, st_done = False\<rparr> = async_to_tuple specs xs"
proof -
  have "to_tuple_next specs True = handled_next (\<lambda>x c. (map_res Some (tuple_row True x specs), c))"
    by (simp add: to_tuple_next_def fun_eq_iff)
  then show ?thesis by (simp only: handled_map lessI) (simp add: async_to_tuple_def tuple_row_strict)
qed

lemma async_map_tuple_same:
  "drain (Suc (length xs)) (map_tuple_next fs)
     \<lparr>st_source = xs, st_fun = (), st_handler = reraise_exception, st_done = False\<rparr> = async_map_tuple fs xs"
proof -
  have "map_tuple_next fs = handled_next (\<lambda>x c. (map_res Some (map_tuple_row fs x), c))"
    by (simp add: map_tuple_next_def fun_eq_iff)
  moreover have "async_map_row fs 0 = map_tuple_row fs"
  proof
    fix vs
    show "async_map_row fs 0 vs = map_tuple_row fs vs"
      using async_map_row_at [of fs "[]" vs] by (cases "map_tuple_row fs vs") simp_all
  qed
  ultimately show ?thesis by (simp only: handled_map lessI async_map_tuple_def)
qed

section \<open>Grouping\<close>

record 'a gathering =
  gt_source :: "'a res list"
  gt_drained :: bool

text \<open>The loop of \<^verbatim>\<open>grouped\<close>: an error ends the call, and the group so far with it.\<close>
fun fill_gathering ::
  "nat \<Rightarrow> 'a list \<Rightarrow> 'a res list \<Rightarrow> 'a list res \<times> 'a gathering" where
  "fill_gathering n items [] = (Inr items, \<lparr>gt_source = [], gt_drained = length items < n\<rparr>)"
| "fill_gathering n items (x # xs) =
     (if length items < n then
        (case x of
           Inr v \<Rightarrow> fill_gathering n (items @ [v]) xs
         | Inl e \<Rightarrow> (Inl e, \<lparr>gt_source = xs, gt_drained = False\<rparr>))
      else (Inr items, \<lparr>gt_source = x # xs, gt_drained = False\<rparr>))"

definition grouped_body :: "nat \<Rightarrow> bool \<Rightarrow> 'a gathering \<Rightarrow> ('a list res \<times> 'a gathering option) option" where
  "grouped_body n part s =
     (if gt_drained s then None
      else
        (case fill_gathering n [] (gt_source s) of
           (Inl e, s) \<Rightarrow> Some (Inl e, Some s)
         | (Inr items, s) \<Rightarrow>
             if items = [] then None
             else if length items < n \<and> \<not> part then None
             else Some (Inr items, Some s)))"

definition gathering_new :: "'a res list \<Rightarrow> 'a gathering option" where
  "gathering_new src = Some \<lparr>gt_source = src, gt_drained = False\<rparr>"

definition grouped_next ::
  "nat \<Rightarrow> bool \<Rightarrow> 'a gathering option \<Rightarrow> 'a list res option \<times> 'a gathering option" where
  "grouped_next n part = unfold_next (grouped_body (max n 1) part)"

definition async_batched_next ::
  "nat \<Rightarrow> bool \<Rightarrow> sample gathering option \<Rightarrow> sample res option \<times> sample gathering option" where
  "async_batched_next n part s =
     (case grouped_next n part s of (r, s) \<Rightarrow> (map_option (\<lambda>items. and_then items collate_samples) r, s))"

definition async_batched_tuples_next ::
  "nat \<Rightarrow> bool \<Rightarrow> field_value list gathering option \<Rightarrow>
   field_value list res option \<times> field_value list gathering option" where
  "async_batched_tuples_next n part s =
     (case grouped_next n part s of (r, s) \<Rightarrow> (map_option (\<lambda>rows. and_then rows collate_tuples) r, s))"

lemma fill_gathering_group:
  "fill_gathering n items xs =
     (case fill_group n items xs of
        (r, rest) \<Rightarrow> (r, \<lparr>gt_source = rest,
                         gt_drained = (case r of Inr ys \<Rightarrow> rest = [] \<and> length ys < n | Inl e \<Rightarrow> False)\<rparr>))"
  by (induction n items xs rule: fill_gathering.induct) (auto split: sum.splits)

lemma fill_group_starved: "fill_group n items xs = (Inr ys, rest) \<Longrightarrow> length ys < n \<Longrightarrow> rest = []"
  by (induction n items xs rule: fill_group.induct) (auto split: if_splits sum.splits)

definition same_group :: "nat \<Rightarrow> bool \<Rightarrow> 'a listed \<Rightarrow> 'a gathering option \<Rightarrow> bool" where
  "same_group n part s t =
     (ls_size s = max n 1 \<and> ls_partial s = part \<and>
      (\<exists>d. t = Some \<lparr>gt_source = ls_source s, gt_drained = d\<rparr> \<and> (d \<longrightarrow> ls_source s = [])))"

interpretation groups: agreeing listed_next "grouped_next n part" "same_group n part" for n part
proof
  fix s :: "'a listed" and t r s'
  assume same: "same_group n part s t" and r: "listed_next s = (r, s')"
  obtain q rest where f: "fill_group (max n 1) [] (ls_source s) = (q, rest)" by fastforce
  from same obtain d where t: "t = Some \<lparr>gt_source = ls_source s, gt_drained = d\<rparr>" "d \<Longrightarrow> ls_source s = []"
    and sz: "ls_size s = max n 1" "ls_partial s = part" by (auto simp: same_group_def)
  show "\<exists>t'. grouped_next n part t = (r, t') \<and> (r \<noteq> None \<longrightarrow> same_group n part s' t')"
  proof (cases d)
    case True
    then show ?thesis using t r sz by (auto simp: listed_next_def grouped_next_def unfold_next_def grouped_body_def)
  next
    case False
    then show ?thesis using t r sz f fill_group_starved [of "max n 1" "[]" "ls_source s" _ rest]
      by (cases q)
        (auto simp: listed_next_def grouped_next_def unfold_next_def grouped_body_def fill_gathering_group same_group_def)
  qed
qed

lemma listed_same: "same_group n part (listed src n part) (gathering_new src)"
  unfolding same_group_def listed_def gathering_new_def by auto

interpretation batches: agreeing batched_next "async_batched_next n part" "same_group n part" for n part
proof
  fix s :: "sample listed" and t r s'
  assume same: "same_group n part s t" and r: "batched_next s = (r, s')"
  obtain q where q: "listed_next s = (q, s')" using r
    by (auto simp: batched_next_def split: prod.splits option.splits sum.splits)
  from groups.agree [OF same q] obtain t' where
    "grouped_next n part t = (q, t')" "q \<noteq> None \<longrightarrow> same_group n part s' t'" by blast
  then show "\<exists>t'. async_batched_next n part t = (r, t') \<and> (r \<noteq> None \<longrightarrow> same_group n part s' t')"
    using q r by (auto simp: batched_next_def async_batched_next_def split: option.splits sum.splits)
qed

interpretation tuple_batches: agreeing batched_tuples_next "async_batched_tuples_next n part" "same_group n part" for n part
proof
  fix s :: "field_value list listed" and t r s'
  assume same: "same_group n part s t" and r: "batched_tuples_next s = (r, s')"
  obtain q where q: "listed_next s = (q, s')" using r
    by (auto simp: batched_tuples_next_def split: prod.splits option.splits sum.splits)
  from groups.agree [OF same q] obtain t' where
    "grouped_next n part t = (q, t')" "q \<noteq> None \<longrightarrow> same_group n part s' t'" by blast
  then show "\<exists>t'. async_batched_tuples_next n part t = (r, t') \<and> (r \<noteq> None \<longrightarrow> same_group n part s' t')"
    using q r by (auto simp: batched_tuples_next_def async_batched_tuples_next_def split: option.splits sum.splits)
qed

section \<open>Guarding against nothing\<close>

record 'a async_guard =
  ag_source :: "'a res list"
  ag_seen :: nat
  ag_message :: string

definition async_guarded :: "'a res list \<Rightarrow> string \<Rightarrow> 'a async_guard option" where
  "async_guarded src msg = Some \<lparr>ag_source = src, ag_seen = 0, ag_message = msg\<rparr>"

definition async_guard_body :: "'a async_guard \<Rightarrow> ('a res \<times> 'a async_guard option) option" where
  "async_guard_body s =
     (case ag_source s of
        x # rest \<Rightarrow> Some (x, Some (s\<lparr>ag_source := rest, ag_seen := Suc (ag_seen s)\<rparr>))
      | [] \<Rightarrow> if ag_seen s = 0 then Some (Inl (Empty (ag_message s)), None) else None)"

definition async_guard_next :: "'a async_guard option \<Rightarrow> 'a res option \<times> 'a async_guard option" where
  "async_guard_next = unfold_next async_guard_body"

definition same_guard :: "'a non_empty \<Rightarrow> 'a async_guard option \<Rightarrow> bool" where
  "same_guard s t =
     (case t of
        None \<Rightarrow> ne_reported s \<and> ne_source s = []
      | Some g \<Rightarrow> \<not> ne_reported s \<and> ag_source g = ne_source s \<and> ag_seen g = ne_seen s \<and> ag_message g = ne_message s)"

interpretation guards: agreeing non_empty_next async_guard_next same_guard
  by unfold_locales
     (auto simp: same_guard_def non_empty_next_def async_guard_next_def unfold_next_def async_guard_body_def
       split: option.splits list.splits if_splits)

lemma guarded_same: "same_guard (non_empty src msg) (async_guarded src msg)"
  by (simp add: same_guard_def non_empty_def async_guarded_def)

text \<open>C28: Every adapter of the asynchronous pipeline delivers what the blocking adapter of the same name
  delivers from the same upstream: shuffling under the same draws, mapping, projecting and mapping
  tuples, grouping, collating and guarding an empty stream, error items included.
\<close>
theorem async_adapters_agree:
  "drain n (async_shuffle_next draw cap) (async_shuffled src g) = drain n (shuffle_next draw) (shuffled src cap g) \<and>
   drain n (async_map_next f h) (Some (src', c)) =
     drain n (map_samples_next f) \<lparr>st_source = src', st_fun = c, st_handler = h, st_done = False\<rparr> \<and>
   async_to_tuple specs src' =
     drain (Suc (length src')) (to_tuple_next specs True)
       \<lparr>st_source = src', st_fun = (), st_handler = reraise_exception, st_done = False\<rparr> \<and>
   async_map_tuple fs rows =
     drain (Suc (length rows)) (map_tuple_next fs)
       \<lparr>st_source = rows, st_fun = (), st_handler = reraise_exception, st_done = False\<rparr> \<and>
   drain n (async_select_next p) (src', c') = drain n (select_next p) (src', c') \<and>
   drain n (grouped_next k part) (gathering_new src) = drain n listed_next (listed src k part) \<and>
   drain n (async_batched_next k part) (gathering_new src') = drain n batched_next (listed src' k part) \<and>
   drain n (async_batched_tuples_next k part) (gathering_new rows) = drain n batched_tuples_next (listed rows k part) \<and>
   drain n async_guard_next (async_guarded src msg) =
     drain n non_empty_next (non_empty src msg)"
  by (simp del: drain.simps add: shuffles.drain_agree [OF shuffled_same, symmetric] async_to_tuple_same async_map_tuple_same
      async_select_same groups.drain_agree [OF listed_same] batches.drain_agree [OF listed_same]
      tuple_batches.drain_agree [OF listed_same] guards.drain_agree [OF guarded_same]
      maps.drain_agree [where h = h and s = "\<lparr>st_source = src', st_fun = c, st_handler = h, st_done = False\<rparr>"])

end
