(* ===== verification/Asynch_Shard.thy ===== *)
theory Asynch_Shard
  imports Sources Caching Asynch_Filters
begin

text \<open>
  \<^verbatim>\<open>webdataset-shard/src/asynch.rs\<close> and the choice of a decoder in \<^verbatim>\<open>compress.rs\<close>: the
  archive parser over a source whose bytes arrive in pieces.  \<open>flat\<close> forgets the pieces;
  every operation of the parser is shown to do on them what the blocking parser of
  \<^verbatim>\<open>sync.rs\<close> does on the bytes in one.  A poll that brings nothing is a pending one, so
  a read of no bytes means the end of the source.
\<close>

section \<open>Sources that deliver piece by piece\<close>

record source =
  arrivals :: "bytes list"
  broken :: "error option"

definition flat :: "source \<Rightarrow> stream" where
  "flat s = \<lparr>pending = concat (arrivals s), fault = broken s\<rparr>"

fun poll_arrivals :: "nat \<Rightarrow> bytes list \<Rightarrow> bytes \<times> bytes list" where
  "poll_arrivals n [] = ([], [])"
| "poll_arrivals n (c # cs) =
     (if c = [] then poll_arrivals n cs
      else (take n c, if length c \<le> n then cs else drop n c # cs))"

definition read_some :: "nat \<Rightarrow> source \<Rightarrow> bytes res \<times> source" where
  "read_some n s =
     (case poll_arrivals n (arrivals s) of
        (bs, cs) \<Rightarrow>
          (case broken s of
             Some e \<Rightarrow> (if bs = [] then Inl e else Inr bs)
           | None \<Rightarrow> Inr bs, s\<lparr>arrivals := cs\<rparr>))"

text \<open>The loop of \<^verbatim>\<open>fill\<close> and \<^verbatim>\<open>decompress\<close>: read until the buffer is full or a read
  brings nothing; \<open>acc\<close> is the filled part.\<close>
function fill_from :: "nat \<Rightarrow> bytes \<Rightarrow> source \<Rightarrow> bytes res \<times> source" where
  "fill_from n acc s =
     (if length acc < n then
        (case read_some (n - length acc) s of
           (Inl e, s) \<Rightarrow> (Inl e, s)
         | (Inr bs, s) \<Rightarrow> if bs = [] then (Inr acc, s) else fill_from n (acc @ bs) s)
      else (Inr acc, s))"
  by pat_completeness auto
termination
  by (relation "measure (\<lambda>(n, acc, s). n - length acc)") (auto simp: neq_Nil_conv)

declare fill_from.simps [simp del]

definition async_fill :: "nat \<Rightarrow> source \<Rightarrow> filled res \<times> source" where
  "async_fill n s =
     (case fill_from n [] s of
        (Inl e, s) \<Rightarrow> (Inl e, s)
      | (Inr bs, s) \<Rightarrow>
          (Inr (if length bs = n then Complete bs else if bs = [] then Eof else Partial (length bs)), s))"

text \<open>What the loop reads of the bytes in one.\<close>
definition read_upto :: "nat \<Rightarrow> stream \<Rightarrow> bytes res \<times> stream" where
  "read_upto n s =
     (if n \<le> length (pending s) then (Inr (take n (pending s)), s\<lparr>pending := drop n (pending s)\<rparr>)
      else ((case fault s of Some e \<Rightarrow> Inl e | None \<Rightarrow> Inr (pending s)), s\<lparr>pending := []\<rparr>))"

lemma poll_arrivals_flat:
  "poll_arrivals n cs = (bs, cs') \<Longrightarrow> 0 < n \<Longrightarrow>
     bs @ concat cs' = concat cs \<and> length bs \<le> n \<and> (bs = [] \<longrightarrow> concat cs = [])"
  by (induction n cs rule: poll_arrivals.induct) (auto split: if_splits)

lemma fill_from_flat:
  "fill_from n acc s = (r, s') \<Longrightarrow> length acc \<le> n \<Longrightarrow>
     read_upto n \<lparr>pending = acc @ concat (arrivals s), fault = broken s\<rparr> = (r, flat s')"
proof (induction n acc s arbitrary: r s' rule: fill_from.induct)
  case (1 n acc s)
  show ?case
  proof (cases "length acc < n")
    case True
    obtain bs cs where p: "poll_arrivals (n - length acc) (arrivals s) = (bs, cs)" by fastforce
    from poll_arrivals_flat [OF p] True
    have b: "bs @ concat cs = concat (arrivals s)" "length (acc @ bs) \<le> n" "bs = [] \<longrightarrow> concat (arrivals s) = []"
      by auto
    show ?thesis
    proof (cases "bs = []")
      case True
      then have e: "concat (arrivals s) = []" "concat cs = []" using b(1,3) by auto
      then have fl: "flat (s\<lparr>arrivals := cs\<rparr>) = \<lparr>pending = [], fault = broken s\<rparr>" by (simp add: flat_def)
      have "fill_from n acc s =
          ((case broken s of Some e \<Rightarrow> Inl e | None \<Rightarrow> Inr acc), s\<lparr>arrivals := cs\<rparr>)"
        using \<open>length acc < n\<close> p True by (subst fill_from.simps) (simp add: read_some_def split: option.split)
      then show ?thesis using "1.prems" \<open>length acc < n\<close> fl
        by (simp only: e(1)) (auto simp: read_upto_def split: option.splits)
    next
      case False
      have rd: "read_some (n - length acc) s = (Inr bs, s\<lparr>arrivals := cs\<rparr>)"
        using p False by (simp add: read_some_def split: option.split)
      have eq: "fill_from n (acc @ bs) (s\<lparr>arrivals := cs\<rparr>) = (r, s')"
        using "1.prems" True False rd by (subst (asm) fill_from.simps) simp
      from "1.IH" [OF True rd [symmetric] refl False eq b(2)] b(1) show ?thesis by simp
    qed
  next
    case False
    then show ?thesis using "1.prems" by (subst (asm) fill_from.simps) (auto simp: read_upto_def flat_def)
  qed
qed

lemma read_upto_flat: "fill_from n [] s = (r, s') \<Longrightarrow> read_upto n (flat s) = (r, flat s')"
  using fill_from_flat [of n "[]" s r s'] by (simp add: flat_def)

lemma fill_read_upto:
  "fill n s =
     (case read_upto n s of
        (Inl e, s) \<Rightarrow> (Inl e, s)
      | (Inr bs, s) \<Rightarrow>
          (Inr (if length bs = n then Complete bs else if bs = [] then Eof else Partial (length bs)), s))"
  by (simp add: fill_def read_upto_def split: option.split)

lemma fill_flat: "async_fill n s = (r, s') \<Longrightarrow> fill n (flat s) = (r, flat s')"
  by (auto simp: async_fill_def fill_read_upto split: prod.splits sum.splits dest!: read_upto_flat)

section \<open>Headers and payloads\<close>

function async_payload_loop :: "nat \<Rightarrow> bytes \<Rightarrow> source \<Rightarrow> bytes res \<times> source" where
  "async_payload_loop sz acc s =
     (if length acc < sz then
        (case async_fill (min CHUNK (sz - length acc)) s of
           (Inl e, s) \<Rightarrow> (Inl e, s)
         | (Inr (Complete bs), s) \<Rightarrow> async_payload_loop sz (acc @ bs) s
         | (Inr _, s) \<Rightarrow> (Inl (Format ''tar archive ends mid-entry''), s))
      else (Inr acc, s))"
  by pat_completeness auto
termination
proof (relation "measure (\<lambda>(sz, acc, s). sz - length acc)", goal_cases)
  case (2 sz acc s x s' y bs)
  then have "fill (min CHUNK (sz - length acc)) (flat s) = (Inr (Complete bs), flat s')"
    by (intro fill_flat) simp
  then have "length bs = min CHUNK (sz - length acc)" by (rule fill_Complete)
  moreover have "0 < CHUNK" by (simp add: CHUNK_def)
  ultimately show ?case using 2(1) by simp
qed simp

declare async_payload_loop.simps [simp del]

definition async_read_payload :: "nat \<Rightarrow> source \<Rightarrow> bytes res \<times> source" where
  "async_read_payload sz s =
     (case async_payload_loop sz [] s of
        (Inl e, s) \<Rightarrow> (Inl e, s)
      | (Inr bs, s) \<Rightarrow>
          if 0 < padding sz then
            (case async_fill (padding sz) s of
               (Inl e, s) \<Rightarrow> (Inl e, s)
             | (Inr (Complete _), s) \<Rightarrow> (Inr bs, s)
             | (Inr _, s) \<Rightarrow> (Inl (Format ''tar archive ends mid-padding''), s))
          else (Inr bs, s))"

definition async_read_header :: "source \<Rightarrow> bytes option res \<times> source" where
  "async_read_header s =
     (case async_fill BLOCK s of
        (Inl e, s) \<Rightarrow> (Inl e, s)
      | (Inr Eof, s) \<Rightarrow> (Inr None, s)
      | (Inr (Partial n), s) \<Rightarrow> (Inl (Format ''tar archive ends mid-header''), s)
      | (Inr (Complete header), s) \<Rightarrow>
          if list_all (\<lambda>b. b = 0) header then (Inr None, s)
          else (map_res (\<lambda>_. Some header) (verify_checksum header), s))"

lemma payload_loop_flat:
  "async_payload_loop sz acc s = (r, s') \<Longrightarrow> payload_loop sz acc (flat s) = (r, flat s')"
proof (induction sz acc s arbitrary: r s' rule: async_payload_loop.induct)
  case (1 sz acc s)
  show ?case
  proof (cases "length acc < sz")
    case True
    obtain f s1 where f: "async_fill (min CHUNK (sz - length acc)) s = (f, s1)" by fastforce
    note fl = fill_flat [OF f]
    show ?thesis
    proof (cases "\<exists>bs. f = Inr (Complete bs)")
      case True
      then obtain bs where bs: "f = Inr (Complete bs)" by blast
      have eq: "async_payload_loop sz (acc @ bs) s1 = (r, s')"
        using "1.prems" \<open>length acc < sz\<close> f bs by (subst (asm) async_payload_loop.simps) simp
      from "1.IH" [OF \<open>length acc < sz\<close> f [symmetric] bs refl eq]
      show ?thesis using \<open>length acc < sz\<close> fl bs by (subst payload_loop.simps) simp
    next
      case False
      then show ?thesis using "1.prems" \<open>length acc < sz\<close> f fl
        by (subst payload_loop.simps, subst (asm) async_payload_loop.simps)
           (auto split: sum.splits filled.splits)
    qed
  next
    case False
    then show ?thesis using "1.prems"
      by (subst payload_loop.simps, subst (asm) async_payload_loop.simps) simp
  qed
qed

lemma read_payload_flat: "async_read_payload n s = (r, s') \<Longrightarrow> read_payload n (flat s) = (r, flat s')"
  unfolding async_read_payload_def read_payload_def
  by (auto split: prod.splits sum.splits filled.splits if_splits dest!: payload_loop_flat fill_flat)

lemma read_header_flat: "async_read_header s = (r, s') \<Longrightarrow> read_header (flat s) = (r, flat s')"
  unfolding async_read_header_def read_header_def
  by (auto split: prod.splits sum.splits filled.splits if_splits dest!: fill_flat)

section \<open>Entries\<close>

record async_tar =
  at_reader :: source
  at_done :: bool
  at_long_name :: "string option"
  at_pax_path :: "string option"

definition async_tar_new :: "source \<Rightarrow> async_tar" where
  "async_tar_new s = \<lparr>at_reader = s, at_done = False, at_long_name = None, at_pax_path = None\<rparr>"

definition flat_tar :: "async_tar \<Rightarrow> tar_entries" where
  "flat_tar t =
     \<lparr>reader = flat (at_reader t), tar_done = at_done t, long_name = at_long_name t,
      pax_override = at_pax_path t\<rparr>"

lemma flat_tar_fields [simp]:
  "reader (flat_tar t) = flat (at_reader t)" "tar_done (flat_tar t) = at_done t"
  "long_name (flat_tar t) = at_long_name t" "pax_override (flat_tar t) = at_pax_path t"
  by (simp_all add: flat_tar_def)

lemma flat_tar_updates [simp]:
  "flat_tar (t\<lparr>at_reader := s\<rparr>) = (flat_tar t)\<lparr>reader := flat s\<rparr>"
  "flat_tar (t\<lparr>at_done := d\<rparr>) = (flat_tar t)\<lparr>tar_done := d\<rparr>"
  "flat_tar (t\<lparr>at_long_name := n\<rparr>) = (flat_tar t)\<lparr>long_name := n\<rparr>"
  "flat_tar (t\<lparr>at_pax_path := n\<rparr>) = (flat_tar t)\<lparr>pax_override := n\<rparr>"
  by (simp_all add: flat_tar_def)

lemma async_entry_shrinks:
  assumes "(Inr (Some h), y) = async_read_header s" "(Inr bs, z) = async_read_payload n y"
  shows "length (pending (flat z)) < length (pending (flat s))"
  using entry_shrinks [OF read_header_flat [OF assms(1) [symmetric], symmetric]
      read_payload_flat [OF assms(2) [symmetric], symmetric]] .

function async_advance :: "async_tar \<Rightarrow> raw_entry option res \<times> async_tar" where
  "async_advance t =
     (case async_read_header (at_reader t) of
        (Inl e, s) \<Rightarrow> (Inl e, t\<lparr>at_reader := s\<rparr>)
      | (Inr None, s) \<Rightarrow> (Inr None, t\<lparr>at_reader := s\<rparr>)
      | (Inr (Some header), s) \<Rightarrow>
          (case parse_size header of
             Inl e \<Rightarrow> (Inl e, t\<lparr>at_reader := s\<rparr>)
           | Inr sz \<Rightarrow>
               (let flag = TYPEFLAG header in
                if flag \<in> {0x30, 0x00, 0x37} then
                  (let (name, t') =
                     (case at_pax_path t of
                        Some p \<Rightarrow> (Inr p, t\<lparr>at_pax_path := None\<rparr>)
                      | None \<Rightarrow>
                          (case at_long_name t of
                             Some n \<Rightarrow> (Inr n, t\<lparr>at_long_name := None\<rparr>)
                           | None \<Rightarrow> (header_name header, t)))
                   in case name of
                        Inl e \<Rightarrow> (Inl e, t'\<lparr>at_reader := s\<rparr>)
                      | Inr n \<Rightarrow>
                          (case async_read_payload sz s of
                             (Inl e, s) \<Rightarrow> (Inl e, t'\<lparr>at_reader := s\<rparr>)
                           | (Inr bs, s) \<Rightarrow>
                               (Inr (Some \<lparr>entry_name = n, entry_data = bs\<rparr>), t'\<lparr>at_reader := s\<rparr>)))
                else
                  (case async_read_payload sz s of
                     (Inl e, s) \<Rightarrow> (Inl e, t\<lparr>at_reader := s\<rparr>)
                   | (Inr bs, s) \<Rightarrow>
                       if flag = 0x4C then
                         (case trim_nul bs of
                            Inl e \<Rightarrow> (Inl e, t\<lparr>at_reader := s\<rparr>)
                          | Inr n \<Rightarrow> async_advance (t\<lparr>at_reader := s, at_long_name := Some n\<rparr>))
                       else if flag = 0x4B \<or> flag = 0x67 then async_advance (t\<lparr>at_reader := s\<rparr>)
                       else if flag = 0x78 \<or> flag = 0x58 then
                         (case pax_path bs of
                            Inl e \<Rightarrow> (Inl e, t\<lparr>at_reader := s\<rparr>)
                          | Inr (Some p) \<Rightarrow> async_advance (t\<lparr>at_reader := s, at_pax_path := Some p\<rparr>)
                          | Inr None \<Rightarrow> async_advance (t\<lparr>at_reader := s\<rparr>))
                       else async_advance (t\<lparr>at_reader := s, at_long_name := None, at_pax_path := None\<rparr>)))))"
  by pat_completeness auto
termination
  by (relation "measure (\<lambda>t. length (pending (flat (at_reader t))))")
     (auto dest: async_entry_shrinks)

declare async_advance.simps [simp del]

definition at_flat :: "'r \<times> async_tar \<Rightarrow> 'r \<times> tar_entries" where
  "at_flat r = (case r of (x, t) \<Rightarrow> (x, flat_tar t))"

lemma at_flat_pair [simp]: "at_flat (x, t) = (x, flat_tar t)"
  by (simp add: at_flat_def)

lemma advance_flat: "advance (flat_tar t) = at_flat (async_advance t)"
proof (induction t rule: async_advance.induct)
  case (1 t)
  obtain hr s where h: "async_read_header (at_reader t) = (hr, s)" by fastforce
  note hf = read_header_flat [OF h]
  note un = async_advance.simps [of t] advance.simps [of "flat_tar t"]
  show ?case
  proof (cases "\<exists>hd sz. hr = Inr (Some hd) \<and> parse_size hd = Inr sz")
    case False
    then show ?thesis using h hf by (auto simp: un split: sum.split option.split)
  next
    case True
    then obtain hd sz where hd: "hr = Inr (Some hd)" "parse_size hd = Inr sz" by blast
    obtain pr s2 where p: "async_read_payload sz s = (pr, s2)" by fastforce
    note pf = read_payload_flat [OF p]
    note known = h hf hd p pf
    note IH = "1.IH" [OF h [unfolded hd(1), symmetric] refl refl hd(2) refl _ p [symmetric]]
    show ?thesis
    proof (cases "TYPEFLAG hd \<in> {0x30, 0x00, 0x37}")
      case True
      then show ?thesis using known
        by (simp add: un Let_def split: option.split sum.split)
    next
      case False
      show ?thesis
      proof (cases pr)
        case (Inl e)
        then show ?thesis using known False by (simp add: un Let_def)
      next
        case (Inr bs)
        show ?thesis using known False Inr IH
          by (simp add: un Let_def split: sum.split option.split)
      qed
    qed
  qed
qed

definition next_entry :: "async_tar \<Rightarrow> raw_entry option res \<times> async_tar" where
  "next_entry t =
     (if at_done t then (Inr None, t)
      else
        (case async_advance t of
           (Inr (Some entry), t) \<Rightarrow> (Inr (Some entry), t)
         | (Inr None, t) \<Rightarrow> (Inr None, t\<lparr>at_done := True\<rparr>)
         | (Inl e, t) \<Rightarrow> (Inl e, t\<lparr>at_done := True\<rparr>)))"

text \<open>A result that may be the end, as the item of an iterator.\<close>
definition transposed :: "'a option res \<Rightarrow> 'a res option" where
  "transposed r = (case r of Inl e \<Rightarrow> Some (Inl e) | Inr None \<Rightarrow> None | Inr (Some x) \<Rightarrow> Some (Inr x))"

lemma transposed_simps [simp]:
  "transposed (Inl e) = Some (Inl e)" "transposed (Inr None) = None" "transposed (Inr (Some x)) = Some (Inr x)"
  by (simp_all add: transposed_def)

lemma next_entry_flat: "next_entry t = (r, t') \<Longrightarrow> tar_next (flat_tar t) = (transposed r, flat_tar t')"
  using advance_flat [of t]
  by (auto simp: next_entry_def tar_next_def split: if_splits prod.splits sum.splits option.splits)

text \<open>\<^verbatim>\<open>into_stream\<close>: an error is the last item.\<close>
definition stream_body :: "('s \<Rightarrow> 'a option res \<times> 's) \<Rightarrow> 's \<Rightarrow> ('a res \<times> 's option) option" where
  "stream_body step s =
     (case step s of
        (Inr (Some x), s) \<Rightarrow> Some (Inr x, Some s)
      | (Inr None, s) \<Rightarrow> None
      | (Inl e, s) \<Rightarrow> Some (Inl e, None))"

definition entries_stream_next :: "async_tar option \<Rightarrow> raw_entry res option \<times> async_tar option" where
  "entries_stream_next = unfold_next (stream_body next_entry)"

definition same_entries :: "tar_entries \<Rightarrow> async_tar option \<Rightarrow> bool" where
  "same_entries t u = (case u of None \<Rightarrow> tar_done t | Some a \<Rightarrow> t = flat_tar a)"

lemma tar_next_done: "tar_done t \<Longrightarrow> tar_next t = (None, t)"
  by (simp add: tar_next_def)

interpretation async_entries: agreeing tar_next entries_stream_next same_entries
proof
  fix t u r t'
  assume same: "same_entries t u" and r: "tar_next t = (r, t')"
  show "\<exists>u'. entries_stream_next u = (r, u') \<and> (r \<noteq> None \<longrightarrow> same_entries t' u')"
  proof (cases u)
    case None
    then show ?thesis using same r by (simp add: same_entries_def tar_next_done entries_stream_next_def unfold_next_def)
  next
    case (Some a)
    obtain q a' where n: "next_entry a = (q, a')" by fastforce
    have t: "t = flat_tar a" using same Some by (simp add: same_entries_def)
    have "r = transposed q" "t' = flat_tar a'" using next_entry_flat [OF n] r t by simp_all
    moreover have "q = Inl e \<Longrightarrow> at_done a'" for e
      using n by (auto simp: next_entry_def split: if_splits prod.splits sum.splits option.splits)
    ultimately show ?thesis using n Some
      by (cases q) (auto simp: entries_stream_next_def unfold_next_def stream_body_def same_entries_def split: option.splits)
  qed
qed

section \<open>The files of a shard\<close>

record async_files =
  af_entries :: async_tar
  af_url :: "string option"
  af_path :: "string option"
  af_selection :: selection

lemma next_entry_shrinks:
  "(Inr (Some e), t') = next_entry t \<Longrightarrow> tar_left (flat_tar t') < tar_left (flat_tar t)"
  using next_entry_flat [of t "Inr (Some e)" t'] tar_next_shrinks by simp

function next_file :: "async_files \<Rightarrow> tar_file option res \<times> async_files" where
  "next_file af =
     (case next_entry (af_entries af) of
        (Inl e, t) \<Rightarrow> (Inl (Context (describe (af_url af)) e), af\<lparr>af_entries := t\<rparr>)
      | (Inr None, t) \<Rightarrow> (Inr None, af\<lparr>af_entries := t\<rparr>)
      | (Inr (Some entry), t) \<Rightarrow>
          (case selection_apply (af_selection af) (entry_name entry) of
             None \<Rightarrow> next_file (af\<lparr>af_entries := t\<rparr>)
           | Some name \<Rightarrow>
               (Inr (Some \<lparr>file_name = name, file_data = entry_data entry, file_url = af_url af,
                          file_path = af_path af\<rparr>),
                af\<lparr>af_entries := t\<rparr>)))"
  by pat_completeness auto
termination
  by (relation "measure (\<lambda>af. tar_left (flat_tar (af_entries af)))") (auto dest: next_entry_shrinks)

declare next_file.simps [simp del]

definition files_stream_next :: "async_files option \<Rightarrow> tar_file res option \<times> async_files option" where
  "files_stream_next = unfold_next (stream_body next_file)"

definition flat_files :: "async_files \<Rightarrow> shard_files" where
  "flat_files af =
     \<lparr>entries = flat_tar (af_entries af), shard_url = af_url af, shard_path = af_path af,
      shard_selection = af_selection af\<rparr>"

lemma next_file_flat:
  "next_file af = (r, af') \<Longrightarrow> shard_files_next (flat_files af) = (transposed r, flat_files af')"
proof (induction af arbitrary: r af' rule: next_file.induct)
  case (1 af)
  obtain q t where n: "next_entry (af_entries af) = (q, t)" by fastforce
  have tn: "tar_next (entries (flat_files af)) = (transposed q, flat_tar t)"
    using next_entry_flat [OF n] by (simp add: flat_files_def)
  have upd: "(flat_files af)\<lparr>entries := flat_tar t\<rparr> = flat_files (af\<lparr>af_entries := t\<rparr>)"
    by (simp add: flat_files_def)
  show ?case
  proof (cases "\<exists>e. q = Inr (Some e) \<and> selection_apply (af_selection af) (entry_name e) = None")
    case True
    then obtain e where e: "q = Inr (Some e)" "selection_apply (af_selection af) (entry_name e) = None" by blast
    have eq: "next_file (af\<lparr>af_entries := t\<rparr>) = (r, af')"
      using "1.prems" n e by (subst (asm) next_file.simps) simp
    from "1.IH" [OF n [unfolded e(1), symmetric] refl refl e(2) eq] show ?thesis
      using tn e upd by (subst shard_files_next.simps) (simp add: flat_files_def)
  next
    case False
    then show ?thesis using "1.prems" n tn upd
      by (subst shard_files_next.simps, subst (asm) next_file.simps)
         (auto simp: flat_files_def split: sum.splits option.splits)
  qed
qed

definition same_files :: "tar_files \<Rightarrow> async_files option \<Rightarrow> bool" where
  "same_files t u = (case u of None \<Rightarrow> files_done t | Some a \<Rightarrow> t = \<lparr>inner = flat_files a, files_done = False\<rparr>)"

interpretation async_shard_files: agreeing tar_files_next files_stream_next same_files
proof
  fix t u r t'
  assume same: "same_files t u" and r: "tar_files_next t = (r, t')"
  show "\<exists>u'. files_stream_next u = (r, u') \<and> (r \<noteq> None \<longrightarrow> same_files t' u')"
  proof (cases u)
    case None
    then show ?thesis using same r by (simp add: same_files_def tar_files_next_def files_stream_next_def unfold_next_def)
  next
    case (Some a)
    obtain q a' where n: "next_file a = (q, a')" by fastforce
    show ?thesis using next_file_flat [OF n] n r same Some
      by (cases q) (auto simp: same_files_def tar_files_next_def files_stream_next_def unfold_next_def stream_body_def
          transposed_def split: option.splits)
  qed
qed

definition async_files_new :: "source \<Rightarrow> string option \<Rightarrow> string option \<Rightarrow> selection \<Rightarrow> async_files" where
  "async_files_new decoded url path sel =
     \<lparr>af_entries = async_tar_new decoded, af_url = url, af_path = path, af_selection = sel\<rparr>"

text \<open>\<^verbatim>\<open>into_events\<close>: the boundary comes behind the files, and behind an error.\<close>
definition async_events :: "async_files \<Rightarrow> file_event res list" where
  "async_events af =
     map (map_res File) (drain (Suc (tar_left (flat_tar (af_entries af)))) files_stream_next (Some af)) @
     [Inr EndOfShard]"

section \<open>Grouping\<close>

record event_fold =
  ef_events :: "file_event res list"
  ef_grouper :: grouper
  ef_done :: bool

function group_stream_body :: "event_fold \<Rightarrow> (sample res \<times> event_fold option) option" where
  "group_stream_body s =
     (if ef_done s then
        (case finish (ef_grouper s) of (r, g) \<Rightarrow> map_option (\<lambda>x. (Inr x, None)) r)
      else
        (case ef_events s of
           [] \<Rightarrow> group_stream_body (s\<lparr>ef_done := True\<rparr>)
         | Inl e # rest \<Rightarrow>
             (let s' = s\<lparr>ef_events := rest\<rparr>
              in case gr_handler (ef_grouper s) e of
                   Continue \<Rightarrow> group_stream_body s'
                 | Stop \<Rightarrow> group_stream_body (s'\<lparr>ef_done := True\<rparr>)
                 | Reraise \<Rightarrow> Some (Inl e, Some (s'\<lparr>ef_done := True\<rparr>)))
         | Inr event # rest \<Rightarrow>
             (let s' = s\<lparr>ef_events := rest\<rparr>
              in case push (ef_grouper s) event of
                   (GSample x, g) \<Rightarrow> Some (Inr x, Some (s'\<lparr>ef_grouper := g\<rparr>))
                 | (GPending, g) \<Rightarrow> group_stream_body (s'\<lparr>ef_grouper := g\<rparr>)
                 | (GFailed e, g) \<Rightarrow> Some (Inl e, Some (s'\<lparr>ef_grouper := g\<rparr>))
                 | (GStop, g) \<Rightarrow> group_stream_body (s'\<lparr>ef_grouper := g, ef_done := True\<rparr>))))"
  by pat_completeness auto
termination
  by (relation "measure (\<lambda>s. if ef_done s then 0 else Suc (length (ef_events s)))") auto

declare group_stream_body.simps [simp del]

definition group_stream_next :: "event_fold option \<Rightarrow> sample res option \<times> event_fold option" where
  "group_stream_next = unfold_next group_stream_body"

definition group_events_stream :: "file_event res list \<Rightarrow> handler \<Rightarrow> sample res list" where
  "group_events_stream es h =
     drain (Suc (Suc (length es))) group_stream_next
       (Some \<lparr>ef_events = es, ef_grouper = grouper_new h, ef_done = False\<rparr>)"

definition fold_of :: "group_by_keys \<Rightarrow> event_fold" where
  "fold_of g = \<lparr>ef_events = gk_files g, ef_grouper = gk_grouper g, ef_done = gk_done g\<rparr>"

definition same_fold :: "group_by_keys \<Rightarrow> event_fold option \<Rightarrow> bool" where
  "same_fold g u =
     (gr_handler (gk_grouper g) = gk_handler g \<and>
      (case u of
         None \<Rightarrow> gk_done g \<and> gr_current (gk_grouper g) = None
       | Some f \<Rightarrow> f = fold_of g))"

lemma same_fold_some: "same_fold g (Some (fold_of g)) \<longleftrightarrow> gr_handler (gk_grouper g) = gk_handler g"
  by (simp add: same_fold_def)

lemma push_handler: "push g ev = (r, g') \<Longrightarrow> gr_handler g' = gr_handler g"
  by (auto simp: push_def Let_def split: file_event.splits option.splits prod.splits if_splits action.splits)

lemma group_stream_body_next:
  "gr_handler (gk_grouper g) = gk_handler g \<Longrightarrow> group_next g = (r, g') \<Longrightarrow>
     gr_handler (gk_grouper g') = gk_handler g' \<and>
     (r = None \<longrightarrow> group_stream_body (fold_of g) = None) \<and>
     (\<forall>x. r = Some x \<longrightarrow> (\<exists>u. group_stream_body (fold_of g) = Some (x, u) \<and> same_fold g' u))"
proof (induction g arbitrary: r g' rule: group_next.induct)
  case (1 g)
  have upd: "(fold_of g)\<lparr>ef_done := True\<rparr> = fold_of (g\<lparr>gk_done := True\<rparr>)"
    "\<And>es. (fold_of g)\<lparr>ef_events := es\<rparr> = fold_of (g\<lparr>gk_files := es\<rparr>)"
    "\<And>es. (fold_of g)\<lparr>ef_events := es, ef_done := True\<rparr> = fold_of (g\<lparr>gk_files := es, gk_done := True\<rparr>)"
    "\<And>es p. (fold_of g)\<lparr>ef_events := es, ef_grouper := p\<rparr> = fold_of (g\<lparr>gk_files := es, gk_grouper := p\<rparr>)"
    "\<And>es p. (fold_of g)\<lparr>ef_events := es, ef_grouper := p, ef_done := True\<rparr> =
        fold_of (g\<lparr>gk_files := es, gk_grouper := p, gk_done := True\<rparr>)"
    by (simp_all add: fold_of_def)
  have fields: "ef_done (fold_of g) = gk_done g" "ef_events (fold_of g) = gk_files g"
    "ef_grouper (fold_of g) = gk_grouper g" by (simp_all add: fold_of_def)
  note un = group_next.simps [of g] group_stream_body.simps [of "fold_of g"]
  show ?case
  proof (cases "gk_done g")
    case True
    then show ?thesis using "1.prems" fields
      by (auto simp: un finish_def same_fold_def split: option.splits)
  next
    case False
    note IH = "1.IH" [OF False]
    show ?thesis
    proof (cases "gk_files g")
      case Nil
      then have "group_next g = group_next (g\<lparr>gk_done := True\<rparr>)"
        "group_stream_body (fold_of g) = group_stream_body (fold_of (g\<lparr>gk_done := True\<rparr>))"
        using False fields upd(1) by (simp_all add: un)
      then show ?thesis using IH(1) [OF Nil, of r g'] "1.prems" by (cases r) auto
    next
      case (Cons x rest)
      show ?thesis
      proof (cases x)
        case (Inl e)
        then show ?thesis using IH(2) [of x rest e] IH(3) [of x rest e] "1.prems" False fields upd Cons
          by (cases "gk_handler g e") (auto simp: un Let_def same_fold_some)
      next
        case (Inr ev)
        obtain q p where pu: "push (gk_grouper g) ev = (q, p)" by fastforce
        have hd: "gr_handler p = gk_handler g" using push_handler [OF pu] "1.prems"(1) by simp
        show ?thesis
        proof (cases q)
          case GPending
          let ?g = "g\<lparr>gk_files := rest, gk_grouper := p\<rparr>"
          have eq: "group_next g = group_next ?g" "group_stream_body (fold_of g) = group_stream_body (fold_of ?g)"
            using pu False fields upd(4) Cons Inr GPending by (simp_all add: un Let_def)
          have "gr_handler (gk_grouper ?g) = gk_handler ?g" "group_next ?g = (r, g')" using hd "1.prems"(2) eq by simp_all
          from IH(4) [OF Cons Inr refl pu [symmetric] GPending this] show ?thesis unfolding eq .
        next
          case GStop
          let ?g = "g\<lparr>gk_files := rest, gk_grouper := p, gk_done := True\<rparr>"
          have eq: "group_next g = group_next ?g" "group_stream_body (fold_of g) = group_stream_body (fold_of ?g)"
            using pu False fields upd(5) Cons Inr GStop by (simp_all add: un Let_def)
          have "gr_handler (gk_grouper ?g) = gk_handler ?g" "group_next ?g = (r, g')" using hd "1.prems"(2) eq by simp_all
          from IH(5) [OF Cons Inr refl pu [symmetric] GStop this] show ?thesis unfolding eq .
        qed (use pu False fields upd Cons Inr "1.prems" hd in \<open>auto simp: un Let_def same_fold_some\<close>)
      qed
    qed
  qed
qed

interpretation async_groups: agreeing group_next group_stream_next same_fold
proof
  fix g u r g'
  assume same: "same_fold g u" and r: "group_next g = (r, g')"
  show "\<exists>u'. group_stream_next u = (r, u') \<and> (r \<noteq> None \<longrightarrow> same_fold g' u')"
  proof (cases u)
    case None
    then show ?thesis using same r
      by (auto simp: same_fold_def group_next.simps [of g] finish_def valid_opt_def group_stream_next_def unfold_next_def)
  next
    case (Some f)
    then show ?thesis using same r group_stream_body_next [of g r g']
      by (auto simp: same_fold_def [of g] group_stream_next_def unfold_next_def split: option.splits)
  qed
qed

lemma group_events_stream_eq: "group_events_stream es h = group_all es h"
proof -
  have "same_fold (group_events es h) (Some \<lparr>ef_events = es, ef_grouper = grouper_new h, ef_done = False\<rparr>)"
    by (simp add: same_fold_def group_events_def fold_of_def grouper_new_def)
  from async_groups.drain_agree [OF this] show ?thesis
    by (simp add: group_events_stream_def group_all_def del: drain.simps)
qed

section \<open>Finding the decoder\<close>

text \<open>The decoders are code of other packages: which formats this build supports and what they make of
  a stream, at the level of pieces for one reader and of the bytes in one for the other.\<close>
record 's decoder_set =
  supported :: "file_type \<Rightarrow> bool"
  decoded :: "file_type \<Rightarrow> 's \<Rightarrow> 's res"

definition SNIFF_LEN :: nat where "SNIFF_LEN = 264"

definition choose_decoder :: "'s decoder_set \<Rightarrow> file_type \<Rightarrow> 's \<Rightarrow> (file_type \<times> 's) res" where
  "choose_decoder cs kind combined =
     (if kind \<in> {TarType, Unknown} then Inr (kind, combined)
      else if kind = Gzip \<or> supported cs kind then map_res (Pair kind) (decoded cs kind combined)
      else Inl (Unsupported (file_type_name kind)))"

text \<open>\<^verbatim>\<open>Prefixed\<close> replays what was read to find out.\<close>
definition decompress :: "stream decoder_set \<Rightarrow> stream \<Rightarrow> (file_type \<times> stream) res" where
  "decompress cs s =
     (case read_upto SNIFF_LEN s of
        (Inl e, s) \<Rightarrow> Inl e
      | (Inr pre, s) \<Rightarrow> choose_decoder cs (sniff pre) (s\<lparr>pending := pre @ pending s\<rparr>))"

definition async_decompress :: "source decoder_set \<Rightarrow> source \<Rightarrow> (file_type \<times> source) res" where
  "async_decompress cs s =
     (case fill_from SNIFF_LEN [] s of
        (Inl e, s) \<Rightarrow> Inl e
      | (Inr pre, s) \<Rightarrow> choose_decoder cs (sniff pre) (s\<lparr>arrivals := pre # arrivals s\<rparr>))"

lemma read_upto_replayed: "read_upto n s = (Inr pre, s') \<Longrightarrow> s'\<lparr>pending := pre @ pending s'\<rparr> = s"
  by (auto simp: read_upto_def split: if_splits option.splits)

definition same_codecs :: "source decoder_set \<Rightarrow> stream decoder_set \<Rightarrow> bool" where
  "same_codecs cs cs' =
     (supported cs = supported cs' \<and> (\<forall>k s. decoded cs' k (flat s) = map_res flat (decoded cs k s)))"

lemma async_decompress_flat:
  assumes "same_codecs cs cs'"
  shows "decompress cs' (flat s) = map_res (\<lambda>(k, d). (k, flat d)) (async_decompress cs s)"
proof -
  obtain r s' where f: "fill_from SNIFF_LEN [] s = (r, s')" by fastforce
  note fl = read_upto_flat [OF f]
  show ?thesis
  proof (cases r)
    case (Inr pre)
    have "(flat s')\<lparr>pending := pre @ pending (flat s')\<rparr> = flat (s'\<lparr>arrivals := pre # arrivals s'\<rparr>)"
      by (simp add: flat_def)
    moreover have "decoded cs' k (flat x) = map_res flat (decoded cs k x)" "supported cs = supported cs'" for k x
      using assms by (auto simp: same_codecs_def)
    ultimately show ?thesis using f fl Inr
      by (auto simp: decompress_def async_decompress_def choose_decoder_def map_res_def split: sum.split)
  qed (use f fl in \<open>simp add: decompress_def async_decompress_def\<close>)
qed

section \<open>One shard\<close>

definition shard_events ::
  "(source \<Rightarrow> source res) \<Rightarrow> source \<Rightarrow> string option \<Rightarrow> string option \<Rightarrow> selection \<Rightarrow> file_event res list" where
  "shard_events dec s url path sel =
     (case dec s of
        Inr d \<Rightarrow> async_events (async_files_new d url path sel)
      | Inl e \<Rightarrow> [Inl e])"

definition shard_samples ::
  "(source \<Rightarrow> source res) \<Rightarrow> source \<Rightarrow> string option \<Rightarrow> string option \<Rightarrow> selection \<Rightarrow> handler \<Rightarrow>
   sample res list" where
  "shard_samples dec s url path sel h = group_events_stream (shard_events dec s url path sel) h"

lemma async_events_items:
  "async_events (async_files_new d url path sel) =
     map (map_res File)
       (to_error (shard_items
          \<lparr>entries = tar_entries_new (flat d), shard_url = url, shard_path = path, shard_selection = sel\<rparr>
          (tar_items (tar_entries_new (flat d))))) @
     [Inr EndOfShard]"
proof -
  let ?af = "async_files_new d url path sel" and ?t = "tar_entries_new (flat d)"
  have flat: "flat_tar (af_entries ?af) = ?t"
    "flat_files ?af = \<lparr>entries = ?t, shard_url = url, shard_path = path, shard_selection = sel\<rparr>"
    by (simp_all add: async_files_new_def async_tar_new_def flat_tar_def tar_entries_new_def flat_files_def)
  let ?xs = "shard_items (flat_files ?af) (tar_items ?t)"
  have "yields shard_files_next ((flat_files ?af)\<lparr>entries := ?t\<rparr>) ?xs"
    unfolding tar_items_def by (rule yields_shard_files [OF tar_pull.yields_all])
  then have "yields tar_files_next \<lparr>inner = flat_files ?af, files_done = False\<rparr> (to_error ?xs)"
    using flat(2) by (intro yields_tar_files) simp
  then have y: "yields files_stream_next (Some ?af) (to_error ?xs)"
    by (rule async_shard_files.yields_agree) (simp add: same_files_def)
  have "length (to_error xs) \<le> length xs" for xs :: "tar_file res list"
    by (induction xs rule: to_error.induct) auto
  also have "length ?xs \<le> length (tar_items ?t)" by (rule length_shard_items)
  finally have "length (to_error ?xs) \<le> tar_left ?t"
    using tar_pull.length_drain_le [of "Suc (tar_left ?t)" ?t] by (simp add: tar_items_def)
  then have "drain (Suc (tar_left ?t)) files_stream_next (Some ?af) = to_error ?xs"
    by (intro yields_drain [OF y]) simp
  then show ?thesis by (simp add: async_events_def flat del: drain.simps)
qed

lemma shard_samples_continue:
  assumes "\<And>e. h e = Continue"
    and dec: "map_res flat (dec s) = dec' (flat s)"
  shows "shard_samples dec s (Some url) path sel h =
    map (Inr \<circ> run_sample) (runs (map File (source_files dec' sel \<lparr>src_url = url, src_path = path, src_stream = flat s\<rparr>)))"
proof -
  have err: "rights (map (map_res File) (to_error xs)) = map File (files_before_error xs)" for xs
    by (induction xs rule: to_error.induct) simp_all
  have "runs (rights (shard_events dec s (Some url) path sel)) =
      runs (map File (source_files dec' sel \<lparr>src_url = url, src_path = path, src_stream = flat s\<rparr>))"
    using dec [symmetric] by (cases "dec s")
      (simp_all add: shard_events_def source_files_def async_events_items source_items_def rights_append err runs_boundary)
  then show ?thesis
    by (simp add: shard_samples_def group_events_stream_eq group_all_runs [OF assms(1)])
qed

section \<open>Grouping, for every handler\<close>

fun grouped_items :: "handler \<Rightarrow> grouper \<Rightarrow> file_event res list \<Rightarrow> sample res list" where
  "grouped_items h g [] = map Inr (opt_list (fst (finish g)))"
| "grouped_items h g (Inl e # es) =
     (case h e of
        Continue \<Rightarrow> grouped_items h g es
      | Stop \<Rightarrow> map Inr (opt_list (fst (finish g)))
      | Reraise \<Rightarrow> Inl e # map Inr (opt_list (fst (finish g))))"
| "grouped_items h g (Inr ev # es) =
     (case push g ev of
        (GSample s, g) \<Rightarrow> Inr s # grouped_items h g es
      | (GPending, g) \<Rightarrow> grouped_items h g es
      | (GFailed e, g) \<Rightarrow> Inl e # grouped_items h g es
      | (GStop, g) \<Rightarrow> map Inr (opt_list (fst (finish g))))"

definition folding :: "handler \<Rightarrow> grouper \<Rightarrow> file_event res list \<Rightarrow> bool \<Rightarrow> group_by_keys" where
  "folding h g es d = \<lparr>gk_files = es, gk_handler = h, gk_grouper = g, gk_done = d\<rparr>"

lemma yields_finished: "yields group_next (folding h g es True) (map Inr (opt_list (fst (finish g))))"
proof -
  have nil: "yields group_next (folding h (g\<lparr>gr_current := None\<rparr>) es True) []"
    by (rule yields.stop) (simp add: folding_def group_next.simps finish_def valid_opt_def)
  have "group_next (folding h g es True) =
      (map_option Inr (valid_opt (gr_current g)), folding h (g\<lparr>gr_current := None\<rparr>) es True)"
    by (simp add: folding_def group_next.simps finish_def)
  then show ?thesis using nil
    by (cases "valid_opt (gr_current g)") (auto simp: finish_def opt_list_def intro: yields.intros)
qed

lemma yields_grouped: "yields group_next (folding h g es False) (grouped_items h g es)"
proof (induction h g es rule: grouped_items.induct)
  case (1 h g)
  have "group_next (folding h g [] False) = group_next (folding h g [] True)"
    by (subst group_next.simps) (simp add: folding_def)
  then show ?case using yields_finished by (auto intro: yields_same_next)
next
  case (2 h g e es)
  have un: "group_next (folding h g (Inl e # es) False) =
      (case h e of
         Continue \<Rightarrow> group_next (folding h g es False)
       | Stop \<Rightarrow> group_next (folding h g es True)
       | Reraise \<Rightarrow> (Some (Inl e), folding h g es True))"
    by (subst group_next.simps) (simp add: folding_def Let_def split: action.split)
  show ?case
    using 2 un yields_finished [of h g es] by (cases "h e") (auto intro: yields_same_next yields.item)
next
  case (3 h g ev es)
  obtain q p where pu: "push g ev = (q, p)" by fastforce
  have un: "group_next (folding h g (Inr ev # es) False) =
      (case q of
         GSample s \<Rightarrow> (Some (Inr s), folding h p es False)
       | GPending \<Rightarrow> group_next (folding h p es False)
       | GFailed e \<Rightarrow> (Some (Inl e), folding h p es False)
       | GStop \<Rightarrow> group_next (folding h p es True))"
    using pu by (subst group_next.simps) (simp add: folding_def Let_def split: grouped.split)
  show ?case
    using 3 pu un yields_finished [of h p es] by (cases q) (auto intro: yields_same_next yields.item)
qed

lemma length_grouped: "length (grouped_items h g es) \<le> Suc (length es)"
proof -
  have "length (opt_list x) \<le> Suc k" for x :: "sample option" and k by (cases x) (simp_all add: opt_list_def)
  then show ?thesis
    by (induction h g es rule: grouped_items.induct)
       (auto split: action.split prod.split grouped.split intro: le_SucI)
qed

lemma group_all_grouped: "group_all es h = grouped_items h (grouper_new h) es"
  using yields_drain [OF yields_grouped, of h "grouper_new h" es "Suc (Suc (length es))"]
    length_grouped [of h "grouper_new h" es]
  by (simp add: group_all_def group_events_def folding_def del: drain.simps)

lemma grouped_boundary: "grouped_items h g [Inr EndOfShard] = map Inr (opt_list (fst (finish g)))"
  by (auto simp: push_def finish_def emit_def valid_opt_def opt_list_def split: option.split)

lemma grouped_last_error:
  "h e \<noteq> Reraise \<Longrightarrow>
     grouped_items h g (map Inr evs @ [Inl e, Inr EndOfShard]) = grouped_items h g (map Inr evs @ [Inr EndOfShard])"
proof (induction evs arbitrary: g)
  case Nil
  then show ?case using grouped_boundary by (cases "h e") simp_all
qed (auto split: prod.split grouped.split)

lemma grouped_archive:
  "grouped_items h g (archive_events h [] xs) = grouped_items h g (map (map_res File) (to_error xs) @ [Inr EndOfShard])"
proof -
  let ?fs = "map File (files_before_error xs)"
  have "archive_events h [] xs = map Inr ?fs @ [Inr EndOfShard] \<and>
        map (map_res File) (to_error xs) @ [Inr EndOfShard] = map Inr ?fs @ [Inr EndOfShard] \<or>
      (\<exists>e. archive_events h [] xs = map Inr ?fs @ (if h e = Reraise then [Inl e, Inr EndOfShard] else [Inr EndOfShard]) \<and>
        map (map_res File) (to_error xs) @ [Inr EndOfShard] = map Inr ?fs @ [Inl e, Inr EndOfShard])"
    by (induction xs rule: to_error.induct) (auto split: action.split)
  then show ?thesis using grouped_last_error [where evs = ?fs] by (auto split: if_splits simp del: map_map)
qed


text \<open>A source of two pieces, and a build that supports gzip alone.\<close>
definition demo_arrivals :: source where
  "demo_arrivals = \<lparr>arrivals = [[0, 0, 0], [], [0, 0]], broken = None\<rparr>"

definition gzip_only :: "'s decoder_set" where
  "gzip_only = \<lparr>supported = (\<lambda>k. False), decoded = (\<lambda>k s. Inl (Format ''not gzip''))\<rparr>"


end
