(* ===== verification/Stages.thy ===== *)
theory Stages
  imports Filters_Spec Shards Codecs
begin

text \<open>
  \<^verbatim>\<open>webdataset/src/stages.rs\<close>: the adapters of \<^verbatim>\<open>filters.rs\<close> as stages of a pipeline.
  A stage keeps its settings and, where the source has an atomic counter or a cell, a
  state that \<open>apply\<close> updates.  \<open>seeded\<close> is the generator seeded with a number and
  \<open>fresh\<close> one seeded from entropy.  A panic while a stage is set up is an error result.
\<close>

section \<open>Shuffling\<close>

record shuffle_stage =
  sg_bufsize :: nat
  sg_initial :: "nat option"
  sg_seed :: "64 word option"
  sg_deterministic :: bool
  sg_epoch :: nat

definition shuffle_stage_new :: "nat \<Rightarrow> shuffle_stage" where
  "shuffle_stage_new n =
     \<lparr>sg_bufsize = n, sg_initial = None, sg_seed = None, sg_deterministic = False, sg_epoch = 0\<rparr>"

definition with_initial :: "nat \<Rightarrow> shuffle_stage \<Rightarrow> shuffle_stage" where
  "with_initial n s = s\<lparr>sg_initial := Some n\<rparr>"

definition with_seed :: "64 word \<Rightarrow> shuffle_stage \<Rightarrow> shuffle_stage" where
  "with_seed seed s = s\<lparr>sg_seed := Some seed\<rparr>"

definition deterministic :: "64 word \<Rightarrow> shuffle_stage \<Rightarrow> shuffle_stage" where
  "deterministic seed s = s\<lparr>sg_seed := Some seed, sg_deterministic := True\<rparr>"

definition epoch_seed :: "worker_info \<Rightarrow> shuffle_stage \<Rightarrow> 64 word option res" where
  "epoch_seed wi s =
     (case sg_seed s of
        None \<Rightarrow> Inr None
      | Some seed \<Rightarrow>
          if sg_deterministic s then
            map_res (\<lambda>w. Some (make_seed [seed, of_nat (sg_epoch s), w])) (worker_seed wi)
          else Inr (Some seed))"

definition warm_up :: "shuffle_stage \<Rightarrow> nat" where
  "warm_up s = (case sg_initial s of Some n \<Rightarrow> n | None \<Rightarrow> max ((sg_bufsize s + 9) div 10) 1)"

definition shuffle_apply ::
  "(64 word \<Rightarrow> 'g) \<Rightarrow> 'g \<Rightarrow> (nat \<Rightarrow> 'g \<Rightarrow> nat \<times> 'g) \<Rightarrow> worker_info \<Rightarrow> shuffle_stage \<Rightarrow>
   sample res list \<Rightarrow> sample res list res \<times> shuffle_stage" where
  "shuffle_apply seeded fresh draw wi s input =
     (map_res
        (\<lambda>seed. drain (Suc (length input)) (shuffle_next draw)
           (shuffle_new input (sg_bufsize s) (warm_up s)
              (case seed of Some n \<Rightarrow> seeded n | None \<Rightarrow> fresh)))
        (epoch_seed wi s),
      s\<lparr>sg_epoch := Suc (sg_epoch s)\<rparr>)"

section \<open>Mapping\<close>

text \<open>\<^verbatim>\<open>map_sample_with\<close> over a whole epoch, with a function that keeps no state.\<close>
definition map_stage :: "(sample \<Rightarrow> sample option res) \<Rightarrow> handler \<Rightarrow> sample res list \<Rightarrow> sample res list" where
  "map_stage f h input =
     drain (Suc (length input)) (map_samples_next (\<lambda>s c. (f s, c)))
       \<lparr>st_source = input, st_fun = (), st_handler = h, st_done = False\<rparr>"

definition decode_stage :: "decoder \<Rightarrow> handler \<Rightarrow> sample res list \<Rightarrow> sample res list" where
  "decode_stage d h = map_stage (\<lambda>s. map_res Some (decode_sample d s)) h"

definition select_stage :: "(sample \<Rightarrow> bool) \<Rightarrow> sample res list \<Rightarrow> sample res list" where
  "select_stage p input = drain (Suc (length input)) (select_next (\<lambda>s c. (p s, c))) (input, ())"

record rename_stage =
  rn_renames :: "(string \<times> string) list"
  rn_keep :: bool
  rn_handler :: handler

definition rename_stage_new :: "(string \<times> string) list \<Rightarrow> rename_stage" where
  "rename_stage_new rs = \<lparr>rn_renames = rs, rn_keep = True, rn_handler = reraise_exception\<rparr>"

definition only_renamed :: "rename_stage \<Rightarrow> rename_stage" where
  "only_renamed s = s\<lparr>rn_keep := False\<rparr>"

definition rename_with_handler :: "handler \<Rightarrow> rename_stage \<Rightarrow> rename_stage" where
  "rename_with_handler x s = s\<lparr>rn_handler := x\<rparr>"

definition rename_apply :: "rename_stage \<Rightarrow> sample res list \<Rightarrow> sample res list" where
  "rename_apply st =
     map_stage (\<lambda>s. map_res Some (rename_fields s (rn_renames st) (rn_keep st))) (rn_handler st)"

record 'p rename_keys_stage =
  rk_renames :: "('p \<times> string) list"
  rk_keep_unselected :: bool
  rk_must_match :: bool
  rk_duplicate_is_error :: bool
  rk_handler :: handler

text \<open>\<open>parse\<close> is \<^verbatim>\<open>glob::Pattern::new\<close>; the first pattern that does not parse is reported.\<close>
definition rename_keys_new :: "(string \<Rightarrow> 'p option) \<Rightarrow> (string \<times> string) list \<Rightarrow> 'p rename_keys_stage res" where
  "rename_keys_new parse rs =
     map_res
       (\<lambda>ps. \<lparr>rk_renames = ps, rk_keep_unselected = False, rk_must_match = True,
              rk_duplicate_is_error = True, rk_handler = reraise_exception\<rparr>)
       (collect_res (\<lambda>(target, pat). map_res (\<lambda>p. (p, target)) (ok_or (Value ''bad pattern'') (parse pat))) rs)"

definition keep_unselected :: "bool \<Rightarrow> 'p rename_keys_stage \<Rightarrow> 'p rename_keys_stage" where
  "keep_unselected x s = s\<lparr>rk_keep_unselected := x\<rparr>"

definition must_match :: "bool \<Rightarrow> 'p rename_keys_stage \<Rightarrow> 'p rename_keys_stage" where
  "must_match x s = s\<lparr>rk_must_match := x\<rparr>"

definition duplicate_is_error :: "bool \<Rightarrow> 'p rename_keys_stage \<Rightarrow> 'p rename_keys_stage" where
  "duplicate_is_error x s = s\<lparr>rk_duplicate_is_error := x\<rparr>"

definition rename_keys_with_handler :: "handler \<Rightarrow> 'p rename_keys_stage \<Rightarrow> 'p rename_keys_stage" where
  "rename_keys_with_handler x s = s\<lparr>rk_handler := x\<rparr>"

definition rename_keys_apply ::
  "('p \<Rightarrow> string \<Rightarrow> bool) \<Rightarrow> 'p rename_keys_stage \<Rightarrow> sample res list \<Rightarrow> sample res list" where
  "rename_keys_apply matches st =
     map_stage
       (\<lambda>s. map_res Some
          (rename_keys_in matches s (rk_renames st) (rk_keep_unselected st) (rk_must_match st)
             (rk_duplicate_is_error st)))
       (rk_handler st)"

definition associate_body :: "(string \<Rightarrow> (string \<times> field_value) list) \<Rightarrow> sample \<Rightarrow> sample" where
  "associate_body lookup s =
     (let key = (case sample_key s of Some k \<Rightarrow> k | None \<Rightarrow> [])
      in foldl (\<lambda>out (name, v). sample_insert name v out) s (lookup key))"

definition associate_apply :: "(string \<Rightarrow> (string \<times> field_value) list) \<Rightarrow> sample res list \<Rightarrow> sample res list" where
  "associate_apply lookup = map_stage (\<lambda>s. Inr (Some (associate_body lookup s))) reraise_exception"

definition from_table :: "(string \<times> (string \<times> field_value) list) list \<Rightarrow> string \<Rightarrow> (string \<times> field_value) list" where
  "from_table table key = (case map_of table key of Some fs \<Rightarrow> fs | None \<Rightarrow> [])"

section \<open>Choosing\<close>

definition subsample_next ::
  "('g \<Rightarrow> rat \<times> 'g) \<Rightarrow> rat \<Rightarrow> 'a res list \<times> 'g \<Rightarrow> 'a res option \<times> 'a res list \<times> 'g" where
  "subsample_next uniform p s = (case s of (xs, g) \<Rightarrow> subsample_loop uniform p xs g)"

definition subsample_apply ::
  "(64 word \<Rightarrow> 'g) \<Rightarrow> 'g \<Rightarrow> ('g \<Rightarrow> rat \<times> 'g) \<Rightarrow> rat \<Rightarrow> 64 word option \<Rightarrow> sample res list \<Rightarrow> sample res list" where
  "subsample_apply seeded fresh uniform p seed input =
     drain (Suc (length input)) (subsample_next uniform (rsample_new p))
       (input, case seed of Some n \<Rightarrow> seeded n | None \<Rightarrow> fresh)"

record slice_stage =
  sc_start :: nat
  sc_count :: "nat option"
  sc_step :: nat

definition slice_new :: "nat \<Rightarrow> nat option \<Rightarrow> slice_stage" where
  "slice_new start limit = \<lparr>sc_start = start, sc_count = limit, sc_step = 1\<rparr>"

definition with_step :: "nat \<Rightarrow> slice_stage \<Rightarrow> slice_stage" where
  "with_step k s = s\<lparr>sc_step := max k 1\<rparr>"

definition slice_apply :: "slice_stage \<Rightarrow> sample res list \<Rightarrow> sample res list" where
  "slice_apply s input =
     (let stepped = step_by (sc_step s) (drop (sc_start s) input)
      in case sc_count s of Some n \<Rightarrow> take n stepped | None \<Rightarrow> stepped)"

definition check_empty_apply :: "string \<Rightarrow> sample res list \<Rightarrow> sample res list" where
  "check_empty_apply message input = drain (Suc (Suc (length input))) non_empty_next (non_empty input message)"

section \<open>Caching\<close>

text \<open>The cell is shared by the epochs; it is set once, when a first pass has reached its end.\<close>

record filling =
  fl_source :: "sample res list"
  collected :: "sample list"
  cached :: "sample list option"

definition set_once :: "'a \<Rightarrow> 'a option \<Rightarrow> 'a option" where
  "set_once x cell = (case cell of None \<Rightarrow> Some x | Some y \<Rightarrow> Some y)"

definition filling_next :: "filling \<Rightarrow> sample res option \<times> filling" where
  "filling_next s =
     (case fl_source s of
        Inr x # rest \<Rightarrow> (Some (Inr x), s\<lparr>fl_source := rest, collected := collected s @ [x]\<rparr>)
      | Inl e # rest \<Rightarrow> (Some (Inl e), s\<lparr>fl_source := rest\<rparr>)
      | [] \<Rightarrow> (None, s\<lparr>collected := [], cached := set_once (collected s) (cached s)\<rparr>))"

datatype cache_stream = Replay "sample res list" | Fill filling

definition cache_new :: "sample list option" where
  "cache_new = None"

definition cache_apply :: "sample list option \<Rightarrow> sample res list \<Rightarrow> cache_stream" where
  "cache_apply cell input =
     (case cell of
        Some xs \<Rightarrow> Replay (map Inr xs)
      | None \<Rightarrow> Fill \<lparr>fl_source = input, collected = [], cached = None\<rparr>)"

definition cache_len :: "sample list option \<Rightarrow> nat option" where
  "cache_len cell = map_option length cell"

definition cache_is_empty :: "sample list option \<Rightarrow> bool" where
  "cache_is_empty cell = (cell = Some [])"

section \<open>Tracing\<close>

record trace_stage =
  tr_label :: string
  tr_first :: nat
  tr_every :: "nat option"

definition trace_new :: "string \<Rightarrow> trace_stage" where
  "trace_new label = \<lparr>tr_label = label, tr_first = 3, tr_every = None\<rparr>"

definition trace_first :: "nat \<Rightarrow> trace_stage \<Rightarrow> trace_stage" where
  "trace_first x s = s\<lparr>tr_first := x\<rparr>"

definition trace_every :: "nat \<Rightarrow> trace_stage \<Rightarrow> trace_stage" where
  "trace_every k s = s\<lparr>tr_every := Some (max k 1)\<rparr>"

text \<open>The items pass unchanged; which of them are logged, counted from one.\<close>
definition trace_apply :: "trace_stage \<Rightarrow> 'a list \<Rightarrow> 'a list \<times> nat list" where
  "trace_apply s input =
     (input,
      filter (\<lambda>seen. seen \<le> tr_first s \<or> (case tr_every s of Some n \<Rightarrow> seen mod n = 0 | None \<Rightarrow> False))
        [1..<Suc (length input)])"

section \<open>What the stages do to an epoch\<close>

fun map_spec :: "(sample \<Rightarrow> sample option res) \<Rightarrow> handler \<Rightarrow> sample res list \<Rightarrow> sample res list" where
  "map_spec f h [] = []"
| "map_spec f h (Inl e # xs) = Inl e # map_spec f h xs"
| "map_spec f h (Inr s # xs) =
     (case fst (map_body (\<lambda>s c. (f s, c)) s ()) of
        Inr (Some y) \<Rightarrow> Inr y # map_spec f h xs
      | Inr None \<Rightarrow> map_spec f h xs
      | Inl e \<Rightarrow>
          (case h e of
             Continue \<Rightarrow> map_spec f h xs
           | Stop \<Rightarrow> []
           | Reraise \<Rightarrow> Inl e # map_spec f h xs))"

definition mapping :: "handler \<Rightarrow> sample res list \<Rightarrow> bool \<Rightarrow> (sample, unit) closure_stage" where
  "mapping h xs d = \<lparr>st_source = xs, st_fun = (), st_handler = h, st_done = d\<rparr>"

lemma mapping_next:
  "map_samples_next f (mapping h xs False) =
     (case handled_loop (map_body f) h xs () of (r, ys, c, d) \<Rightarrow> (r, mapping h ys d))"
  by (simp add: map_samples_next_def handled_next_def mapping_def split: prod.split)

lemma drain_mapping:
  "length xs < n \<Longrightarrow> drain n (map_samples_next (\<lambda>s c. (f s, c))) (mapping h xs False) = map_spec f h xs"
proof (induction xs arbitrary: n rule: map_spec.induct [of _ f h])
  case (1 f h)
  then show ?case by (cases n) (simp_all add: mapping_next)
next
  case (2 f h e xs)
  then show ?case by (cases n) (simp_all add: mapping_next)
next
  case (3 f h s xs)
  obtain m where n: "n = Suc m" using "3.prems" by (cases n) auto
  have m: "length xs < m" "length xs < n" using "3.prems" n by auto
  let ?nx = "map_samples_next (\<lambda>s c. (f s, c))"
  obtain r where r: "map_body (\<lambda>s c. (f s, c)) s () = (r, ())" by (cases "map_body (\<lambda>s c. (f s, c)) s ()") auto
  have skip: "drain n ?nx (mapping h (Inr s # xs) False) = drain n ?nx (mapping h xs False)"
    if "handled_loop (map_body (\<lambda>s c. (f s, c))) h (Inr s # xs) () =
        handled_loop (map_body (\<lambda>s c. (f s, c))) h xs ()"
    by (rule drain_same_next) (simp add: mapping_next that del: handled_loop.simps)
  have stop: "drain m ?nx (mapping h xs True) = []" for m
    by (cases m) (simp_all add: map_samples_next_def handled_next_def mapping_def)
  show ?case
  proof (cases r)
    case (Inl e)
    show ?thesis
    proof (cases "h e")
      case Continue
      have "drain n ?nx (mapping h (Inr s # xs) False) = drain n ?nx (mapping h xs False)"
        by (rule skip) (simp add: r Inl Continue)
      also have "... = map_spec f h xs" using "3.IH" r m Inl Continue by simp
      finally show ?thesis using r Inl Continue by simp
    next
      case Stop
      then show ?thesis using r Inl n stop by (simp add: mapping_next)
    next
      case Reraise
      then show ?thesis using "3.IH" r Inl n m by (simp add: mapping_next)
    qed
  next
    case (Inr o1)
    show ?thesis
    proof (cases o1)
      case None
      have "drain n ?nx (mapping h (Inr s # xs) False) = drain n ?nx (mapping h xs False)"
        by (rule skip) (simp add: r Inr None)
      also have "... = map_spec f h xs" using "3.IH" r m Inr None by simp
      finally show ?thesis using r Inr None by simp
    next
      case (Some y)
      then show ?thesis using "3.IH" r Inr n m by (simp add: mapping_next)
    qed
  qed
qed

lemma map_stage_eq: "map_stage f h input = map_spec f h input"
  using drain_mapping [of input "Suc (length input)" f h] by (simp add: map_stage_def mapping_def)

fun polls :: "nat \<Rightarrow> ('s \<Rightarrow> 'a option \<times> 's) \<Rightarrow> 's \<Rightarrow> 's" where
  "polls 0 nxt s = s"
| "polls (Suc n) nxt s = polls n nxt (snd (nxt s))"

lemma filling_steps [simp]:
  "filling_next \<lparr>fl_source = Inr x # xs, collected = ys, cached = c\<rparr> =
     (Some (Inr x), \<lparr>fl_source = xs, collected = ys @ [x], cached = c\<rparr>)"
  "filling_next \<lparr>fl_source = Inl e # xs, collected = ys, cached = c\<rparr> =
     (Some (Inl e), \<lparr>fl_source = xs, collected = ys, cached = c\<rparr>)"
  "filling_next \<lparr>fl_source = [], collected = ys, cached = c\<rparr> =
     (None, \<lparr>fl_source = [], collected = [], cached = set_once ys c\<rparr>)"
  by (simp_all add: filling_next_def)

lemma advance_filled:
  "polls n filling_next \<lparr>fl_source = [], collected = ys, cached = Some zs\<rparr> =
     \<lparr>fl_source = [], collected = (if n = 0 then ys else []), cached = Some zs\<rparr>"
  by (induction n arbitrary: ys) (simp_all add: set_once_def)

lemma advance_filling:
  "cached (polls n filling_next \<lparr>fl_source = xs, collected = ys, cached = None\<rparr>) =
     (if n \<le> length xs then None else Some (ys @ rights xs))"
proof (induction xs arbitrary: n ys)
  case Nil
  then show ?case by (cases n) (simp_all add: set_once_def advance_filled)
next
  case (Cons x xs)
  then show ?case by (cases n; cases x) simp_all
qed

lemma drain_filling: "drain n filling_next \<lparr>fl_source = xs, collected = ys, cached = c\<rparr> = take n xs"
proof (induction xs arbitrary: n ys c)
  case Nil
  then show ?case by (cases n) simp_all
next
  case (Cons x xs)
  then show ?case by (cases n; cases x) simp_all
qed

text \<open>The stages of a pipeline, and so the cell, are shared by the workers of a loader: what one worker
  has read to the end is what another one replays, in place of its own share.\<close>
lemma cache_replays_other_worker:
  "cache_apply (cached (polls (Suc (length mine)) filling_next
     \<lparr>fl_source = mine, collected = [], cached = None\<rparr>)) theirs = Replay (map Inr (rights mine))"
  by (simp add: cache_apply_def advance_filling del: polls.simps)

section \<open>Properties\<close>

text \<open>A mapping stage handles its samples one by one: an upstream error passes through where it
  stands, a dropped sample leaves nothing, a failing one leaves nothing or its error as the
  handler decides, and only a handler that stops cuts off what follows.\<close>
theorem map_stage_pointwise: "map_stage f h input = map_spec f h input"
  by (rule map_stage_eq)

text \<open>C37: the memory cache is filled by whole passes only: however many items of a first pass are
  pulled, they are the items of the source; if fewer than all and the end are pulled, the
  cache stays empty, otherwise it holds exactly the samples of the pass.\<close>
theorem cache_commits_whole_passes:
  "drain n filling_next \<lparr>fl_source = xs, collected = [], cached = None\<rparr> = take n xs \<and>
   cached (polls n filling_next \<lparr>fl_source = xs, collected = [], cached = None\<rparr>) =
     (if n \<le> length xs then None else Some (rights xs))"
  by (simp add: drain_filling advance_filling)

end
