(* ===== verification/Asynch_Pipeline.thy ===== *)
theory Asynch_Pipeline
  imports Asynch_Shard Stages
begin

text \<open>
  \<^verbatim>\<open>webdataset/src/asynch/pipeline.rs\<close>, \<^verbatim>\<open>stages.rs\<close> and \<^verbatim>\<open>sources.rs\<close>: the
  asynchronous pipeline over stages of the same kind as the blocking one, its replaying, the stages
  between a shard list and the reader, and the reader that keeps several shards in flight.  How
  \<^verbatim>\<open>flatten_unordered\<close> interleaves the streams of the shards is a parameter.
\<close>

section \<open>Pipelines\<close>

text \<open>\<^verbatim>\<open>LiftSource\<close>: a blocking source stage as a stream.\<close>
definition lift_source :: "'w stage \<Rightarrow> 'w stage" where
  "lift_source st w inp = st w empty_stream"

definition with_source :: "'w stage \<Rightarrow> 'w data_pipeline \<Rightarrow> 'w data_pipeline" where
  "with_source st p = with_stage (lift_source st) p"

record 'w async_repeated =
  ar_pipeline :: "'w data_pipeline"
  ar_world :: 'w
  ar_current :: "sample res list"
  ar_epochs_left :: "nat option"
  ar_produced :: nat

text \<open>The first epoch is started when the stream is built.\<close>
definition async_repeated_new :: "'w data_pipeline \<Rightarrow> 'w \<Rightarrow> 'w async_repeated option" where
  "async_repeated_new p w =
     (let epochs_left = (case repetitions p of Once \<Rightarrow> Some 1 | Times n \<Rightarrow> Some n | Forever \<Rightarrow> None)
      in case run_once p w of
           (stream, w) \<Rightarrow>
             Some \<lparr>ar_pipeline = p, ar_world = w, ar_current = stream,
                   ar_epochs_left = map_option (\<lambda>n. n - 1) epochs_left, ar_produced = 0\<rparr>)"

function async_repeated_body :: "'w async_repeated \<Rightarrow> (sample res \<times> 'w async_repeated option) option" where
  "async_repeated_body s =
     (case ar_current s of
        item # rest \<Rightarrow> Some (item, Some (s\<lparr>ar_current := rest, ar_produced := Suc (ar_produced s)\<rparr>))
      | [] \<Rightarrow>
          if ar_produced s = 0 then None
          else
            (case ar_epochs_left s of
               Some 0 \<Rightarrow> None
             | left \<Rightarrow>
                 (case run_once (ar_pipeline s) (ar_world s) of
                    (stream, w) \<Rightarrow>
                      async_repeated_body
                        (s\<lparr>ar_world := w, ar_current := stream, ar_epochs_left := map_option (\<lambda>n. n - 1) left,
                           ar_produced := 0\<rparr>))))"
  by pat_completeness auto
termination by (relation "measure ar_produced") auto

declare async_repeated_body.simps [simp del]

definition async_repeated_next :: "'w async_repeated option \<Rightarrow> sample res option \<times> 'w async_repeated option" where
  "async_repeated_next = unfold_next async_repeated_body"

text \<open>The first \<open>wanted\<close> items of \<^verbatim>\<open>AsyncDataPipeline::stream\<close>.\<close>
definition async_items :: "nat \<Rightarrow> 'w data_pipeline \<Rightarrow> 'w \<Rightarrow> sample res list" where
  "async_items wanted p w =
     (let n = (case limit p of Some k \<Rightarrow> min k wanted | None \<Rightarrow> wanted) in
      case repetitions p of
        Once \<Rightarrow> take n (fst (run_once p w))
      | _ \<Rightarrow> drain n async_repeated_next (async_repeated_new p w))"

definition astate ::
  "'w data_pipeline \<Rightarrow> 'w \<Rightarrow> sample res list \<Rightarrow> nat option \<Rightarrow> nat \<Rightarrow> 'w async_repeated" where
  "astate p w xs left k =
     \<lparr>ar_pipeline = p, ar_world = w, ar_current = xs, ar_epochs_left = left, ar_produced = k\<rparr>"

lemma async_body_running:
  "async_repeated_body (astate p w (x # xs) left k) = Some (x, Some (astate p w xs left (Suc k)))"
  "async_repeated_body (astate p w [] left 0) = None"
  "async_repeated_body (astate p w [] (Some 0) k) = None"
  by (subst async_repeated_body.simps, simp add: astate_def)+

lemma async_body_restart:
  assumes "run_once p w = (xs, w')" "left \<noteq> Some 0"
  shows "async_repeated_body (astate p w [] left (Suc k)) =
    async_repeated_body (astate p w' xs (map_option (\<lambda>n. n - 1) left) 0)"
  using assms
  by (subst async_repeated_body.simps) (auto simp: astate_def split: option.split nat.split)

lemma repeated_empty: "repeated_next (rstate p w (Some []) left 0) = (None, rstate p w None left 0)"
  by (subst repeated_next.simps) (simp add: rstate_def start_epoch_def)

lemma repeated_start_running:
  assumes "run_once p w = (xs, w')" "left \<noteq> Some 0"
  shows "repeated_next (rstate p w None left k) =
    repeated_next (rstate p w' (Some xs) (map_option (\<lambda>n. n - 1) left) 0)"
  using repeated_start [OF assms, of k] by (cases xs) (simp_all add: repeated_running repeated_empty)

definition same_replay :: "'w repeated \<Rightarrow> 'w async_repeated option \<Rightarrow> bool" where
  "same_replay s u =
     (\<exists>p w xs left k. u = Some (astate p w xs left k) \<and>
        repeated_next s = repeated_next (rstate p w (Some xs) left k))"

lemma same_replay_running: "same_replay (rstate p w (Some xs) left k) (Some (astate p w xs left k))"
  unfolding same_replay_def by blast

interpretation replays: agreeing repeated_next async_repeated_next same_replay
proof
  fix s u r s'
  assume "same_replay s u" and r: "repeated_next s = (r, s')"
  then obtain p w xs left k where u: "u = Some (astate p w xs left k)"
    and n: "repeated_next (rstate p w (Some xs) left k) = (r, s')" by (auto simp: same_replay_def)
  note defs = async_repeated_next_def unfold_next_def
  show "\<exists>u'. async_repeated_next u = (r, u') \<and> (r \<noteq> None \<longrightarrow> same_replay s' u')"
  proof (cases xs)
    case (Cons x ys)
    then show ?thesis using n u same_replay_running
      by (auto simp: defs repeated_running async_body_running)
  next
    case Nil
    consider "k = 0" | j where "k = Suc j" "left = Some 0" | j where "k = Suc j" "left \<noteq> Some 0"
      by (cases k) auto
    then show ?thesis
    proof cases
      case 1
      then show ?thesis using n u Nil by (auto simp: defs repeated_empty async_body_running)
    next
      case 2
      then show ?thesis using n u Nil by (auto simp: defs repeated_running repeated_no_epoch async_body_running)
    next
      case 3
      obtain ys w' where run: "run_once p w = (ys, w')" by fastforce
      let ?left = "map_option (\<lambda>n. n - 1) left"
      have "repeated_next (rstate p w' (Some ys) ?left 0) = (r, s')"
        using n Nil 3 repeated_running(2) repeated_start_running [OF run 3(2)] by metis
      moreover have "async_repeated_body (astate p w xs left k) = async_repeated_body (astate p w' ys ?left 0)"
        using async_body_restart [OF run 3(2)] Nil 3 by simp
      ultimately show ?thesis using u same_replay_running
        by (cases ys) (auto simp: defs repeated_running repeated_empty async_body_running)
    qed
  qed
qed

lemma same_replay_new:
  assumes "repetitions p \<noteq> Times 0"
  shows "same_replay (repeated_new p w) (async_repeated_new p w)"
proof -
  obtain xs w' where run: "run_once p w = (xs, w')" by fastforce
  define left where "left = (case repetitions p of Once \<Rightarrow> Some 1 | Times n \<Rightarrow> Some n | Forever \<Rightarrow> None)"
  have left: "left \<noteq> Some 0" using assms by (auto simp: left_def split: repetitions.splits)
  have "repeated_new p w = rstate p w None left 0"
    by (simp add: repeated_new_def rstate_def left_def)
  moreover have "async_repeated_new p w = Some (astate p w' xs (map_option (\<lambda>n. n - 1) left) 0)"
    by (simp add: async_repeated_new_def run astate_def left_def)
  ultimately show ?thesis using repeated_start_running [OF run left, of 0]
    unfolding same_replay_def by metis
qed

lemma async_items_same:
  "repetitions p \<noteq> Times 0 \<Longrightarrow> async_items wanted p w = pipeline_items wanted p w"
  using replays.drain_agree [OF same_replay_new, of p]
  by (simp add: async_items_def pipeline_items_def Let_def split: repetitions.split)

text \<open>Zero repetitions: the blocking pipeline is empty, the asynchronous one runs an epoch.\<close>
lemma zero_epochs_differ:
  assumes "repetitions p = Times 0" "limit p = None"
  shows "pipeline_items n p w = [] \<and> async_items n p w = take n (fst (run_once p w))"
proof -
  obtain xs w' where run: "run_once p w = (xs, w')" by fastforce
  have new: "async_repeated_new p w = Some (astate p w' xs (Some 0) 0)" "repeated_new p w = rstate p w None (Some 0) 0"
    using assms by (simp_all add: async_repeated_new_def run astate_def repeated_new_def rstate_def)
  have "drain n async_repeated_next (Some (astate p w' xs (Some 0) k)) = take n xs" for k
  proof (induction n arbitrary: xs k)
    case (Suc n)
    then show ?case by (cases xs) (simp_all add: async_repeated_next_def unfold_next_def async_body_running)
  qed simp
  moreover have "drain n repeated_next (rstate p w None (Some 0) 0) = []"
    by (cases n) (simp_all add: repeated_no_epoch)
  ultimately show ?thesis using assms run new by (simp add: async_items_def pipeline_items_def)
qed

section \<open>Stages\<close>

text \<open>\<^verbatim>\<open>enumerate\<close>, \<^verbatim>\<open>filter\<close>, \<^verbatim>\<open>map\<close>.\<close>
definition deal :: "nat \<Rightarrow> nat \<Rightarrow> 'a list \<Rightarrow> 'a list" where
  "deal index parts xs =
     map (\<lambda>(position, item). item)
       (filter (\<lambda>(position, item). position mod parts = index) (List.enumerate 0 xs))"

definition async_split_by_node :: "worker_info \<Rightarrow> 'a list \<Rightarrow> 'a list" where
  "async_split_by_node wi xs = (if world_size wi \<le> 1 then xs else deal (rank wi) (world_size wi) xs)"

definition async_split_by_worker :: "worker_info \<Rightarrow> 'a list \<Rightarrow> 'a list" where
  "async_split_by_worker wi xs = (if num_workers wi \<le> 1 then xs else deal (worker wi) (num_workers wi) xs)"

definition async_single_node_only :: "worker_info \<Rightarrow> 'a res list \<Rightarrow> 'a res list" where
  "async_single_node_only wi xs =
     (if 1 < world_size wi then [Inl (Value ''this pipeline has no node splitter'')] else xs)"

lemma deal_step_by: "index < parts \<Longrightarrow> deal index parts xs = step_by parts (drop index xs)"
  using step_by_every [of parts "drop index xs"] every_drop [of index parts xs]
  by (simp add: deal_def every_def split_def)

lemma deal_nothing: "parts \<le> index \<Longrightarrow> 0 < parts \<Longrightarrow> deal index parts xs = []"
proof -
  assume "parts \<le> index" "0 < parts"
  then have "i mod parts \<noteq> index" for i by (metis mod_less_divisor not_le)
  then show ?thesis by (simp add: deal_def filter_empty_conv split_def)
qed

text \<open>A rank past the number of nodes is dealt shards by the blocking stage and none by this one.\<close>
lemma stray_rank_differs:
  "world_size wi = 2 \<Longrightarrow> rank wi = 2 \<Longrightarrow>
     split_by_node wi [a, b, c] = [c] \<and> async_split_by_node wi [a, b, c] = []"
  by (simp add: split_by_node_def async_split_by_node_def deal_nothing numeral_2_eq_2)

record async_shuffle_stage =
  ag_bufsize :: nat
  ag_seed :: "64 word option"
  ag_deterministic :: bool
  ag_epoch :: nat

definition async_shuffle_stage_new :: "nat \<Rightarrow> async_shuffle_stage" where
  "async_shuffle_stage_new n = \<lparr>ag_bufsize = n, ag_seed = None, ag_deterministic = False, ag_epoch = 0\<rparr>"

definition async_with_seed :: "64 word \<Rightarrow> async_shuffle_stage \<Rightarrow> async_shuffle_stage" where
  "async_with_seed seed s = s\<lparr>ag_seed := Some seed\<rparr>"

definition async_deterministic :: "64 word \<Rightarrow> async_shuffle_stage \<Rightarrow> async_shuffle_stage" where
  "async_deterministic seed s = s\<lparr>ag_seed := Some seed, ag_deterministic := True\<rparr>"

definition async_epoch_seed :: "worker_info \<Rightarrow> async_shuffle_stage \<Rightarrow> 64 word option res" where
  "async_epoch_seed wi s =
     (case ag_seed s of
        None \<Rightarrow> Inr None
      | Some seed \<Rightarrow>
          if ag_deterministic s then
            map_res (\<lambda>w. Some (make_seed [seed, of_nat (ag_epoch s), w])) (worker_seed wi)
          else Inr (Some seed))"

definition async_shuffle_apply ::
  "(64 word \<Rightarrow> 'g) \<Rightarrow> 'g \<Rightarrow> (nat \<Rightarrow> 'g \<Rightarrow> nat \<times> 'g) \<Rightarrow> worker_info \<Rightarrow> async_shuffle_stage \<Rightarrow>
   sample res list \<Rightarrow> sample res list res \<times> async_shuffle_stage" where
  "async_shuffle_apply seeded fresh draw wi s input =
     (map_res
        (\<lambda>seed. drain (Suc (length input)) (async_shuffle_next draw (ag_bufsize s))
           (async_shuffled input (case seed of Some n \<Rightarrow> seeded n | None \<Rightarrow> fresh)))
        (async_epoch_seed wi s),
      s\<lparr>ag_epoch := Suc (ag_epoch s)\<rparr>)"

definition async_check_empty :: "string \<Rightarrow> sample res list \<Rightarrow> sample res list" where
  "async_check_empty message input =
     drain (Suc (Suc (length input))) async_guard_next (async_guarded input message)"

definition sync_shuffle :: "async_shuffle_stage \<Rightarrow> shuffle_stage" where
  "sync_shuffle s =
     \<lparr>sg_bufsize = ag_bufsize s, sg_initial = None, sg_seed = ag_seed s, sg_deterministic = ag_deterministic s,
      sg_epoch = ag_epoch s\<rparr>"

lemma async_shuffle_apply_same:
  "async_shuffle_apply seeded fresh draw wi s input = (r, s') \<Longrightarrow>
     shuffle_apply seeded fresh draw wi (sync_shuffle s) input = (r, sync_shuffle s')"
proof -
  have "drain n (shuffle_next draw) (shuffle_new input (sg_bufsize (sync_shuffle s)) (warm_up (sync_shuffle s)) g) =
      drain n (async_shuffle_next draw (ag_bufsize s)) (async_shuffled input g)" for n g
    by (rule shuffles.drain_agree)
       (auto simp: same_shuffle_def sync_shuffle_def warm_up_def shuffle_new_def async_shuffled_def
         shuffle_state_def async_bufsize_def async_initial_def Let_def min_def max_def)
  moreover have "epoch_seed wi (sync_shuffle s) = async_epoch_seed wi s"
    by (simp add: epoch_seed_def async_epoch_seed_def sync_shuffle_def split: option.split)
  ultimately show "async_shuffle_apply seeded fresh draw wi s input = (r, s') \<Longrightarrow>
     shuffle_apply seeded fresh draw wi (sync_shuffle s) input = (r, sync_shuffle s')"
    by (auto simp: shuffle_apply_def async_shuffle_apply_def sync_shuffle_def simp del: drain.simps)
qed

lemma async_check_empty_same: "async_check_empty = check_empty_apply"
  by (intro ext) (simp only: async_check_empty_def check_empty_apply_def guards.drain_agree [OF guarded_same])

end
