(* ===== verification/ShardSpecs.thy ===== *)
theory ShardSpecs
  imports Shards
begin

text \<open>
  The YAML specification of \<^verbatim>\<open>MultiShardSample\<close> in \<^verbatim>\<open>webdataset/src/shardlists.rs\<close>.  A
  parsed document of the third-party \<^verbatim>\<open>serde_yaml\<close> crate is seen through the shapes
  the code asks for; the environment is a function, and the length of the longest
  alphanumeric name at the start of a string (a Unicode table) is a parameter.
\<close>

datatype yaml =
    YString string
  | YSequence "yaml list"
  | YNumber nat
  | YMapping "(string \<times> yaml) list"
  | YOther

definition yaml_get :: "string \<Rightarrow> yaml \<Rightarrow> yaml option" where
  "yaml_get key v = (case v of YMapping m \<Rightarrow> map_of m key | _ \<Rightarrow> None)"

definition yaml_str :: "yaml \<Rightarrow> string option" where
  "yaml_str v = (case v of YString s \<Rightarrow> Some s | _ \<Rightarrow> None)"

definition yaml_u64 :: "yaml \<Rightarrow> nat option" where
  "yaml_u64 v = (case v of YNumber n \<Rightarrow> Some n | _ \<Rightarrow> None)"

section \<open>Paths\<close>

definition split_variable :: "(string \<Rightarrow> nat) \<Rightarrow> string \<Rightarrow> string \<times> string" where
  "split_variable name_len tail =
     (case strip_prefix ''{'' tail of
        Some braced \<Rightarrow>
          (case find_idx (\<lambda>c. c = CHR ''}'') braced of
             Some i \<Rightarrow> (take i braced, drop (Suc i) braced)
           | None \<Rightarrow> ([], tail))
      | None \<Rightarrow> (take (name_len tail) tail, drop (name_len tail) tail))"

lemma split_variable_shrinks: "split_variable f t = (n, r) \<Longrightarrow> length r \<le> length t"
  by (auto simp: split_variable_def strip_prefix_Some_iff split: option.splits)

function expand_vars :: "(string \<Rightarrow> nat) \<Rightarrow> (string \<Rightarrow> string option) \<Rightarrow> string \<Rightarrow> string" where
  "expand_vars name_len env rest =
     (case find_idx (\<lambda>c. c = CHR ''$'') rest of
        None \<Rightarrow> rest
      | Some i \<Rightarrow>
          (case split_variable name_len (drop (Suc i) rest) of
             (name, remainder) \<Rightarrow>
               take i rest @
               (case env name of Some v \<Rightarrow> v | None \<Rightarrow> CHR ''$'' # name) @
               expand_vars name_len env remainder))"
  by pat_completeness auto
termination
proof (relation "measure (\<lambda>(f, env, rest). length rest)", goal_cases)
  case (2 f env rest i name remainder)
  then have "length remainder \<le> length rest - Suc i" using split_variable_shrinks [OF sym [OF 2(2)]] by simp
  moreover have "i < length rest" using 2(1) find_idx_SomeD by fastforce
  ultimately show ?case by simp
qed simp

declare expand_vars.simps [simp del]

definition expand_path :: "(string \<Rightarrow> nat) \<Rightarrow> (string \<Rightarrow> string option) \<Rightarrow> string \<Rightarrow> string" where
  "expand_path name_len env text =
     expand_vars name_len env
       (case strip_prefix ''~/'' text of
          Some rest \<Rightarrow> (case env ''HOME'' of Some home \<Rightarrow> home @ ''/'' @ rest | None \<Rightarrow> text)
        | None \<Rightarrow> text)"

definition join_bucket :: "string \<Rightarrow> string \<Rightarrow> string" where
  "join_bucket bucket url =
     (if bucket = [] then url
      else if ends_with ''/'' bucket then bucket @ url
      else bucket @ ''/'' @ url)"

definition buckets_of :: "(string \<Rightarrow> string) \<Rightarrow> yaml \<Rightarrow> string list" where
  "buckets_of expand v =
     (case yaml_get ''buckets'' v of
        Some (YString s) \<Rightarrow> [expand s]
      | Some (YSequence items) \<Rightarrow> map expand (List.map_filter yaml_str items)
      | _ \<Rightarrow> [])"

section \<open>The specification\<close>

definition dataset_source ::
  "(string \<Rightarrow> string list run) \<Rightarrow> (string \<Rightarrow> string) \<Rightarrow> string \<Rightarrow> string list \<Rightarrow> yaml \<Rightarrow>
   multi_source run" where
  "dataset_source urls_of expand prefix_text default_buckets ds =
     (let own = buckets_of expand ds;
          buckets = (if own = [] then default_buckets else own);
          bucket = (case buckets of b # _ \<Rightarrow> b | [] \<Rightarrow> []);
          name = (case Option.bind (yaml_get ''name'' ds) yaml_str of
                    Some n \<Rightarrow> n | None \<Rightarrow> CHR ''@'' # bucket)
      in case yaml_get ''shards'' ds of
           None \<Rightarrow> Some (Inl (Format ''no shards''))
         | Some shards \<Rightarrow>
             (case (case shards of
                      YString s \<Rightarrow> Some [s]
                    | YSequence items \<Rightarrow> Some (List.map_filter yaml_str items)
                    | _ \<Rightarrow> None) of
                None \<Rightarrow> Some (Inl (Format ''shards must be a string or a list''))
              | Some patterns \<Rightarrow>
                  map_option
                    (map_res
                       (\<lambda>urls. \<lparr>ms_name = name,
                          ms_urls = map (\<lambda>u. prefix_text @ join_bucket bucket u) urls,
                          ms_resample = Option.bind (yaml_get ''resample'' ds) yaml_u64,
                          ms_choose = Option.bind (yaml_get ''choose'' ds) yaml_u64\<rparr>))
                    (expand_all urls_of (map expand patterns))))"

fun dataset_sources :: "(yaml \<Rightarrow> multi_source run) \<Rightarrow> yaml list \<Rightarrow> multi_source list run" where
  "dataset_sources f [] = Some (Inr [])"
| "dataset_sources f (d # ds) =
     (case f d of
        None \<Rightarrow> None
      | Some (Inl e) \<Rightarrow> Some (Inl e)
      | Some (Inr s) \<Rightarrow> map_option (map_res ((#) s)) (dataset_sources f ds))"

definition from_yaml ::
  "(string \<Rightarrow> yaml option) \<Rightarrow> (string \<Rightarrow> string list run) \<Rightarrow> (string \<Rightarrow> string) \<Rightarrow> string \<Rightarrow>
   multi_source list run" where
  "from_yaml parse urls_of expand text =
     (case parse text of
        None \<Rightarrow> Some (Inl (Format ''bad dataset spec''))
      | Some spec \<Rightarrow>
          (let prefix_text = (case Option.bind (yaml_get ''prefix'' spec) yaml_str of
                                Some p \<Rightarrow> expand p | None \<Rightarrow> [])
           in case yaml_get ''datasets'' spec of
                Some (YSequence datasets) \<Rightarrow>
                  map_option (\<lambda>r. and_then r multi_new)
                    (dataset_sources
                       (dataset_source urls_of expand prefix_text (buckets_of expand spec)) datasets)
              | _ \<Rightarrow> Some (Inl (Format ''dataset spec has no datasets list''))))"

lemma expand_vars_no_dollar:
  "CHR ''$'' \<notin> set s \<Longrightarrow> expand_vars f env s = s"
proof -
  assume "CHR ''$'' \<notin> set s"
  then have "find_idx (\<lambda>c. c = CHR ''$'') s = None" by (auto simp: find_idx_None_iff)
  then show ?thesis by (simp add: expand_vars.simps)
qed

text \<open>An unset variable in braces is not left as it is: its braces are dropped, so that \<^verbatim>\<open>${X}Y\<close>
  becomes the other variable reference \<^verbatim>\<open>$XY\<close>.\<close>
theorem unset_variable_loses_braces:
  "expand_path name_len (\<lambda>_. None) ''${X}Y'' = ''$XY''"
proof -
  have "expand_vars name_len (\<lambda>_. None) ''Y'' = ''Y''" by (rule expand_vars_no_dollar) simp
  then show ?thesis
    by (simp add: expand_path_def expand_vars.simps [of name_len _ "CHR ''$'' # _"] split_variable_def)
qed

end
