(* ===== verification/Dataset.thy ===== *)
theory Dataset
  imports ShardSpecs Sources Stages
begin

text \<open>
  \<^verbatim>\<open>webdataset/src/dataset.rs\<close>: the builder that assembles the standard pipeline
  and the methods that extend it.  A stage is a value that carries its settings and its
  state; \<open>apply_stage\<close> runs it for an epoch.  What the run depends on (generators,
  entropy, the worker, decompression, how much of an endless list is read) is the
  record \<open>runtime\<close>; what building depends on is \<open>surroundings\<close>.
\<close>

datatype node_split = Refuse | ByNode | NoSplit

datatype source_spec = Patterns "string list" | Verbatim "string list" | Yaml string

record builder =
  source_of :: source_spec
  shard_shuffle :: "nat option"
  resampled_shards :: bool
  cache_dir :: "string option"
  cache_size :: "nat option"
  node_splitting :: node_split
  worker_split :: bool
  b_selection :: selection
  empty_check :: bool
  b_seed :: "64 word option"
  b_deterministic :: bool
  b_handler :: handler

definition builder_new :: "source_spec \<Rightarrow> builder" where
  "builder_new src =
     \<lparr>source_of = src, shard_shuffle = None, resampled_shards = False, cache_dir = None, cache_size = None,
      node_splitting = Refuse, worker_split = True, b_selection = selection_new, empty_check = True,
      b_seed = None, b_deterministic = False, b_handler = reraise_exception\<rparr>"

text \<open>The settings.\<close>

definition set_shard_shuffle :: "nat \<Rightarrow> builder \<Rightarrow> builder" where
  "set_shard_shuffle x s = s\<lparr>shard_shuffle := Some x\<rparr>"

definition set_resampled :: "bool \<Rightarrow> builder \<Rightarrow> builder" where
  "set_resampled x s = s\<lparr>resampled_shards := x\<rparr>"

definition set_cache_dir :: "string \<Rightarrow> builder \<Rightarrow> builder" where
  "set_cache_dir x s = s\<lparr>cache_dir := Some x\<rparr>"

definition set_cache_size :: "nat \<Rightarrow> builder \<Rightarrow> builder" where
  "set_cache_size x s = s\<lparr>cache_size := Some x\<rparr>"

definition set_node_split :: "node_split \<Rightarrow> builder \<Rightarrow> builder" where
  "set_node_split x s = s\<lparr>node_splitting := x\<rparr>"

definition set_worker_split :: "bool \<Rightarrow> builder \<Rightarrow> builder" where
  "set_worker_split x s = s\<lparr>worker_split := x\<rparr>"

definition set_selection :: "selection \<Rightarrow> builder \<Rightarrow> builder" where
  "set_selection x s = s\<lparr>b_selection := x\<rparr>"

definition set_empty_check :: "bool \<Rightarrow> builder \<Rightarrow> builder" where
  "set_empty_check x s = s\<lparr>empty_check := x\<rparr>"

definition set_seed :: "64 word \<Rightarrow> builder \<Rightarrow> builder" where
  "set_seed x s = s\<lparr>b_seed := Some x\<rparr>"

definition set_deterministic :: "bool \<Rightarrow> builder \<Rightarrow> builder" where
  "set_deterministic x s = s\<lparr>b_deterministic := x\<rparr>"

definition set_handler :: "handler \<Rightarrow> builder \<Rightarrow> builder" where
  "set_handler x s = s\<lparr>b_handler := x\<rparr>"

definition builder_for :: "string \<Rightarrow> builder" where
  "builder_for urls = builder_new (Patterns [urls])"

definition builder_from :: "string list \<Rightarrow> builder" where
  "builder_from patterns = builder_new (Patterns patterns)"

definition builder_verbatim :: "string list \<Rightarrow> builder" where
  "builder_verbatim urls = builder_new (Verbatim urls)"

definition builder_from_yaml :: "string \<Rightarrow> builder" where
  "builder_from_yaml spec = builder_new (Yaml spec)"

datatype 'g dataset_stage =
    ShardList simple_shard_list
  | DrawShards resampled
  | MixShards "multi_source list" 'g
  | OnlySingleNode
  | DealNodes
  | DealWorkers
  | ShuffleStage shuffle_stage
  | ReadShards shards_to_samples
  | GuardEmpty string
  | MapSamples "sample \<Rightarrow> sample option res" handler
  | SelectSamples "sample \<Rightarrow> bool"
  | RenameFields rename_stage
  | SliceSamples slice_stage

record 'g dataset =
  ds_stages :: "'g dataset_stage list"
  ds_repetitions :: repetitions
  ds_limit :: "nat option"
  ds_handler :: handler
  ds_seed :: "64 word"

section \<open>Building\<close>

record 'g surroundings =
  var :: "string \<Rightarrow> string option"
  wide :: "string \<Rightarrow> bool"
  yaml_parse :: "string \<Rightarrow> yaml option"
  name_len :: "string \<Rightarrow> nat"
  dir_exists :: "string \<Rightarrow> bool"
  random_seed :: "64 word"
  seeded :: "64 word \<Rightarrow> 'g"
  streaming :: opener
  caching :: "string \<Rightarrow> nat option \<Rightarrow> opener"

definition chosen_seed :: "'g surroundings \<Rightarrow> builder \<Rightarrow> 64 word" where
  "chosen_seed su b =
     (case b_seed b of
        Some n \<Rightarrow> n
      | None \<Rightarrow>
          (case Option.bind (var su ''WDS_SEED'') (parse_uint 64 10) of
             Some n \<Rightarrow> of_nat n
           | None \<Rightarrow> random_seed su))"

definition resampled_stage :: "'g surroundings \<Rightarrow> builder \<Rightarrow> string list \<Rightarrow> 'g dataset_stage res option" where
  "resampled_stage su b patterns =
     map_option
       (map_res (\<lambda>r. DrawShards (r\<lparr>rs_seed := chosen_seed su b, rs_deterministic := b_deterministic b\<rparr>)))
       (resampled_new (wide su) (var su) patterns)"

definition shard_stage :: "'g surroundings \<Rightarrow> builder \<Rightarrow> 'g dataset_stage res option" where
  "shard_stage su b =
     (case source_of b of
        Yaml text \<Rightarrow>
          map_option (map_res (\<lambda>srcs. MixShards srcs (seeded su (chosen_seed su b))))
            (from_yaml (yaml_parse su) (expand_urls (wide su) (var su)) (expand_path (name_len su) (var su)) text)
      | Patterns ps \<Rightarrow>
          if resampled_shards b then resampled_stage su b ps
          else map_option (map_res ShardList) (simple_new (wide su) (var su) ps)
      | Verbatim us \<Rightarrow>
          if resampled_shards b then resampled_stage su b us
          else Some (Inr (ShardList (simple_verbatim us))))"

definition split_stages :: "builder \<Rightarrow> 'g dataset_stage list" where
  "split_stages b =
     (case node_splitting b of
        Refuse \<Rightarrow> if resampled_shards b then [] else [OnlySingleNode]
      | ByNode \<Rightarrow> [DealNodes]
      | NoSplit \<Rightarrow> []) @
     (if worker_split b \<and> \<not> resampled_shards b then [DealWorkers] else [])"

definition shuffle_stages :: "64 word \<Rightarrow> builder \<Rightarrow> 'g dataset_stage list" where
  "shuffle_stages seed b =
     (case shard_shuffle b of
        None \<Rightarrow> []
      | Some n \<Rightarrow>
          [ShuffleStage
             (if b_deterministic b then deterministic seed (shuffle_stage_new n)
              else with_seed seed (shuffle_stage_new n))])"

definition opener_of :: "'g surroundings \<Rightarrow> builder \<Rightarrow> opener res" where
  "opener_of su b =
     (case cache_dir b of
        None \<Rightarrow> Inr (streaming su)
      | Some dir \<Rightarrow>
          if dir_exists su dir then Inr (caching su dir (cache_size b))
          else Inl (Value (''cache directory '' @ dir @ '' does not exist'')))"

definition empty_message :: string where
  "empty_message = ''no samples found; you may have fewer shards than workers. Disable this check with empty_check(false).''"

definition build :: "'g surroundings \<Rightarrow> builder \<Rightarrow> 'g dataset res option" where
  "build su b =
     map_option
       (\<lambda>first. and_then first
          (\<lambda>list. map_res
             (\<lambda>op. \<lparr>ds_stages =
                     [list] @ split_stages b @ shuffle_stages (chosen_seed su b) b @
                     [ReadShards \<lparr>opener = op, ss_selection = b_selection b, ss_handler = b_handler b\<rparr>] @
                     (if empty_check b then [GuardEmpty empty_message] else []),
                   ds_repetitions = Once, ds_limit = None, ds_handler = b_handler b,
                   ds_seed = chosen_seed su b\<rparr>)
             (opener_of su b)))
       (shard_stage su b)"

definition open_dataset :: "'g surroundings \<Rightarrow> string \<Rightarrow> 'g dataset res option" where
  "open_dataset su urls = build su (builder_for urls)"

definition from_pipeline :: "'g dataset_stage list \<Rightarrow> repetitions \<Rightarrow> nat option \<Rightarrow> 'g dataset" where
  "from_pipeline ss r l =
     \<lparr>ds_stages = ss, ds_repetitions = r, ds_limit = l, ds_handler = reraise_exception, ds_seed = 0\<rparr>"

section \<open>Extending\<close>

definition with_dataset_stage :: "'g dataset_stage \<Rightarrow> 'g dataset \<Rightarrow> 'g dataset" where
  "with_dataset_stage st d = d\<lparr>ds_stages := ds_stages d @ [st]\<rparr>"

definition dataset_shuffle :: "nat \<Rightarrow> 'g dataset \<Rightarrow> 'g dataset" where
  "dataset_shuffle n d = with_dataset_stage (ShuffleStage (deterministic (ds_seed d) (shuffle_stage_new n))) d"

definition dataset_map :: "(sample \<Rightarrow> sample option res) \<Rightarrow> 'g dataset \<Rightarrow> 'g dataset" where
  "dataset_map f d = with_dataset_stage (MapSamples f (ds_handler d)) d"

definition dataset_decode :: "decoder \<Rightarrow> 'g dataset \<Rightarrow> 'g dataset" where
  "dataset_decode dc d =
     with_dataset_stage (MapSamples (\<lambda>s. map_res Some (decode_sample dc s)) (ds_handler d)) d"

definition dataset_decode_basic :: "codecs \<Rightarrow> 'g dataset \<Rightarrow> 'g dataset" where
  "dataset_decode_basic cd d = dataset_decode (decoder_new cd []) d"

definition map_field_body ::
  "string \<Rightarrow> (field_value \<Rightarrow> field_value res) \<Rightarrow> sample \<Rightarrow> sample option res" where
  "map_field_body fld f s =
     (case sample_remove fld s of
        (None, s) \<Rightarrow> Inl (MissingKey [fld] (keys s))
      | (Some v, s) \<Rightarrow> map_res (\<lambda>w. Some (sample_insert fld w s)) (f v))"

definition map_field :: "string \<Rightarrow> (field_value \<Rightarrow> field_value res) \<Rightarrow> 'g dataset \<Rightarrow> 'g dataset" where
  "map_field fld f d = dataset_map (map_field_body fld f) d"

definition dataset_select :: "(sample \<Rightarrow> bool) \<Rightarrow> 'g dataset \<Rightarrow> 'g dataset" where
  "dataset_select p d = with_dataset_stage (SelectSamples p) d"

definition dataset_rename :: "(string \<times> string) list \<Rightarrow> 'g dataset \<Rightarrow> 'g dataset" where
  "dataset_rename rs d = with_dataset_stage (RenameFields ((rename_stage_new rs)\<lparr>rn_handler := ds_handler d\<rparr>)) d"

definition dataset_slice :: "nat \<Rightarrow> nat option \<Rightarrow> 'g dataset \<Rightarrow> 'g dataset" where
  "dataset_slice start n d = with_dataset_stage (SliceSamples (slice_new start n)) d"

definition dataset_with_epoch :: "nat \<Rightarrow> 'g dataset \<Rightarrow> 'g dataset" where
  "dataset_with_epoch n d = d\<lparr>ds_repetitions := Forever, ds_limit := Some n\<rparr>"

definition dataset_repeat :: "nat \<Rightarrow> 'g dataset \<Rightarrow> 'g dataset" where
  "dataset_repeat n d = d\<lparr>ds_repetitions := Times n\<rparr>"

definition dataset_take :: "nat \<Rightarrow> 'g dataset \<Rightarrow> 'g dataset" where
  "dataset_take n d = d\<lparr>ds_limit := Some n\<rparr>"

section \<open>Running\<close>

record 'g runtime =
  rt_seeded :: "64 word \<Rightarrow> 'g"
  rt_fresh :: "nat \<Rightarrow> 'g"
  rt_entropy :: "nat \<Rightarrow> 64 word"
  rt_draw :: "nat \<Rightarrow> 'g \<Rightarrow> nat \<times> 'g"
  rt_permute :: "string list \<Rightarrow> 'g \<Rightarrow> string list \<times> 'g"
  rt_worker :: worker_info
  rt_wanted :: nat
  rt_decompress :: "stream \<Rightarrow> stream res"

text \<open>A stage that panics while it starts ends the epoch with that.\<close>
definition or_panic :: "sample res list res \<Rightarrow> sample res list" where
  "or_panic r = (case r of Inr xs \<Rightarrow> xs | Inl e \<Rightarrow> [Inl e])"

fun apply_stage :: "'g runtime \<Rightarrow> 'g dataset_stage \<Rightarrow> sample res list \<Rightarrow> sample res list \<times> 'g dataset_stage" where
  "apply_stage rt (ShardList s) xs =
     (case simple_apply (\<lambda>n us. fst (rt_permute rt us (rt_seeded rt n))) s of (ys, s) \<Rightarrow> (ys, ShardList s))"
| "apply_stage rt (DrawShards s) xs =
     (case resampled_apply (rt_seeded rt) (rt_draw rt) (rt_entropy rt (rs_epoch s)) (rt_worker rt) (rt_wanted rt) s of
        (r, s) \<Rightarrow> (or_panic r, DrawShards s))"
| "apply_stage rt (MixShards srcs g) xs =
     (case multi_apply (rt_draw rt) (rt_permute rt) srcs g of (ys, g) \<Rightarrow> (ys, MixShards srcs g))"
| "apply_stage rt OnlySingleNode xs = (single_node_only (rt_worker rt) xs, OnlySingleNode)"
| "apply_stage rt DealNodes xs = (split_by_node (rt_worker rt) xs, DealNodes)"
| "apply_stage rt DealWorkers xs = (split_by_worker (rt_worker rt) xs, DealWorkers)"
| "apply_stage rt (ShuffleStage s) xs =
     (case shuffle_apply (rt_seeded rt) (rt_fresh rt (sg_epoch s)) (rt_draw rt) (rt_worker rt) s xs of
        (r, s) \<Rightarrow> (or_panic r, ShuffleStage s))"
| "apply_stage rt (ReadShards s) xs = (shards_to_samples_apply (rt_decompress rt) s xs, ReadShards s)"
| "apply_stage rt (GuardEmpty m) xs = (check_empty_apply m xs, GuardEmpty m)"
| "apply_stage rt (MapSamples f h) xs = (map_stage f h xs, MapSamples f h)"
| "apply_stage rt (SelectSamples p) xs = (select_stage p xs, SelectSamples p)"
| "apply_stage rt (RenameFields s) xs = (rename_apply s xs, RenameFields s)"
| "apply_stage rt (SliceSamples s) xs = (slice_apply s xs, SliceSamples s)"

text \<open>The stage at a position of the list of stages, which is the state of the pipeline.\<close>
definition nth_stage :: "'g runtime \<Rightarrow> nat \<Rightarrow> 'g dataset_stage list stage" where
  "nth_stage rt i ss xs = (case apply_stage rt (ss ! i) xs of (ys, st) \<Rightarrow> (ys, ss[i := st]))"

definition dataset_pipeline :: "'g runtime \<Rightarrow> 'g dataset \<Rightarrow> 'g dataset_stage list data_pipeline" where
  "dataset_pipeline rt d =
     \<lparr>stages = map (nth_stage rt) [0..<length (ds_stages d)], repetitions = ds_repetitions d, limit = ds_limit d\<rparr>"

definition dataset_items :: "'g runtime \<Rightarrow> nat \<Rightarrow> 'g dataset \<Rightarrow> sample res list" where
  "dataset_items rt wanted d = pipeline_items wanted (dataset_pipeline rt d) (ds_stages d)"

section \<open>An epoch, stage by stage\<close>

fun through :: "'g runtime \<Rightarrow> 'g dataset_stage list \<Rightarrow> sample res list \<Rightarrow> sample res list \<times> 'g dataset_stage list" where
  "through rt [] xs = (xs, [])"
| "through rt (s # ss) xs =
     (case apply_stage rt s xs of
        (ys, s') \<Rightarrow> (case through rt ss ys of (zs, ss') \<Rightarrow> (zs, s' # ss')))"

lemma foldl_through:
  "foldl (\<lambda>(stream, w) st. st w stream) (xs, pre @ ss) (map (nth_stage rt) [length pre..<length pre + length ss]) =
     (case through rt ss xs of (zs, ss') \<Rightarrow> (zs, pre @ ss'))"
proof (induction ss arbitrary: pre xs)
  case (Cons s ss)
  obtain ys s' where a: "apply_stage rt s xs = (ys, s')" by fastforce
  have "[length pre..<length pre + length (s # ss)] = length pre # [length (pre @ [s'])..<length (pre @ [s']) + length ss]"
    by (simp add: upt_rec)
  moreover have "nth_stage rt (length pre) (pre @ s # ss) xs = (ys, (pre @ [s']) @ ss)"
    by (simp add: nth_stage_def a)
  ultimately show ?case using Cons.IH [of ys "pre @ [s']"] a by (simp split: prod.split)
qed simp

lemma run_through: "run_once (dataset_pipeline rt d) (ds_stages d) = through rt (ds_stages d) []"
  using foldl_through [of "[]" "[]" "ds_stages d" rt]
  by (simp add: run_once_def dataset_pipeline_def empty_stream_def split: prod.split)

lemma through_append:
  "through rt (as @ bs) xs =
     (case through rt as xs of (ys, as') \<Rightarrow> (case through rt bs ys of (zs, bs') \<Rightarrow> (zs, as' @ bs')))"
  by (induction as arbitrary: xs) (auto split: prod.split)

section \<open>Streams without samples\<close>

definition barren :: "'a res list \<Rightarrow> bool" where
  "barren xs = list_all isl xs"

lemma barren_rights: "barren xs \<longleftrightarrow> rights xs = []"
  by (induction xs rule: rights.induct) (auto simp: barren_def)

lemma barren_step_by: "barren xs \<Longrightarrow> barren (step_by k xs)"
proof (induction k xs rule: step_by.induct)
  case (2 k x xs)
  then have "barren (drop (k - 1) xs)" by (auto simp: barren_def list_all_iff dest: in_set_dropD)
  then show ?case using 2 by (simp add: barren_def)
qed (simp add: barren_def)

lemma barren_drop: "barren xs \<Longrightarrow> barren (drop k xs)"
  by (auto simp: barren_def list_all_iff dest: in_set_dropD)

lemma barren_shuffle:
  "barren xs \<Longrightarrow> drain n (shuffle_next draw)
     \<lparr>sh_source = xs, buffer = [], bufsize = b, initial = i, rng = g, drained = False\<rparr> = take n xs"
proof (induction xs arbitrary: n)
  case Nil
  then show ?case by (cases n) (simp_all add: shuffle_next.simps pick_from_def pick_def)
next
  case (Cons x xs)
  then obtain e where "x = Inl e" by (cases x) (auto simp: barren_def)
  then show ?case using Cons by (cases n) (simp_all add: shuffle_next.simps barren_def)
qed

lemma barren_events: "barren ss \<Longrightarrow> barren (expand_events dec sel h ss)"
  by (induction dec sel h ss rule: expand_events.induct) (auto simp: barren_def failed_source_def split: action.split)

lemma barren_group: "barren fs \<Longrightarrow> barren (drain n group_next (gk h fs None))"
proof (induction fs arbitrary: n)
  case Nil
  then show ?case using group_next_nil [of None _ h] by (cases n) (simp_all add: cur_ok_def opt_list_def barren_def)
next
  case (Cons x fs)
  then obtain e where x: "x = Inl e" by (cases x) (auto simp: barren_def)
  have b: "barren fs" using Cons.prems by (simp add: barren_def)
  have fin: "drain m group_next \<lparr>gk_files = fs, gk_handler = h,
      gk_grouper = \<lparr>gr_current = None, gr_handler = h, gr_lowercase = True\<rparr>, gk_done = True\<rparr> = []" for m
    by (rule drain_finished)
  show ?case
  proof (cases "h e")
    case Continue
    then have "group_next (gk h (x # fs) None) = group_next (gk h fs None)"
      using x by (subst group_next.simps) (simp add: gk_def)
    from drain_same_next [OF this, of n] show ?thesis using Cons.IH b by simp
  next
    case Stop
    then have "group_next (gk h (x # fs) None) = group_next \<lparr>gk_files = fs, gk_handler = h,
      gk_grouper = \<lparr>gr_current = None, gr_handler = h, gr_lowercase = True\<rparr>, gk_done = True\<rparr>"
      using x by (subst group_next.simps) (simp add: gk_def)
    from drain_same_next [OF this, of n] show ?thesis using fin by (simp add: barren_def)
  next
    case Reraise
    then have "group_next (gk h (x # fs) None) = (Some (Inl e), \<lparr>gk_files = fs, gk_handler = h,
      gk_grouper = \<lparr>gr_current = None, gr_handler = h, gr_lowercase = True\<rparr>, gk_done = True\<rparr>)"
      using x by (subst group_next.simps) (simp add: gk_def)
    then show ?thesis using fin by (cases n) (simp_all add: barren_def)
  qed
qed

lemma barren_reader: "barren xs \<Longrightarrow> barren (shards_to_samples_apply dec st xs)"
proof -
  assume b: "barren xs"
  have "barren (map (open_item (opener st)) xs)"
    using b by (auto simp: barren_def list_all_iff open_item_def and_then_def split: sum.split)
  from barren_group [OF barren_events [OF this]] show ?thesis
    by (simp add: shards_to_samples_events group_all_def group_events_def grouper_new_def del: drain.simps flip: gk_def)
qed

lemma check_empty_eq:
  "check_empty_apply m xs = (if xs = [] then [Inl (Empty m)] else xs)"
proof -
  have drained: "drain n non_empty_next \<lparr>ne_source = ys, ne_seen = Suc k, ne_message = m, ne_reported = r\<rparr> = take n ys"
    for n k r and ys :: "sample res list"
  proof (induction ys arbitrary: n k)
    case Nil
    then show ?case by (cases n) (simp_all add: non_empty_next_def)
  next
    case (Cons y ys)
    then show ?case by (cases n) (simp_all add: non_empty_next_def)
  qed
  show ?thesis
  proof (cases xs)
    case (Cons y ys)
    have "non_empty_next (non_empty xs m) = (Some y, \<lparr>ne_source = ys, ne_seen = Suc 0, ne_message = m, ne_reported = False\<rparr>)"
      by (simp add: Cons non_empty_def non_empty_next_def)
    then show ?thesis using drained [of "Suc (length xs)" ys 0 False]
      by (simp add: check_empty_apply_def drain.simps(2) [of "Suc (Suc (length ys))"] Cons del: drain.simps)
  qed (simp add: check_empty_apply_def non_empty_def non_empty_next_def)
qed

definition silent :: "'g dataset_stage \<Rightarrow> bool" where
  "silent s =
     (case s of
        DealNodes \<Rightarrow> True | DealWorkers \<Rightarrow> True | ShuffleStage _ \<Rightarrow> True | ReadShards _ \<Rightarrow> True
      | GuardEmpty _ \<Rightarrow> True | _ \<Rightarrow> False)"

lemma silent_barren: "silent s \<Longrightarrow> barren xs \<Longrightarrow> barren (fst (apply_stage rt s xs))"
proof (cases s)
  case (ShuffleStage sg)
  assume b: "barren xs"
  show ?thesis
  proof (cases "epoch_seed (rt_worker rt) sg")
    case (Inr seed)
    then show ?thesis using ShuffleStage b
      by (simp add: shuffle_apply_def or_panic_def shuffle_new_def Let_def barren_shuffle [OF b] del: drain.simps)
  qed (simp add: ShuffleStage shuffle_apply_def or_panic_def barren_def)
next
  case (GuardEmpty m)
  then show "barren xs \<Longrightarrow> ?thesis" by (simp add: check_empty_eq) (simp add: barren_def)
qed (auto simp: silent_def split_by_node_def split_by_worker_def
    intro: barren_step_by barren_drop barren_reader)

lemma through_barren: "list_all silent ss \<Longrightarrow> barren xs \<Longrightarrow> barren (fst (through rt ss xs))"
proof (induction ss arbitrary: xs)
  case (Cons s ss)
  then show ?case using silent_barren [of s xs rt]
    by (cases "apply_stage rt s xs") (simp split: prod.split, metis fst_conv)
qed simp

section \<open>What a built dataset is\<close>

lemma build_stages:
  assumes "build su b = Some (Inr d)"
  obtains list op where "shard_stage su b = Some (Inr list)" and "opener_of su b = Inr op"
    and "ds_stages d = [list] @ split_stages b @ shuffle_stages (chosen_seed su b) b @
       [ReadShards \<lparr>opener = op, ss_selection = b_selection b, ss_handler = b_handler b\<rparr>] @
       (if empty_check b then [GuardEmpty empty_message] else [])"
    and "ds_repetitions d = Once" and "ds_limit d = None"
  using assms that by (auto simp: build_def and_then_Inr_iff map_res_Inr_iff)

section \<open>Properties\<close>

text \<open>C25: a dataset that was given no way to divide its shards does not read them on several nodes:
  when the builder's choice is to refuse and shards are not resampled, an epoch on a node of
  a larger world delivers no sample, whatever the shards, the handler, the shuffle and the workers.\<close>
theorem distributed_run_refused:
  assumes d: "build su b = Some (Inr d)" and refuse: "node_splitting b = Refuse" "\<not> resampled_shards b"
    and world: "1 < world_size (rt_worker rt)"
  shows "rights (fst (run_once (dataset_pipeline rt d) (ds_stages d))) = []"
proof -
  from d obtain list op where st: "ds_stages d = [list] @ split_stages b @ shuffle_stages (chosen_seed su b) b @
       [ReadShards \<lparr>opener = op, ss_selection = b_selection b, ss_handler = b_handler b\<rparr>] @
       (if empty_check b then [GuardEmpty empty_message] else [])"
    by (rule build_stages)
  obtain rest where rest: "ds_stages d = list # OnlySingleNode # rest" "list_all silent rest"
    using st refuse by (simp add: split_stages_def silent_def shuffle_stages_def split: option.splits if_splits)
  let ?zs = "single_node_only (rt_worker rt) (fst (apply_stage rt list []))"
  have "barren ?zs" using world by (simp add: single_node_only_def barren_def)
  then have "barren (fst (through rt (ds_stages d) []))"
    using through_barren [OF rest(2), of ?zs rt] by (simp add: rest(1) case_prod_beta)
  then show ?thesis by (simp add: run_through barren_rights)
qed

text \<open>C22: on one node with one worker a dataset of given URLs reads all of them: its epoch is the
  samples of the shards in the order of the URLs, or the single error that says so when
  they hold none.\<close>
theorem dataset_reads_all:
  assumes cont: "\<And>e. b_handler b e = Continue"
    and b: "source_of b = Verbatim urls" "\<not> resampled_shards b" "shard_shuffle b = None"
      "node_splitting b = Refuse" "empty_check b"
    and d: "build su b = Some (Inr d)"
    and single: "world_size (rt_worker rt) \<le> 1" "num_workers (rt_worker rt) \<le> 1"
  shows "\<exists>op. opener_of su b = Inr op \<and>
    (let st = \<lparr>opener = op, ss_selection = b_selection b, ss_handler = b_handler b\<rparr>;
         samples = concat (map (url_samples (rt_decompress rt) st) urls)
     in fst (run_once (dataset_pipeline rt d) (ds_stages d)) =
       (if samples = [] then [Inl (Empty empty_message)] else map Inr samples))"
proof -
  from d obtain list op where list: "shard_stage su b = Some (Inr list)" and op: "opener_of su b = Inr op"
    and st: "ds_stages d = [list] @ split_stages b @ shuffle_stages (chosen_seed su b) b @
       [ReadShards \<lparr>opener = op, ss_selection = b_selection b, ss_handler = b_handler b\<rparr>] @
       (if empty_check b then [GuardEmpty empty_message] else [])"
    by (rule build_stages)
  let ?st = "\<lparr>opener = op, ss_selection = b_selection b, ss_handler = b_handler b\<rparr>"
  have l: "list = ShardList (simple_verbatim urls)" using list b by (simp add: shard_stage_def)
  have "fst (apply_stage rt (ReadShards ?st) (map (Inr \<circ> shard_sample) urls)) =
      map Inr (concat (map (url_samples (rt_decompress rt) ?st) urls))"
    using shards_to_samples_urls [of ?st] cont by simp
  then have "fst (through rt (ds_stages d) []) =
      check_empty_apply empty_message (map Inr (concat (map (url_samples (rt_decompress rt) ?st) urls)))"
    using b single
    by (simp add: st l split_stages_def shuffle_stages_def simple_apply_def simple_verbatim_def
        single_node_only_def split_by_worker_def split: prod.split)
  then show ?thesis using op by (simp add: run_through check_empty_eq Let_def)
qed

text \<open>A builder for two URLs, on surroundings and a runtime where nothing is random.\<close>

definition demo_surroundings :: "unit surroundings" where
  "demo_surroundings =
     \<lparr>var = (\<lambda>n. None), wide = (\<lambda>n. False), yaml_parse = (\<lambda>t. None), name_len = length,
      dir_exists = (\<lambda>p. True), random_seed = 7, seeded = (\<lambda>n. ()), streaming = (\<lambda>u. Inl (Io u)),
      caching = (\<lambda>p n u. Inl (Io u))\<rparr>"

definition demo_runtime :: "nat \<Rightarrow> unit runtime" where
  "demo_runtime w =
     \<lparr>rt_seeded = (\<lambda>n. ()), rt_fresh = (\<lambda>n. ()), rt_entropy = (\<lambda>n. 0), rt_draw = (\<lambda>n g. (0, g)),
      rt_permute = (\<lambda>us g. (us, g)), rt_worker = \<lparr>rank = 0, world_size = w, worker = 0, num_workers = 1\<rparr>,
      rt_wanted = 10, rt_decompress = Inr\<rparr>"

definition demo_builder :: builder where
  "demo_builder = (builder_new (Verbatim [''a'', ''b'']))\<lparr>b_handler := ignore_and_continue\<rparr>"

lemma demo_build: "build demo_surroundings demo_builder = Some (Inr
   \<lparr>ds_stages = [ShardList (simple_verbatim [''a'', ''b'']), OnlySingleNode, DealWorkers,
      ReadShards \<lparr>opener = (\<lambda>u. Inl (Io u)), ss_selection = selection_new, ss_handler = ignore_and_continue\<rparr>,
      GuardEmpty empty_message],
    ds_repetitions = Once, ds_limit = None, ds_handler = ignore_and_continue, ds_seed = 7\<rparr>)"
  by (simp add: build_def shard_stage_def demo_builder_def builder_new_def opener_of_def split_stages_def
      shuffle_stages_def demo_surroundings_def chosen_seed_def)

theorem distributed_run_refused_witness:
  "\<exists>d. build demo_surroundings demo_builder = Some (Inr d) \<and>
     rights (fst (run_once (dataset_pipeline (demo_runtime 2) d) (ds_stages d))) = []"
proof -
  obtain d where d: "build demo_surroundings demo_builder = Some (Inr d)" using demo_build by blast
  have "rights (fst (run_once (dataset_pipeline (demo_runtime 2) d) (ds_stages d))) = []"
    by (rule distributed_run_refused [OF d]) (simp_all add: demo_builder_def builder_new_def demo_runtime_def)
  with d show ?thesis by blast
qed

theorem dataset_reads_all_witness:
  "\<exists>d. build demo_surroundings demo_builder = Some (Inr d) \<and>
     fst (run_once (dataset_pipeline (demo_runtime 1) d) (ds_stages d)) = [Inl (Empty empty_message)]"
proof -
  obtain d where d: "build demo_surroundings demo_builder = Some (Inr d)" using demo_build by blast
  have "\<exists>op. opener_of demo_surroundings demo_builder = Inr op \<and>
    (let st = \<lparr>opener = op, ss_selection = b_selection demo_builder, ss_handler = b_handler demo_builder\<rparr>;
         samples = concat (map (url_samples (rt_decompress (demo_runtime 1)) st) [''a'', ''b''])
     in fst (run_once (dataset_pipeline (demo_runtime 1) d) (ds_stages d)) =
       (if samples = [] then [Inl (Empty empty_message)] else map Inr samples))"
    by (rule dataset_reads_all [OF _ _ _ _ _ _ d]) (simp_all add: demo_builder_def builder_new_def demo_runtime_def)
  then show ?thesis using d
    by (auto simp: opener_of_def demo_surroundings_def demo_builder_def builder_new_def url_samples_def)
qed

text \<open>URLs said to be used exactly as given are expanded when the dataset is resampled: the braces of
  a verbatim name become two shards.\<close>
lemma verbatim_is_expanded:
  "shard_stage su ((builder_new (Verbatim us))\<lparr>resampled_shards := True\<rparr>) =
   shard_stage su ((builder_new (Patterns us))\<lparr>resampled_shards := True\<rparr>)"
  by (simp add: shard_stage_def builder_new_def resampled_stage_def chosen_seed_def)

end
