(* ===== verification/Loader.thy ===== *)
theory Loader
  imports Pipeline
begin

text \<open>
  \<^verbatim>\<open>webdataset/src/loader.rs\<close>: worker threads that run copies of a pipeline and
  hand their items to one consumer through a bounded channel.  The threads interleave:
  \<open>pool_step\<close> lets any worker make its next move, or the consumer receive an item.
  A worker's iterator is a pull function \<open>nxt\<close> on a state of any type, so it may be endless;
  an item that stands for a panic ends the thread.  The flag that asks the workers to stop is read
  in the order of the steps.
\<close>

record 'w data_loader =
  loader_pipeline :: "'w data_pipeline"
  loader_workers :: nat
  prefetch :: nat

definition loader_new :: "'w data_pipeline \<Rightarrow> 'w data_loader" where
  "loader_new p = \<lparr>loader_pipeline = p, loader_workers = 0, prefetch = 8\<rparr>"

definition with_workers :: "nat \<Rightarrow> 'w data_loader \<Rightarrow> 'w data_loader" where
  "with_workers n ld = ld\<lparr>loader_workers := n\<rparr>"

definition with_prefetch :: "nat \<Rightarrow> 'w data_loader \<Rightarrow> 'w data_loader" where
  "with_prefetch n ld = ld\<lparr>prefetch := max n 1\<rparr>"

section \<open>The pool\<close>

text \<open>Where a worker is in its loop: about to pull, with an item in hand, past the check of
  the flag and sending, or ended.\<close>

datatype 's worker = Running 's | Holding "sample res" 's | Sending "sample res" 's | Finished | Panicked

record 's pool =
  pool_workers :: "'s worker list"
  channel :: "sample res list"
  capacity :: nat
  stop_flag :: bool
  delivered :: "sample res list"

fun is_panic :: "'a res \<Rightarrow> bool" where
  "is_panic (Inl (Panic m)) = True"
| "is_panic r = False"

text \<open>One move of a worker, with what it sends; \<open>None\<close> when it is blocked or has ended.\<close>
fun worker_move ::
  "('s \<Rightarrow> sample res option \<times> 's) \<Rightarrow> bool \<Rightarrow> bool \<Rightarrow> 's worker \<Rightarrow> ('s worker \<times> sample res list) option" where
  "worker_move nxt stop room (Running s) =
     (case nxt s of
        (None, s') \<Rightarrow> Some (Finished, [])
      | (Some x, s') \<Rightarrow> Some (if is_panic x then Panicked else Holding x s', []))"
| "worker_move nxt stop room (Holding x s) = Some (if stop then Finished else Sending x s, [])"
| "worker_move nxt stop room (Sending x s) = (if room then Some (Running s, [x]) else None)"
| "worker_move nxt stop room Finished = None"
| "worker_move nxt stop room Panicked = None"

fun halted :: "'s worker \<Rightarrow> bool" where
  "halted Finished = True"
| "halted Panicked = True"
| "halted w = False"

datatype 's received = Blocked | Closed | Received "sample res" "'s pool"

text \<open>\<^verbatim>\<open>receiver.recv()\<close>: the channel is closed once every worker has dropped its sender.\<close>
definition receive :: "'s pool \<Rightarrow> 's received" where
  "receive p =
     (case channel p of
        x # q \<Rightarrow>
          Received x (p\<lparr>channel := q, delivered := (if stop_flag p then delivered p else delivered p @ [x])\<rparr>)
      | [] \<Rightarrow> if list_all halted (pool_workers p) then Closed else Blocked)"

definition drop_pool :: "'s pool \<Rightarrow> 's pool" where
  "drop_pool p = p\<lparr>stop_flag := True\<rparr>"

inductive pool_step :: "('s \<Rightarrow> sample res option \<times> 's) \<Rightarrow> 's pool \<Rightarrow> 's pool \<Rightarrow> bool" for nxt where
  moves: "i < length (pool_workers p) \<Longrightarrow>
    worker_move nxt (stop_flag p) (length (channel p) < capacity p) (pool_workers p ! i) = Some (w, sent) \<Longrightarrow>
    pool_step nxt p (p\<lparr>pool_workers := (pool_workers p)[i := w], channel := channel p @ sent\<rparr>)"
| receives: "receive p = Received x p' \<Longrightarrow> pool_step nxt p p'"

inductive_cases pool_stepE: "pool_step nxt p q"

section \<open>An epoch\<close>

datatype 's loader_iter = Inline 's | Threaded "'s pool"

text \<open>\<open>start\<close> is the iterator of the pipeline for the worker of that index and number of
  workers; \<open>here\<close> the one for the calling thread.\<close>
definition spawn :: "(nat \<Rightarrow> nat \<Rightarrow> 's) \<Rightarrow> 's \<Rightarrow> 'w data_loader \<Rightarrow> 's loader_iter res" where
  "spawn start here ld =
     (let n = loader_workers ld in
      if n \<le> 1 then Inr (Inline here)
      else if 2 ^ 64 \<le> prefetch ld * n then Inl (Panic ''attempt to multiply with overflow'')
      else
        Inr (Threaded
          \<lparr>pool_workers = map (\<lambda>index. Running (start index n)) [0..<n], channel = [],
           capacity = prefetch ld * n, stop_flag = False, delivered = []\<rparr>))"

text \<open>\<^verbatim>\<open>iter\<close>, with and without the \<^verbatim>\<open>threads\<close> feature.\<close>
definition loader_iter :: "bool \<Rightarrow> (nat \<Rightarrow> nat \<Rightarrow> 's) \<Rightarrow> 's \<Rightarrow> 'w data_loader \<Rightarrow> 's loader_iter res" where
  "loader_iter threads start here ld = (if threads then spawn start here ld else Inr (Inline here))"

section \<open>Interleavings\<close>

text \<open>The lists that take one element after the other from the heads of the given lists.\<close>

inductive merges :: "'a list list \<Rightarrow> 'a list \<Rightarrow> bool" where
  merges_Nil: "list_all (\<lambda>xs. xs = []) xss \<Longrightarrow> merges xss []"
| merges_Cons: "i < length xss \<Longrightarrow> xss ! i = x # xs \<Longrightarrow> merges (xss[i := xs]) ys \<Longrightarrow> merges xss (x # ys)"

lemma mset_update_Cons:
  "i < length xss \<Longrightarrow> xss ! i = x # xs \<Longrightarrow>
   sum_list (map mset xss) = add_mset x (sum_list (map mset (xss[i := xs])))"
proof (induction xss arbitrary: i)
  case (Cons ys xss)
  then show ?case by (cases i) auto
qed simp

lemma merges_mset: "merges xss ys \<Longrightarrow> mset ys = sum_list (map mset xss)"
proof (induction rule: merges.induct)
  case (merges_Nil xss)
  then show ?case by (induction xss) auto
next
  case (merges_Cons i xss x xs ys)
  then show ?case by (simp add: mset_update_Cons)
qed

text \<open>What the workers still have to send, when their iterators end.\<close>

fun pending :: "('s \<Rightarrow> sample res option \<times> 's) \<Rightarrow> 's worker \<Rightarrow> sample res list \<Rightarrow> bool" where
  "pending nxt (Running s) xs = yields nxt s xs"
| "pending nxt (Holding x s) xs = (\<exists>ys. xs = x # ys \<and> yields nxt s ys)"
| "pending nxt (Sending x s) xs = (\<exists>ys. xs = x # ys \<and> yields nxt s ys)"
| "pending nxt Finished xs = (xs = [])"
| "pending nxt Panicked xs = False"

definition calm :: "sample res list \<Rightarrow> bool" where
  "calm xs = list_all (\<lambda>x. \<not> is_panic x) xs"

text \<open>Whatever the workers still send extends what was delivered and what waits in the channel to
  an interleaving of the whole.\<close>
definition epoch_inv ::
  "('s \<Rightarrow> sample res option \<times> 's) \<Rightarrow> sample res list list \<Rightarrow> 's pool \<Rightarrow> bool" where
  "epoch_inv nxt xss p =
     (\<not> stop_flag p \<and>
      (\<exists>pss. list_all2 (pending nxt) (pool_workers p) pss \<and> list_all calm pss \<and>
         (\<forall>zs. merges pss zs \<longrightarrow> merges xss (delivered p @ channel p @ zs))))"

lemma worker_move_pending:
  "pending nxt w xs \<Longrightarrow> calm xs \<Longrightarrow> worker_move nxt False room w = Some (w', sent) \<Longrightarrow>
   \<exists>ys. pending nxt w' ys \<and> xs = sent @ ys"
  by (cases w; cases xs) (auto simp: calm_def elim!: yields_NilE yields_ConsE split: if_splits)

lemma worker_move_sent: "worker_move nxt st room w = Some (w', sent) \<Longrightarrow> sent = [] \<or> (\<exists>x. sent = [x])"
  by (cases w) (auto split: if_splits option.splits prod.splits)

lemma epoch_inv_step: "pool_step nxt p q \<Longrightarrow> epoch_inv nxt xss p \<Longrightarrow> epoch_inv nxt xss q"
proof (induction rule: pool_step.induct)
  case (moves i p w sent)
  then obtain pss where pss: "list_all2 (pending nxt) (pool_workers p) pss" "list_all calm pss"
      "\<forall>zs. merges pss zs \<longrightarrow> merges xss (delivered p @ channel p @ zs)"
    and run: "\<not> stop_flag p" by (auto simp: epoch_inv_def)
  have i: "i < length pss" using moves pss by (simp add: list_all2_lengthD)
  then have cm: "calm (pss ! i)" "pending nxt (pool_workers p ! i) (pss ! i)"
    using pss moves by (auto simp: list_all_length list_all2_conv_all_nth)
  have "worker_move nxt False (length (channel p) < capacity p) (pool_workers p ! i) = Some (w, sent)"
    using moves(2) run by simp
  from worker_move_pending [OF cm(2,1) this] obtain ys where ys: "pending nxt w ys" "pss ! i = sent @ ys" by blast
  let ?pss = "pss[i := ys]"
  have "list_all2 (pending nxt) ((pool_workers p)[i := w]) ?pss"
    using pss ys by (simp add: list_all2_update_cong)
  moreover have "calm ys" using cm ys by (simp add: calm_def)
  then have "list_all calm ?pss" using pss(2) i by (auto simp: list_all_length nth_list_update)
  moreover have "merges xss (delivered p @ (channel p @ sent) @ zs)" if "merges ?pss zs" for zs
  proof (cases "sent = []")
    case True
    then have "?pss = pss" using ys list_update_id [of pss i] by simp
    then show ?thesis using that pss(3) True by simp
  next
    case False
    then obtain x where "sent = [x]" using worker_move_sent moves(2) by blast
    with that ys i have "merges pss (sent @ zs)" by (auto intro: merges_Cons)
    then show ?thesis using pss(3) by simp
  qed
  ultimately show ?case using run by (auto simp: epoch_inv_def)
next
  case (receives p x p')
  then show ?case by (auto simp: epoch_inv_def receive_def split: list.splits if_splits)
qed

lemma epoch_inv_run: "(pool_step nxt)\<^sup>*\<^sup>* p q \<Longrightarrow> epoch_inv nxt xss p \<Longrightarrow> epoch_inv nxt xss q"
  by (induction rule: rtranclp_induct) (auto intro: epoch_inv_step)

lemma epoch_inv_closed:
  assumes "epoch_inv nxt xss p" "receive p = Closed"
  shows "merges xss (delivered p)"
proof -
  obtain pss where pss: "list_all2 (pending nxt) (pool_workers p) pss"
      "\<forall>zs. merges pss zs \<longrightarrow> merges xss (delivered p @ channel p @ zs)"
    using assms by (auto simp: epoch_inv_def)
  have c: "channel p = []" "list_all halted (pool_workers p)"
    using assms(2) by (auto simp: receive_def split: list.splits if_splits)
  have "xs = []" if "pending nxt w xs" "halted w" for w xs using that by (cases w) auto
  with pss(1) c(2) have "list_all (\<lambda>xs. xs = []) pss"
    by (auto simp: list_all2_conv_all_nth list_all_length)
  then show ?thesis using pss(2) c(1) merges_Nil by fastforce
qed

section \<open>Every run ends\<close>

text \<open>What a worker can still do: when it is asked to stop, and when its iterator has \<open>n\<close> items left.\<close>

fun stopping_work :: "'s worker \<Rightarrow> nat" where
  "stopping_work (Running s) = 2"
| "stopping_work (Holding x s) = 1"
| "stopping_work (Sending x s) = 4"
| "stopping_work w = 0"

lemma stopping_move:
  "worker_move nxt True room w = Some (w', sent) \<Longrightarrow> stopping_work w' + length sent < stopping_work w"
  by (cases w) (auto split: option.splits prod.splits if_splits)

definition stopping_left :: "'s pool \<Rightarrow> nat" where
  "stopping_left p = sum_list (map stopping_work (pool_workers p)) + length (channel p)"

lemma sum_list_update_less:
  "i < length ws \<Longrightarrow> f w + k < (f (ws ! i) :: nat) \<Longrightarrow>
   sum_list (map f (ws[i := w])) + k < sum_list (map f ws)"
proof (induction ws arbitrary: i)
  case (Cons v ws)
  show ?case
  proof (cases i)
    case (Suc k)
    then show ?thesis using Cons.IH [of k] Cons.prems by (simp add: add.assoc)
  qed (use Cons.prems in simp)
qed simp

lemma stopping_step:
  "pool_step nxt p q \<Longrightarrow> stop_flag p \<Longrightarrow> stopping_left q < stopping_left p \<and> stop_flag q \<and> delivered q = delivered p"
proof (induction rule: pool_step.induct)
  case (moves i p w sent)
  then have "stopping_work w + length sent < stopping_work (pool_workers p ! i)" by (auto dest: stopping_move)
  from sum_list_update_less [OF moves(1) this] moves show ?case by (simp add: stopping_left_def)
next
  case (receives p x p')
  then show ?case by (auto simp: receive_def stopping_left_def split: list.splits if_splits)
qed

lemma stopping_run:
  "(pool_step nxt ^^ n) p q \<Longrightarrow> stop_flag p \<Longrightarrow>
   n + stopping_left q \<le> stopping_left p \<and> stop_flag q \<and> delivered q = delivered p"
proof (induction n arbitrary: q)
  case (Suc n)
  then obtain r where r: "(pool_step nxt ^^ n) p r" "pool_step nxt r q" by auto
  with Suc have "n + stopping_left r \<le> stopping_left p \<and> stop_flag r \<and> delivered r = delivered p" by simp
  then show ?case using stopping_step [OF r(2)] by simp
qed simp

lemma stopping_work_le: "stopping_work w \<le> 4"
  by (cases w) simp_all

lemma stopping_left_le: "stopping_left p \<le> 4 * length (pool_workers p) + length (channel p)"
proof -
  have "sum_list (map stopping_work ws) \<le> 4 * length ws" for ws :: "'a worker list"
    by (induction ws) (simp_all add: add_mono [OF stopping_work_le])
  then show ?thesis by (simp add: stopping_left_def)
qed

text \<open>A worker that has not ended can move if there is room; the consumer makes room.\<close>
lemma not_stuck:
  assumes "0 < capacity p" "receive p \<noteq> Closed"
  shows "\<exists>q. pool_step nxt p q"
proof (cases "channel p")
  case (Cons x q)
  then obtain p' where "receive p = Received x p'" by (simp add: receive_def)
  then show ?thesis by (blast intro: receives)
next
  case Nil
  then obtain i where i: "i < length (pool_workers p)" "\<not> halted (pool_workers p ! i)"
    using assms by (auto simp: receive_def list_all_length split: if_splits)
  then have "worker_move nxt (stop_flag p) True (pool_workers p ! i) \<noteq> None"
    by (cases "pool_workers p ! i") (auto split: option.splits prod.splits)
  then show ?thesis using i Nil assms by (fastforce intro: moves)
qed

definition pool_ok :: "nat \<Rightarrow> 's pool \<Rightarrow> bool" where
  "pool_ok n p = (length (pool_workers p) = n \<and> length (channel p) \<le> capacity p \<and> 0 < capacity p)"

lemma pool_ok_step: "pool_step nxt p q \<Longrightarrow> pool_ok n p \<Longrightarrow> pool_ok n q \<and> capacity q = capacity p"
proof (induction rule: pool_step.induct)
  case (moves i p w sent)
  moreover have "length sent \<le> (if length (channel p) < capacity p then 1 else 0)"
    using moves(2) by (cases "pool_workers p ! i") (auto split: option.splits prod.splits if_splits)
  ultimately show ?case by (auto simp: pool_ok_def split: if_splits)
next
  case (receives p x p')
  then show ?case by (auto simp: receive_def pool_ok_def split: list.splits if_splits)
qed

lemma pool_ok_run: "(pool_step nxt ^^ k) p q \<Longrightarrow> pool_ok n p \<Longrightarrow> pool_ok n q \<and> capacity q = capacity p"
proof (induction k arbitrary: q)
  case (Suc k)
  then show ?case using pool_ok_step by (metis relpowp_Suc_E)
qed simp

text \<open>The moves an epoch can take when the iterators end.\<close>

fun epoch_work :: "'s worker \<Rightarrow> nat \<Rightarrow> nat" where
  "epoch_work (Running s) n = 4 * n + 1"
| "epoch_work (Holding x s) n = 4 * n"
| "epoch_work (Sending x s) n = 4 * n - 1"
| "epoch_work w n = 0"

lemma epoch_move:
  assumes "worker_move nxt False room w = Some (w', sent)" "pending nxt w xs" "calm xs"
  shows "\<exists>ys. pending nxt w' ys \<and> xs = sent @ ys \<and> epoch_work w' (length ys) + length sent < epoch_work w (length xs)"
proof -
  obtain ys where ys: "pending nxt w' ys" "xs = sent @ ys" using worker_move_pending [OF assms(2,3,1)] by blast
  moreover have "epoch_work w' (length xs - length sent) + length sent < epoch_work w (length xs)"
    using assms by (cases w; cases xs) (auto simp: calm_def elim!: yields_NilE yields_ConsE split: if_splits)
  ultimately show ?thesis by auto
qed

definition epoch_within :: "('s \<Rightarrow> sample res option \<times> 's) \<Rightarrow> nat \<Rightarrow> 's pool \<Rightarrow> bool" where
  "epoch_within nxt n p =
     (\<not> stop_flag p \<and>
      (\<exists>pss. list_all2 (pending nxt) (pool_workers p) pss \<and> list_all calm pss \<and>
         sum_list (map (\<lambda>(w, xs). epoch_work w (length xs)) (zip (pool_workers p) pss)) + length (channel p) \<le> n))"

lemma epoch_within_step: "pool_step nxt p q \<Longrightarrow> epoch_within nxt n p \<Longrightarrow> 0 < n \<and> epoch_within nxt (n - 1) q"
proof (induction rule: pool_step.induct)
  case (moves i p w sent)
  let ?f = "\<lambda>(w, xs). epoch_work w (length xs)"
  from moves(3) obtain pss where pss: "list_all2 (pending nxt) (pool_workers p) pss" "list_all calm pss"
      "sum_list (map ?f (zip (pool_workers p) pss)) + length (channel p) \<le> n" and run: "\<not> stop_flag p"
    by (auto simp: epoch_within_def)
  have len: "length pss = length (pool_workers p)" using pss(1) by (simp add: list_all2_lengthD)
  then have cm: "calm (pss ! i)" "pending nxt (pool_workers p ! i) (pss ! i)"
    using pss moves(1) by (auto simp: list_all_length list_all2_conv_all_nth)
  have "worker_move nxt False (length (channel p) < capacity p) (pool_workers p ! i) = Some (w, sent)"
    using moves(2) run by simp
  from epoch_move [OF this cm(2,1)] obtain ys where ys: "pending nxt w ys" "pss ! i = sent @ ys"
      "epoch_work w (length ys) + length sent < epoch_work (pool_workers p ! i) (length (pss ! i))" by blast
  let ?z = "zip (pool_workers p) pss"
  have "sum_list (map ?f (?z[i := (w, ys)])) + length sent < sum_list (map ?f ?z)"
    by (rule sum_list_update_less) (use moves(1) len ys in simp_all)
  moreover have "zip ((pool_workers p)[i := w]) (pss[i := ys]) = ?z[i := (w, ys)]" by (simp add: update_zip)
  moreover have "calm ys" using cm ys by (simp add: calm_def)
  then have "list_all calm (pss[i := ys])" using pss(2) len moves(1) by (auto simp: list_all_length nth_list_update)
  moreover have "list_all2 (pending nxt) ((pool_workers p)[i := w]) (pss[i := ys])"
    using pss(1) ys(1) by (simp add: list_all2_update_cong)
  ultimately show ?case using run pss(3) unfolding epoch_within_def by (intro conjI exI [of _ "pss[i := ys]"]) auto
next
  case (receives p x p')
  then show ?case by (fastforce simp: epoch_within_def receive_def split: list.splits if_splits)
qed

lemma epoch_within_run: "(pool_step nxt ^^ k) p q \<Longrightarrow> epoch_within nxt n p \<Longrightarrow> k \<le> n \<and> epoch_within nxt (n - k) q"
proof (induction k arbitrary: q)
  case (Suc k)
  then obtain r where r: "(pool_step nxt ^^ k) p r" "pool_step nxt r q" by auto
  then have "k \<le> n \<and> epoch_within nxt (n - k) r" using Suc by blast
  then show ?case using epoch_within_step [OF r(2), of "n - k"] by auto
qed simp

section \<open>Schedules\<close>

text \<open>An order in which the threads get their turn, and the state it leads to.\<close>

datatype turn = Worker nat | Consumer

fun take_turn :: "('s \<Rightarrow> sample res option \<times> 's) \<Rightarrow> turn \<Rightarrow> 's pool \<Rightarrow> 's pool option" where
  "take_turn nxt (Worker i) p =
     (if i < length (pool_workers p) then
        (case worker_move nxt (stop_flag p) (length (channel p) < capacity p) (pool_workers p ! i) of
           Some (w, sent) \<Rightarrow> Some (p\<lparr>pool_workers := (pool_workers p)[i := w], channel := channel p @ sent\<rparr>)
         | None \<Rightarrow> None)
      else None)"
| "take_turn nxt Consumer p = (case receive p of Received x q \<Rightarrow> Some q | _ \<Rightarrow> None)"

fun schedule :: "('s \<Rightarrow> sample res option \<times> 's) \<Rightarrow> turn list \<Rightarrow> 's pool \<Rightarrow> 's pool option" where
  "schedule nxt [] p = Some p"
| "schedule nxt (t # ts) p = Option.bind (take_turn nxt t p) (schedule nxt ts)"

lemma take_turn_step: "take_turn nxt t p = Some q \<Longrightarrow> pool_step nxt p q"
  by (cases t) (auto split: if_splits option.splits received.splits intro: moves receives)

lemma schedule_run: "schedule nxt ts p = Some q \<Longrightarrow> (pool_step nxt ^^ length ts) p q"
proof (induction ts arbitrary: p)
  case (Cons t ts)
  then obtain r where "take_turn nxt t p = Some r" "schedule nxt ts r = Some q" by (auto simp: bind_eq_Some_conv)
  then show ?case using Cons.IH take_turn_step by (metis length_Cons relpowp_Suc_I2)
qed simp

lemma schedule_steps: "schedule nxt ts p = Some q \<Longrightarrow> length ts = n \<Longrightarrow> (pool_step nxt ^^ n) p q"
  using schedule_run by blast

lemma upt_2: "[0..<2] = [0, 1]"
  by (simp add: upt_rec)

section \<open>Properties\<close>

lemma spawn_Threaded:
  assumes "spawn start here ld = Inr (Threaded p)"
  shows "p = \<lparr>pool_workers = map (\<lambda>index. Running (start index (loader_workers ld))) [0..<loader_workers ld],
      channel = [], capacity = prefetch ld * loader_workers ld, stop_flag = False, delivered = []\<rparr>"
    and "1 < loader_workers ld"
  using assms by (auto simp: spawn_def Let_def split: if_splits)

lemma spawn_pool_ok:
  "spawn start here ld = Inr (Threaded p) \<Longrightarrow> 0 < prefetch ld \<Longrightarrow> pool_ok (loader_workers ld) p"
  using spawn_Threaded [of start here ld p] by (auto simp: pool_ok_def)

lemma spawn_pending:
  assumes "spawn start here ld = Inr (Threaded p)"
    and "\<And>k. k < loader_workers ld \<Longrightarrow> yields nxt (start k (loader_workers ld)) (items k)"
  shows "list_all2 (pending nxt) (pool_workers p) (map items [0..<loader_workers ld])"
  using spawn_Threaded [OF assms(1)] assms(2) by (auto simp: list_all2_conv_all_nth)

lemma epoch_complete:
  assumes spawn: "spawn start here ld = Inr (Threaded p)" and room: "0 < prefetch ld"
    and items: "\<And>k. k < loader_workers ld \<Longrightarrow> yields nxt (start k (loader_workers ld)) (items k) \<and> calm (items k)"
    and run: "(pool_step nxt ^^ n) p q"
  shows "n \<le> (\<Sum>k<loader_workers ld. 4 * length (items k) + 1) \<and>
    (if receive q = Closed then merges (map items [0..<loader_workers ld]) (delivered q)
     else \<exists>r. pool_step nxt q r)"
proof -
  let ?xss = "map items [0..<loader_workers ld]"
  have pend: "list_all2 (pending nxt) (pool_workers p) ?xss" using spawn_pending [OF spawn] items by blast
  have cm: "list_all calm ?xss" using items by (simp add: list_all_length)
  note p = spawn_Threaded(1) [OF spawn]
  have "map (\<lambda>(w, xs). epoch_work w (length xs)) (zip (pool_workers p) ?xss) =
      map (\<lambda>k. 4 * length (items k) + 1) [0..<loader_workers ld]"
    by (rule nth_equalityI) (simp_all add: p)
  then have "epoch_within nxt (\<Sum>k<loader_workers ld. 4 * length (items k) + 1) p"
    using pend cm by (auto simp: epoch_within_def p interv_sum_list_conv_sum_set_nat atLeast0LessThan
        intro!: exI [of _ ?xss])
  from epoch_within_run [OF run this] have "n \<le> (\<Sum>k<loader_workers ld. 4 * length (items k) + 1)" by simp
  moreover have "receive q \<noteq> Closed \<Longrightarrow> \<exists>r. pool_step nxt q r"
    using not_stuck pool_ok_run [OF run spawn_pool_ok [OF spawn room]] by (auto simp: pool_ok_def)
  moreover have "epoch_inv nxt ?xss p" using pend cm p by (auto simp: epoch_inv_def)
  then have "epoch_inv nxt ?xss q" using epoch_inv_run relpowp_imp_rtranclp [OF run] by blast
  then have "receive q = Closed \<Longrightarrow> merges ?xss (delivered q)" by (rule epoch_inv_closed)
  ultimately show ?thesis by simp
qed

text \<open>C4: an epoch over a pool of workers ends and loses nothing: when the iterators of the workers end and
  do not panic, then however the threads interleave, at most four moves per item and one
  per worker are made; until the consumer is told that the channel is closed some thread can move;
  and what it has received by then is an interleaving of the items of all workers, each
  worker's in order.\<close>
theorem loader_epoch_complete:
  assumes spawn: "spawn start here ld = Inr (Threaded p)" and room: "0 < prefetch ld"
    and items: "\<And>k. k < loader_workers ld \<Longrightarrow> yields nxt (start k (loader_workers ld)) (items k) \<and> calm (items k)"
    and run: "(pool_step nxt ^^ n) p q"
  shows "n \<le> (\<Sum>k<loader_workers ld. 4 * length (items k) + 1) \<and>
    (if receive q = Closed then merges (map items [0..<loader_workers ld]) (delivered q)
     else \<exists>r. pool_step nxt q r)"
  using epoch_complete [OF spawn room items run] .

text \<open>Two workers: the first has one item, the second none.\<close>

definition demo_pipeline :: "unit data_pipeline" where "demo_pipeline = pipeline_new"

definition demo_loader :: "unit data_loader" where
  "demo_loader = with_prefetch 0 (with_workers 2 (loader_new demo_pipeline))"

definition demo_items :: "nat \<Rightarrow> sample res list" where
  "demo_items k = (if k = 0 then [Inr [(KEY, Text ''a'')]] else [])"

definition demo_pool :: "sample res list pool" where
  "demo_pool =
     \<lparr>pool_workers = [Running (demo_items 0), Running []], channel = [], capacity = 2, stop_flag = False,
      delivered = []\<rparr>"

lemma demo_spawn: "spawn (\<lambda>k n. demo_items k) here demo_loader = Inr (Threaded demo_pool)"
  by (simp add: spawn_def demo_loader_def with_prefetch_def with_workers_def loader_new_def demo_pool_def
      demo_items_def upt_2)

text \<open>The first worker sends its item, the second ends, the consumer receives, the first ends.\<close>
lemma demo_schedule:
  "schedule list_next [Worker 0, Worker 0, Worker 0, Worker 1, Consumer, Worker 0] demo_pool =
   Some (demo_pool\<lparr>pool_workers := [Finished, Finished], delivered := [Inr [(KEY, Text ''a'')]]\<rparr>)"
  by code_simp

theorem loader_epoch_complete_witness:
  "\<exists>q. (pool_step list_next ^^ 6) demo_pool q \<and> receive q = Closed \<and>
     merges [[Inr [(KEY, Text ''a'')]], []] (delivered q)"
proof -
  let ?q = "demo_pool\<lparr>pool_workers := [Finished, Finished], delivered := [Inr [(KEY, Text ''a'')]]\<rparr>"
  have run: "(pool_step list_next ^^ 6) demo_pool ?q" by (rule schedule_steps [OF demo_schedule]) simp
  have closed: "receive ?q = Closed" by (simp add: receive_def demo_pool_def)
  have w: "loader_workers demo_loader = 2" "0 < prefetch demo_loader"
    by (simp_all add: demo_loader_def with_prefetch_def with_workers_def loader_new_def)
  have "yields list_next (demo_items k) (demo_items k) \<and> calm (demo_items k)" for k
    by (simp add: yields_list calm_def demo_items_def)
  then have "merges (map demo_items [0..<2]) (delivered ?q)"
    using loader_epoch_complete [OF demo_spawn w(2) _ run] closed w(1) by simp
  moreover have "map demo_items [0..<2] = [[Inr [(KEY, Text ''a'')]], []]"
    by (simp add: demo_items_def upt_2)
  ultimately show ?thesis using run closed by auto
qed

text \<open>C24: dropping the iterator never hangs: whenever the consumer drops it, with endless pipelines too,
  at most four more moves per worker and one per buffered item are made, nothing more is
  delivered, and no state is stuck before every worker has ended and the channel is closed.\<close>
theorem loader_drop_joins:
  assumes spawn: "spawn start here ld = Inr (Threaded p)" and room: "0 < prefetch ld"
    and run: "(pool_step nxt ^^ m) p q" and drain: "(pool_step nxt ^^ n) (drop_pool q) r"
  shows "n \<le> 4 * loader_workers ld + prefetch ld * loader_workers ld \<and> delivered r = delivered q \<and>
    (receive r = Closed \<or> (\<exists>r'. pool_step nxt r r'))"
proof -
  have q: "pool_ok (loader_workers ld) q" "capacity q = prefetch ld * loader_workers ld"
    using pool_ok_run [OF run spawn_pool_ok [OF spawn room]] spawn_Threaded [OF spawn] by auto
  then have d: "pool_ok (loader_workers ld) (drop_pool q)" by (simp add: pool_ok_def drop_pool_def)
  have r: "n \<le> stopping_left (drop_pool q)" "delivered r = delivered q"
    using stopping_run [OF drain] by (auto simp: drop_pool_def)
  moreover have "stopping_left (drop_pool q) \<le> 4 * loader_workers ld + prefetch ld * loader_workers ld"
    using stopping_left_le [of "drop_pool q"] q by (simp add: pool_ok_def drop_pool_def)
  moreover have "receive r = Closed \<or> (\<exists>r'. pool_step nxt r r')"
    using not_stuck pool_ok_run [OF drain d] by (auto simp: pool_ok_def)
  ultimately show ?thesis by simp
qed

text \<open>An endless worker: dropped while it holds an item.\<close>
theorem loader_drop_joins_witness:
  "\<exists>q r. (pool_step (\<lambda>s. (Some (Inr []), s)) ^^ 2)
      \<lparr>pool_workers = [Running (), Running ()], channel = [], capacity = 2, stop_flag = False, delivered = []\<rparr> q \<and>
    (pool_step (\<lambda>s. (Some (Inr []), s)) ^^ 2) (drop_pool q) r \<and> delivered r = []"
proof -
  let ?p = "\<lparr>pool_workers = [Running (), Running ()], channel = [], capacity = 2, stop_flag = False, delivered = []\<rparr>"
  let ?nxt = "\<lambda>s :: unit. (Some (Inr [] :: sample res), s)"
  let ?q = "?p\<lparr>pool_workers := [Holding (Inr []) (), Holding (Inr []) ()]\<rparr>"
  let ?r = "drop_pool (?p\<lparr>pool_workers := [Finished, Finished]\<rparr>)"
  have "schedule ?nxt [Worker 0, Worker 1] ?p = Some ?q" by simp
  then have run: "(pool_step ?nxt ^^ 2) ?p ?q" by (rule schedule_steps) simp
  have "schedule ?nxt [Worker 0, Worker 1] (drop_pool ?q) = Some ?r" by (simp add: drop_pool_def)
  then have drain: "(pool_step ?nxt ^^ 2) (drop_pool ?q) ?r" by (rule schedule_steps) simp
  have sp: "spawn (\<lambda>k n. ()) () demo_loader = Inr (Threaded ?p)"
    by (simp add: spawn_def demo_loader_def with_prefetch_def with_workers_def loader_new_def upt_2)
  have "0 < prefetch demo_loader" by (simp add: demo_loader_def with_prefetch_def)
  from loader_drop_joins [OF sp this run drain] have "delivered ?r = []" by simp
  with run drain show ?thesis by blast
qed

text \<open>Items that were pulled and not yet received: what is in the channel or in a worker's hands.\<close>

fun in_hand :: "'s worker \<Rightarrow> nat" where
  "in_hand (Holding x s) = 1"
| "in_hand (Sending x s) = 1"
| "in_hand w = 0"

definition ahead :: "'s pool \<Rightarrow> nat" where
  "ahead p = length (channel p) + sum_list (map in_hand (pool_workers p))"

text \<open>C34: the workers run ahead by a bounded number of items: at any time at most the prefetch and one
  item for each worker have been pulled and not received, whatever the schedule.\<close>
theorem loader_ahead_bounded:
  assumes "spawn start here ld = Inr (Threaded p)" "0 < prefetch ld" "(pool_step nxt ^^ n) p q"
  shows "ahead q \<le> (prefetch ld + 1) * loader_workers ld"
proof -
  have q: "pool_ok (loader_workers ld) q" "capacity q = prefetch ld * loader_workers ld"
    using pool_ok_run [OF assms(3) spawn_pool_ok [OF assms(1,2)]] spawn_Threaded [OF assms(1)] by auto
  have one: "in_hand w \<le> 1" for w :: "'a worker" by (cases w) simp_all
  have "sum_list (map in_hand ws) \<le> length ws" for ws :: "'a worker list"
    using add_mono [OF one] by (induction ws) auto
  from this [of "pool_workers q"] show ?thesis using q by (auto simp: ahead_def pool_ok_def)
qed

theorem loader_ahead_bounded_witness:
  "\<exists>q. (pool_step list_next ^^ 6) demo_pool q \<and> ahead q \<le> 4"
proof -
  have "0 < prefetch demo_loader" "(prefetch demo_loader + 1) * loader_workers demo_loader = 4"
    by (simp_all add: demo_loader_def with_prefetch_def with_workers_def)
  moreover have "(pool_step list_next ^^ 6) demo_pool
      (demo_pool\<lparr>pool_workers := [Finished, Finished], delivered := [Inr [(KEY, Text ''a'')]]\<rparr>)"
    by (rule schedule_steps [OF demo_schedule]) simp
  ultimately show ?thesis using loader_ahead_bounded [OF demo_spawn] by metis
qed

text \<open>A panic in a worker is not seen by the consumer: the thread ends, its sender is dropped, and the
  epoch ends early without an error, its remaining items missing.\<close>
lemma worker_panic_shortens_epoch:
  fixes x y :: "sample"
  defines "p \<equiv> \<lparr>pool_workers = [Running [Inl (Panic ''p''), Inr x], Running [Inr y]], channel = [], capacity = 2,
    stop_flag = False, delivered = []\<rparr>"
  shows "\<exists>q. (pool_step list_next ^^ 6) p q \<and> receive q = Closed \<and> delivered q = [Inr y]"
proof -
  let ?q = "p\<lparr>pool_workers := [Panicked, Finished], delivered := [Inr y]\<rparr>"
  have "schedule list_next [Worker 0, Worker 1, Worker 1, Worker 1, Consumer, Worker 1] p = Some ?q"
    by (simp add: p_def list_next_def receive_def)
  then have "(pool_step list_next ^^ 6) p ?q" by (rule schedule_steps) simp
  moreover have "receive ?q = Closed" by (simp add: receive_def p_def)
  ultimately show ?thesis by auto
qed

end
