(* ===== verification/Asynch_Dataset.thy ===== *)
theory Asynch_Dataset
  imports Asynch_Pipeline Dataset Loader
begin

text \<open>
  \<^verbatim>\<open>webdataset/src/asynch/sources.rs\<close> and \<^verbatim>\<open>dataset.rs\<close>: openers whose shards arrive
  piece by piece, the stage that reads several of them at a time, and the asynchronous dataset.
  \<open>flatten\<close> is \<^verbatim>\<open>flatten_unordered\<close>: how it takes turns is a parameter.  A dataset with one
  shard in flight is shown to deliver what the blocking dataset with the same settings delivers.
\<close>

section \<open>Opening\<close>

record async_shard_source =
  au_url :: string
  au_path :: "string option"
  au_stream :: source

type_synonym async_opener = "string \<Rightarrow> async_shard_source res"

definition async_memory_open :: "memory_opener \<Rightarrow> async_opener" where
  "async_memory_open m url =
     (case get url m of
        None \<Rightarrow> Inl (Value ''not held by this in-memory opener'')
      | Some bs \<Rightarrow> Inr \<lparr>au_url = url, au_path = None, au_stream = \<lparr>arrivals = [bs], broken = None\<rparr>\<rparr>)"

record file_opener =
  root :: "string option"

definition file_opener_new :: file_opener where
  "file_opener_new = \<lparr>root = None\<rparr>"

definition rooted :: "string \<Rightarrow> file_opener" where
  "rooted dir = \<lparr>root = Some dir\<rparr>"

definition file_open :: "(string \<Rightarrow> source res) \<Rightarrow> file_opener \<Rightarrow> async_opener" where
  "file_open open_file fo url =
     (let path = to_local_path url;
          path = (case root fo of Some dir \<Rightarrow> join_path dir path | None \<Rightarrow> path)
      in map_res (\<lambda>s. \<lparr>au_url = url, au_path = Some path, au_stream = s\<rparr>)
           (with_context (''opening '' @ path) (open_file path)))"

definition flat_source :: "async_shard_source \<Rightarrow> shard_source" where
  "flat_source x = \<lparr>src_url = au_url x, src_path = au_path x, src_stream = flat (au_stream x)\<rparr>"

lemma memory_openers_agree: "memory_open m url = map_res flat_source (async_memory_open m url)"
  by (simp add: memory_open_def async_memory_open_def flat_source_def stream_of_def flat_def split: option.split)

section \<open>Reading\<close>

record async_reader =
  ao_opener :: async_opener
  ao_selection :: selection
  ao_handler :: handler
  ao_concurrency :: nat

definition async_reader_new :: "async_opener \<Rightarrow> async_reader" where
  "async_reader_new op =
     \<lparr>ao_opener = op, ao_selection = selection_new, ao_handler = reraise_exception, ao_concurrency = 1\<rparr>"

definition with_concurrency :: "nat \<Rightarrow> async_reader \<Rightarrow> async_reader" where
  "with_concurrency n r = r\<lparr>ao_concurrency := max n 1\<rparr>"

definition reader_memory :: "memory_opener \<Rightarrow> async_reader" where
  "reader_memory m = async_reader_new (async_memory_open m)"

definition reader_files :: "(string \<Rightarrow> source res) \<Rightarrow> async_reader" where
  "reader_files open_file = async_reader_new (file_open open_file file_opener_new)"

definition reader_with_selection :: "selection \<Rightarrow> async_reader \<Rightarrow> async_reader" where
  "reader_with_selection x s = s\<lparr>ao_selection := x\<rparr>"

definition reader_with_handler :: "handler \<Rightarrow> async_reader \<Rightarrow> async_reader" where
  "reader_with_handler x s = s\<lparr>ao_handler := x\<rparr>"

definition async_open_item :: "async_opener \<Rightarrow> sample res \<Rightarrow> async_shard_source res" where
  "async_open_item op item =
     (case item of
        Inr s \<Rightarrow>
          (case sample_url s of
             Some url \<Rightarrow> with_context url (op url)
           | None \<Rightarrow> Inl (Value ''shard list produced a sample without a __url__''))
      | Inl e \<Rightarrow> Inl e)"

text \<open>The stream of one shard; skipping it and stopping are both an empty one.\<close>
definition per_shard :: "(source \<Rightarrow> source res) \<Rightarrow> async_reader \<Rightarrow> sample res \<Rightarrow> sample res list" where
  "per_shard dec r item =
     (case async_open_item (ao_opener r) item of
        Inr x \<Rightarrow> shard_samples dec (au_stream x) (Some (au_url x)) (au_path x) (ao_selection r) (ao_handler r)
      | Inl e \<Rightarrow>
          (case ao_handler r e of
             Continue \<Rightarrow> []
           | Stop \<Rightarrow> []
           | Reraise \<Rightarrow> [Inl e]))"

definition async_read ::
  "(source \<Rightarrow> source res) \<Rightarrow> (nat \<Rightarrow> sample res list list \<Rightarrow> sample res list) \<Rightarrow> async_reader \<Rightarrow>
   sample res list \<Rightarrow> sample res list" where
  "async_read dec flatten r input = flatten (ao_concurrency r) (map (per_shard dec r) input)"

definition same_opener :: "async_opener \<Rightarrow> opener \<Rightarrow> bool" where
  "same_opener op op' \<longleftrightarrow> (\<forall>url. op' url = map_res flat_source (op url))"

definition same_decoders :: "(source \<Rightarrow> source res) \<Rightarrow> (stream \<Rightarrow> stream res) \<Rightarrow> bool" where
  "same_decoders dec dec' \<longleftrightarrow> (\<forall>s. dec' (flat s) = map_res flat (dec s))"

lemma same_codecs_decoders:
  "same_codecs cs cs' \<Longrightarrow>
     same_decoders (\<lambda>s. map_res snd (async_decompress cs s)) (\<lambda>s. map_res snd (decompress cs' s))"
  by (auto simp: same_decoders_def async_decompress_flat map_res_def split: sum.split)

lemma open_item_flat:
  "same_opener op op' \<Longrightarrow> open_item op' item = map_res flat_source (async_open_item op item)"
  by (auto simp: open_item_def async_open_item_def same_opener_def ok_or_def with_context_def and_then_def map_res_def
      split: sum.split option.split)

lemma per_shard_continue:
  assumes h: "\<And>e. ao_handler r e = Continue" and op: "same_opener (ao_opener r) op'" and dec: "same_decoders dec dec'"
  shows "per_shard dec r item =
    (case open_item op' item of
       Inl e \<Rightarrow> []
     | Inr src \<Rightarrow> map (Inr \<circ> run_sample) (runs (map File (source_files dec' (ao_selection r) src))))"
proof -
  have "shard_samples dec (au_stream x) (Some (au_url x)) (au_path x) (ao_selection r) (ao_handler r) =
      map (Inr \<circ> run_sample) (runs (map File (source_files dec' (ao_selection r) (flat_source x))))" for x
    using shard_samples_continue [OF h, of dec "au_stream x" dec'] dec
    by (simp add: same_decoders_def flat_source_def)
  then show ?thesis
    using h by (simp add: per_shard_def open_item_flat [OF op] split: sum.split)
qed

lemma concat_per_shard:
  assumes "\<And>e. ao_handler r e = Continue" "same_opener (ao_opener r) op'" "same_decoders dec dec'"
  shows "concat (map (per_shard dec r) input) =
    shards_to_samples_apply dec' \<lparr>opener = op', ss_selection = ao_selection r, ss_handler = ao_handler r\<rparr> input"
proof -
  have "concat (map (per_shard dec r) input) =
      concat (map (\<lambda>src. map (Inr \<circ> run_sample) (runs (map File (source_files dec' (ao_selection r) src))))
        (rights (map (open_item op') input)))"
    by (induction input) (simp_all add: per_shard_continue [OF assms] split: sum.split)
  then show ?thesis
    using group_all_sources [where h = "ao_handler r", OF assms(1)] by (simp add: shards_to_samples_events)
qed


text \<open>An archive of no bytes, and turns taken in order.\<close>
definition demo_opener :: memory_opener where
  "demo_opener = [(''a.tar'', []), (''b.tar'', [])]"

definition demo_async_reader :: async_reader where
  "demo_async_reader = (async_reader_new (async_memory_open demo_opener))\<lparr>ao_handler := ignore_and_continue, ao_concurrency := 2\<rparr>"

lemma merges_concat: "merges xss (concat xss)"
proof (induction "length (concat xss)" arbitrary: xss)
  case 0
  then have "concat xss = []" by simp
  moreover from this have "merges xss []" by (intro merges_Nil) (simp add: list_all_iff)
  ultimately show ?case by (simp del: concat_eq_Nil_conv)
next
  case (Suc n)
  then have "\<exists>i. i < length xss \<and> xss ! i \<noteq> []" by (metis concat_eq_Nil_conv in_set_conv_nth length_0_conv nat.distinct(1))
  then obtain i where i: "i < length xss" "xss ! i \<noteq> []" "\<And>j. j < i \<Longrightarrow> xss ! j = []"
    using exists_least_iff [of "\<lambda>i. i < length xss \<and> xss ! i \<noteq> []"] by (meson order.strict_trans)
  then obtain x xs where x: "xss ! i = x # xs" by (cases "xss ! i") auto
  have split: "xss = take i xss @ (x # xs) # drop (Suc i) xss" using i(1) x by (metis id_take_nth_drop)
  have pre: "concat (take i xss) = []" using i by (auto simp: in_set_conv_nth)
  have upd: "xss[i := xs] = take i xss @ xs # drop (Suc i) xss" using i(1) by (rule upd_conv_take_nth_drop)
  have eq: "concat xss = x # concat (xss[i := xs])"
    by (subst split, subst upd) (simp add: pre del: concat_eq_Nil_conv)
  then have "n = length (concat (xss[i := xs]))" using Suc(2) by simp
  from merges_Cons [OF i(1) x Suc(1) [OF this]] show ?case by (simp only: eq)
qed


text \<open>A handler that stops: the blocking reader stops, this one goes on with the shards behind.  And an
  error that is handed on ends the blocking stream, this one goes on.\<close>
lemma stop_skips_one_shard:
  assumes "ao_handler r e = Stop" "\<And>xss. flatten (ao_concurrency r) xss = concat xss"
  shows "async_read dec flatten r (Inl e # xs) = async_read dec flatten r xs \<and>
    shards_to_samples_apply dec' \<lparr>opener = op', ss_selection = sel, ss_handler = ao_handler r\<rparr> (Inl e # xs) = []"
  using assms
  by (simp add: async_read_def per_shard_def async_open_item_def shards_to_samples_events open_item_def failed_source_def
      group_all_grouped finish_def grouper_new_def valid_opt_def opt_list_def)

lemma reraise_goes_on:
  assumes "ao_handler r e = Reraise" "\<And>xss. flatten (ao_concurrency r) xss = concat xss"
  shows "async_read dec flatten r (Inl e # xs) = Inl e # async_read dec flatten r xs \<and>
    shards_to_samples_apply dec' \<lparr>opener = op', ss_selection = sel, ss_handler = ao_handler r\<rparr> (Inl e # xs) = [Inl e]"
  using assms
  by (simp add: async_read_def per_shard_def async_open_item_def shards_to_samples_events open_item_def failed_source_def
      group_all_grouped finish_def grouper_new_def valid_opt_def opt_list_def)

section \<open>Datasets\<close>

datatype async_source_spec = APatterns "string list" | AVerbatim "string list"

record async_builder =
  ab_source :: async_source_spec
  ab_opener :: "async_opener option"
  ab_concurrency :: nat
  ab_shard_shuffle :: "nat option"
  ab_resampled :: bool
  ab_node_split :: node_split
  ab_worker_split :: bool
  ab_selection :: selection
  ab_empty_check :: bool
  ab_seed :: "64 word option"
  ab_deterministic :: bool
  ab_handler :: handler

definition async_builder_new :: "async_source_spec \<Rightarrow> async_builder" where
  "async_builder_new src =
     \<lparr>ab_source = src, ab_opener = None, ab_concurrency = 1, ab_shard_shuffle = None, ab_resampled = False,
      ab_node_split = Refuse, ab_worker_split = True, ab_selection = selection_new, ab_empty_check = True,
      ab_seed = None, ab_deterministic = False, ab_handler = reraise_exception\<rparr>"

definition concurrency :: "nat \<Rightarrow> async_builder \<Rightarrow> async_builder" where
  "concurrency n b = b\<lparr>ab_concurrency := max n 1\<rparr>"

definition async_set_opener :: "async_opener \<Rightarrow> async_builder \<Rightarrow> async_builder" where
  "async_set_opener x s = s\<lparr>ab_opener := Some x\<rparr>"

definition async_set_shard_shuffle :: "nat \<Rightarrow> async_builder \<Rightarrow> async_builder" where
  "async_set_shard_shuffle x s = s\<lparr>ab_shard_shuffle := Some x\<rparr>"

definition async_set_resampled :: "bool \<Rightarrow> async_builder \<Rightarrow> async_builder" where
  "async_set_resampled x s = s\<lparr>ab_resampled := x\<rparr>"

definition async_set_node_split :: "node_split \<Rightarrow> async_builder \<Rightarrow> async_builder" where
  "async_set_node_split x s = s\<lparr>ab_node_split := x\<rparr>"

definition async_set_worker_split :: "bool \<Rightarrow> async_builder \<Rightarrow> async_builder" where
  "async_set_worker_split x s = s\<lparr>ab_worker_split := x\<rparr>"

definition async_set_selection :: "selection \<Rightarrow> async_builder \<Rightarrow> async_builder" where
  "async_set_selection x s = s\<lparr>ab_selection := x\<rparr>"

definition async_set_empty_check :: "bool \<Rightarrow> async_builder \<Rightarrow> async_builder" where
  "async_set_empty_check x s = s\<lparr>ab_empty_check := x\<rparr>"

definition async_set_seed :: "64 word \<Rightarrow> async_builder \<Rightarrow> async_builder" where
  "async_set_seed x s = s\<lparr>ab_seed := Some x\<rparr>"

definition async_set_deterministic :: "bool \<Rightarrow> async_builder \<Rightarrow> async_builder" where
  "async_set_deterministic x s = s\<lparr>ab_deterministic := x\<rparr>"

definition async_set_handler :: "handler \<Rightarrow> async_builder \<Rightarrow> async_builder" where
  "async_set_handler x s = s\<lparr>ab_handler := x\<rparr>"

definition async_builder_for :: "string \<Rightarrow> async_builder" where
  "async_builder_for urls = async_builder_new (APatterns [urls])"

definition async_builder_from :: "string list \<Rightarrow> async_builder" where
  "async_builder_from patterns = async_builder_new (APatterns patterns)"

definition async_builder_verbatim :: "string list \<Rightarrow> async_builder" where
  "async_builder_verbatim urls = async_builder_new (AVerbatim urls)"

datatype 'g async_stage =
    Lifted "'g dataset_stage"
  | AsyncSingleNode
  | AsyncNodes
  | AsyncWorkers
  | AsyncShuffle async_shuffle_stage
  | AsyncRead async_reader
  | AsyncGuard string
  | AsyncMap "sample \<Rightarrow> sample option res" handler
  | AsyncSelect "sample \<Rightarrow> bool"

record 'g async_dataset =
  ad_stages :: "'g async_stage list"
  ad_repetitions :: repetitions
  ad_limit :: "nat option"
  ad_handler :: handler
  ad_seed :: "64 word"

definition async_chosen_seed :: "'g surroundings \<Rightarrow> async_builder \<Rightarrow> 64 word" where
  "async_chosen_seed su b =
     (case ab_seed b of
        Some n \<Rightarrow> n
      | None \<Rightarrow>
          (case Option.bind (var su ''WDS_SEED'') (parse_uint 64 10) of
             Some n \<Rightarrow> of_nat n
           | None \<Rightarrow> random_seed su))"

definition async_resampled :: "'g surroundings \<Rightarrow> async_builder \<Rightarrow> string list \<Rightarrow> 'g async_stage res option" where
  "async_resampled su b patterns =
     map_option
       (map_res (\<lambda>r. Lifted (DrawShards
          (r\<lparr>rs_seed := async_chosen_seed su b, rs_deterministic := ab_deterministic b\<rparr>))))
       (resampled_new (wide su) (var su) patterns)"

definition async_shard_list :: "'g surroundings \<Rightarrow> async_builder \<Rightarrow> 'g async_stage res option" where
  "async_shard_list su b =
     (case ab_source b of
        APatterns ps \<Rightarrow>
          if ab_resampled b then async_resampled su b ps
          else map_option (map_res (\<lambda>l. Lifted (ShardList l))) (simple_new (wide su) (var su) ps)
      | AVerbatim us \<Rightarrow>
          if ab_resampled b then async_resampled su b us
          else Some (Inr (Lifted (ShardList (simple_verbatim us)))))"

definition async_split_stages :: "async_builder \<Rightarrow> 'g async_stage list" where
  "async_split_stages b =
     (case ab_node_split b of
        Refuse \<Rightarrow> if ab_resampled b then [] else [AsyncSingleNode]
      | ByNode \<Rightarrow> [AsyncNodes]
      | NoSplit \<Rightarrow> []) @
     (if ab_worker_split b \<and> \<not> ab_resampled b then [AsyncWorkers] else [])"

definition async_shuffle_stages :: "64 word \<Rightarrow> async_builder \<Rightarrow> 'g async_stage list" where
  "async_shuffle_stages seed b =
     (case ab_shard_shuffle b of
        None \<Rightarrow> []
      | Some n \<Rightarrow>
          (let shuffle = async_shuffle_stage_new n
           in [AsyncShuffle
                (if ab_deterministic b then async_deterministic seed shuffle else async_with_seed seed shuffle)]))"

definition async_build ::
  "'g surroundings \<Rightarrow> (string \<Rightarrow> source res) \<Rightarrow> async_builder \<Rightarrow> 'g async_dataset res option" where
  "async_build su open_file b =
     (let seed = async_chosen_seed su b;
          op = (case ab_opener b of Some op \<Rightarrow> op | None \<Rightarrow> file_open open_file file_opener_new)
      in map_option
           (map_res
              (\<lambda>list. \<lparr>ad_stages =
                 [list] @ async_split_stages b @ async_shuffle_stages seed b @
                 [AsyncRead \<lparr>ao_opener = op, ao_selection = ab_selection b, ao_handler = ab_handler b,
                             ao_concurrency = max (ab_concurrency b) 1\<rparr>] @
                 (if ab_empty_check b then [AsyncGuard empty_message] else []),
               ad_repetitions = Once, ad_limit = None, ad_handler = ab_handler b, ad_seed = seed\<rparr>))
           (async_shard_list su b))"

definition async_from_pipeline :: "'g async_stage list \<Rightarrow> repetitions \<Rightarrow> nat option \<Rightarrow> 'g async_dataset" where
  "async_from_pipeline ss r l =
     \<lparr>ad_stages = ss, ad_repetitions = r, ad_limit = l, ad_handler = reraise_exception, ad_seed = 0\<rparr>"

definition with_async_stage :: "'g async_stage \<Rightarrow> 'g async_dataset \<Rightarrow> 'g async_dataset" where
  "with_async_stage st d = d\<lparr>ad_stages := ad_stages d @ [st]\<rparr>"

definition async_dataset_shuffle :: "nat \<Rightarrow> 'g async_dataset \<Rightarrow> 'g async_dataset" where
  "async_dataset_shuffle n d =
     with_async_stage (AsyncShuffle (async_deterministic (ad_seed d) (async_shuffle_stage_new n))) d"

definition async_dataset_map :: "(sample \<Rightarrow> sample option res) \<Rightarrow> 'g async_dataset \<Rightarrow> 'g async_dataset" where
  "async_dataset_map f d = with_async_stage (AsyncMap f (ad_handler d)) d"

definition async_dataset_decode :: "decoder \<Rightarrow> 'g async_dataset \<Rightarrow> 'g async_dataset" where
  "async_dataset_decode dc d =
     with_async_stage (AsyncMap (\<lambda>s. map_res Some (decode_sample dc s)) (ad_handler d)) d"

definition async_dataset_decode_basic :: "codecs \<Rightarrow> 'g async_dataset \<Rightarrow> 'g async_dataset" where
  "async_dataset_decode_basic cd d = async_dataset_decode (decoder_new cd []) d"

definition async_map_field ::
  "string \<Rightarrow> (field_value \<Rightarrow> field_value res) \<Rightarrow> 'g async_dataset \<Rightarrow> 'g async_dataset" where
  "async_map_field fld f d =
     async_dataset_map
       (\<lambda>s. case sample_remove fld s of
              (None, s) \<Rightarrow> Inl (MissingKey [fld] (keys s))
            | (Some v, s) \<Rightarrow> and_then (f v) (\<lambda>w. Inr (Some (sample_insert fld w s)))) d"

definition async_dataset_select :: "(sample \<Rightarrow> bool) \<Rightarrow> 'g async_dataset \<Rightarrow> 'g async_dataset" where
  "async_dataset_select p d = with_async_stage (AsyncSelect p) d"

definition async_dataset_with_epoch :: "nat \<Rightarrow> 'g async_dataset \<Rightarrow> 'g async_dataset" where
  "async_dataset_with_epoch n d = d\<lparr>ad_repetitions := Forever, ad_limit := Some n\<rparr>"

definition async_dataset_repeat :: "nat \<Rightarrow> 'g async_dataset \<Rightarrow> 'g async_dataset" where
  "async_dataset_repeat n d = d\<lparr>ad_repetitions := Times n\<rparr>"

definition async_dataset_take :: "nat \<Rightarrow> 'g async_dataset \<Rightarrow> 'g async_dataset" where
  "async_dataset_take n d = d\<lparr>ad_limit := Some n\<rparr>"

section \<open>Running\<close>

text \<open>What a run depends on besides the \<open>runtime\<close> of the blocking datasets.\<close>
record async_runtime =
  art_decompress :: "source \<Rightarrow> source res"
  art_flatten :: "nat \<Rightarrow> sample res list list \<Rightarrow> sample res list"

fun apply_async ::
  "'g runtime \<Rightarrow> async_runtime \<Rightarrow> 'g async_stage \<Rightarrow> sample res list \<Rightarrow> sample res list \<times> 'g async_stage" where
  "apply_async rt art (Lifted st) xs = (case apply_stage rt st empty_stream of (ys, st) \<Rightarrow> (ys, Lifted st))"
| "apply_async rt art AsyncSingleNode xs = (async_single_node_only (rt_worker rt) xs, AsyncSingleNode)"
| "apply_async rt art AsyncNodes xs = (async_split_by_node (rt_worker rt) xs, AsyncNodes)"
| "apply_async rt art AsyncWorkers xs = (async_split_by_worker (rt_worker rt) xs, AsyncWorkers)"
| "apply_async rt art (AsyncShuffle s) xs =
     (case async_shuffle_apply (rt_seeded rt) (rt_fresh rt (ag_epoch s)) (rt_draw rt) (rt_worker rt) s xs of
        (r, s) \<Rightarrow> (or_panic r, AsyncShuffle s))"
| "apply_async rt art (AsyncRead r) xs = (async_read (art_decompress art) (art_flatten art) r xs, AsyncRead r)"
| "apply_async rt art (AsyncGuard m) xs = (async_check_empty m xs, AsyncGuard m)"
| "apply_async rt art (AsyncMap f h) xs =
     (drain (Suc (length xs)) (async_map_next (\<lambda>s c. (f s, c)) h) (Some (xs, ())), AsyncMap f h)"
| "apply_async rt art (AsyncSelect p) xs =
     (drain (Suc (length xs)) (async_select_next (\<lambda>s c. (p s, c))) (xs, ()), AsyncSelect p)"

definition nth_async :: "'g runtime \<Rightarrow> async_runtime \<Rightarrow> nat \<Rightarrow> 'g async_stage list stage" where
  "nth_async rt art i ss xs = (case apply_async rt art (ss ! i) xs of (ys, st) \<Rightarrow> (ys, ss[i := st]))"

definition async_dataset_pipeline ::
  "'g runtime \<Rightarrow> async_runtime \<Rightarrow> 'g async_dataset \<Rightarrow> 'g async_stage list data_pipeline" where
  "async_dataset_pipeline rt art d =
     \<lparr>stages = map (nth_async rt art) [0..<length (ad_stages d)], repetitions = ad_repetitions d,
      limit = ad_limit d\<rparr>"

definition async_dataset_items ::
  "'g runtime \<Rightarrow> async_runtime \<Rightarrow> nat \<Rightarrow> 'g async_dataset \<Rightarrow> sample res list" where
  "async_dataset_items rt art wanted d = async_items wanted (async_dataset_pipeline rt art d) (ad_stages d)"

section \<open>The same pipeline over two worlds\<close>

definition related_runs ::
  "('v \<Rightarrow> bool) \<Rightarrow> ('v \<Rightarrow> 'w) \<Rightarrow> 'v data_pipeline \<Rightarrow> 'w data_pipeline \<Rightarrow> bool" where
  "related_runs ok f p p' \<longleftrightarrow>
     (\<forall>v. ok v \<longrightarrow> run_once p' (f v) = (fst (run_once p v), f (snd (run_once p v))) \<and> ok (snd (run_once p v)))"

definition same_epochs :: "'v repeated \<Rightarrow> 'w repeated \<Rightarrow> bool" where
  "same_epochs s t \<longleftrightarrow>
     (\<exists>ok f p p' v cur left k. related_runs ok f p p' \<and> ok v \<and>
        s = rstate p v cur left k \<and> t = rstate p' (f v) cur left k)"

lemma same_epochsI:
  "related_runs ok f p p' \<Longrightarrow> ok v \<Longrightarrow> same_epochs (rstate p v cur left k) (rstate p' (f v) cur left k)"
  unfolding same_epochs_def by blast

interpretation worlds: agreeing repeated_next repeated_next same_epochs
proof
  fix s :: "'v repeated" and t :: "'w repeated" and r s'
  assume "same_epochs s t" and r: "repeated_next s = (r, s')"
  then obtain ok f p p' v cur left k where rel: "related_runs ok f p p'" "ok v"
    and st: "s = rstate p v cur left k" "t = rstate p' (f v) cur left k" by (auto simp: same_epochs_def)
  have none: "\<exists>t'. repeated_next (rstate p' (f v) None left k) = (r, t') \<and> (r \<noteq> None \<longrightarrow> same_epochs s' t')"
    if n: "repeated_next (rstate p v None left k) = (r, s')" for k
  proof (cases "left = Some 0")
    case True
    then show ?thesis using n by (simp add: repeated_no_epoch)
  next
    case False
    obtain xs v' where run: "run_once p v = (xs, v')" by fastforce
    then have run': "run_once p' (f v) = (xs, f v')" "ok v'" using rel by (auto simp: related_runs_def)
    show ?thesis
      using n repeated_start [OF run False, of k] repeated_start [OF run'(1) False, of k] same_epochsI [OF rel(1) run'(2)]
      by (cases xs) auto
  qed
  show "\<exists>t'. repeated_next t = (r, t') \<and> (r \<noteq> None \<longrightarrow> same_epochs s' t')"
  proof (cases cur)
    case None
    then show ?thesis using none [of k] r st by simp
  next
    case (Some xs)
    consider x ys where "xs = x # ys" | "xs = []" "k = 0" | j where "xs = []" "k = Suc j"
      by (cases xs; cases k) auto
    then show ?thesis
    proof cases
      case 1
      then show ?thesis using r st Some same_epochsI [OF rel] by (auto simp: repeated_running)
    next
      case 2
      then show ?thesis using r st Some by (auto simp: repeated_empty)
    next
      case 3
      then show ?thesis using none [of k] r st Some by (simp add: repeated_running)
    qed
  qed
qed

lemma pipeline_items_related:
  assumes rel: "related_runs ok f p p'" "ok v"
    and same: "repetitions p' = repetitions p" "limit p' = limit p"
  shows "pipeline_items n p' (f v) = pipeline_items n p v"
proof -
  have "same_epochs (repeated_new p v) (repeated_new p' (f v))"
    using same_epochsI [OF rel, of None _ 0] same by (simp add: repeated_new_def rstate_def)
  then have "drain m repeated_next (repeated_new p' (f v)) = drain m repeated_next (repeated_new p v)" for m
    by (rule worlds.drain_agree [symmetric])
  then show ?thesis using rel same
    by (auto simp: pipeline_items_def related_runs_def Let_def split: repetitions.split)
qed

section \<open>The blocking dataset of the same stages\<close>

definition blocking_opener :: "async_opener \<Rightarrow> opener" where
  "blocking_opener op url = map_res flat_source (op url)"

fun blocking_stage :: "'g async_stage \<Rightarrow> 'g dataset_stage" where
  "blocking_stage (Lifted st) = st"
| "blocking_stage AsyncSingleNode = OnlySingleNode"
| "blocking_stage AsyncNodes = DealNodes"
| "blocking_stage AsyncWorkers = DealWorkers"
| "blocking_stage (AsyncShuffle s) = ShuffleStage (sync_shuffle s)"
| "blocking_stage (AsyncRead r) =
     ReadShards \<lparr>opener = blocking_opener (ao_opener r), ss_selection = ao_selection r, ss_handler = ao_handler r\<rparr>"
| "blocking_stage (AsyncGuard m) = GuardEmpty m"
| "blocking_stage (AsyncMap f h) = MapSamples f h"
| "blocking_stage (AsyncSelect p) = SelectSamples p"

definition blocking :: "'g async_dataset \<Rightarrow> 'g dataset" where
  "blocking d =
     \<lparr>ds_stages = map blocking_stage (ad_stages d), ds_repetitions = ad_repetitions d, ds_limit = ad_limit d,
      ds_handler = ad_handler d, ds_seed = ad_seed d\<rparr>"

text \<open>Stages that read one shard at a time and skip what fails.\<close>
fun calm_stage :: "'g async_stage \<Rightarrow> bool" where
  "calm_stage (Lifted st) = (case st of ShardList l \<Rightarrow> True | DrawShards r \<Rightarrow> True | MixShards m g \<Rightarrow> True | _ \<Rightarrow> False)"
| "calm_stage (AsyncRead r) = ((\<forall>e. ao_handler r e = Continue) \<and> ao_concurrency r = 1)"
| "calm_stage _ = True"

definition agreeing_runtimes :: "'g runtime \<Rightarrow> async_runtime \<Rightarrow> bool" where
  "agreeing_runtimes rt art \<longleftrightarrow>
     same_decoders (art_decompress art) (rt_decompress rt) \<and> (\<forall>xss. art_flatten art 1 xss = concat xss) \<and>
     rank (rt_worker rt) < max 1 (world_size (rt_worker rt)) \<and>
     worker (rt_worker rt) < max 1 (num_workers (rt_worker rt))"

lemma async_map_same:
  "drain n (async_map_next f h) (Some (xs, c)) =
     drain n (map_samples_next f) \<lparr>st_source = xs, st_fun = c, st_handler = h, st_done = False\<rparr>"
  using maps.drain_agree [where h = h and s = "\<lparr>st_source = xs, st_fun = c, st_handler = h, st_done = False\<rparr>"] by simp

lemma apply_blocking:
  assumes "agreeing_runtimes rt art" "calm_stage st" "apply_async rt art st xs = (ys, st')"
  shows "apply_stage rt (blocking_stage st) xs = (ys, blocking_stage st') \<and> calm_stage st'"
proof (cases st)
  case (Lifted l)
  then show ?thesis using assms by (cases l) (auto split: prod.splits)
next
  case AsyncNodes
  then show ?thesis using assms
    by (auto simp: agreeing_runtimes_def async_split_by_node_def split_by_node_def deal_step_by max_def split: if_splits)
next
  case AsyncWorkers
  then show ?thesis using assms
    by (auto simp: agreeing_runtimes_def async_split_by_worker_def split_by_worker_def deal_step_by max_def split: if_splits)
next
  case (AsyncShuffle s)
  have "sg_epoch (sync_shuffle s) = ag_epoch s" by (simp add: sync_shuffle_def)
  then show ?thesis using assms AsyncShuffle
    by (auto split: prod.splits dest: async_shuffle_apply_same)
next
  case (AsyncRead r)
  then have "same_opener (ao_opener r) (blocking_opener (ao_opener r))" "\<And>e. ao_handler r e = Continue"
    "ao_concurrency r = 1" using assms by (auto simp: same_opener_def blocking_opener_def)
  then show ?thesis using assms AsyncRead concat_per_shard [of r "blocking_opener (ao_opener r)" "art_decompress art" "rt_decompress rt" xs]
    by (auto simp: agreeing_runtimes_def async_read_def)
next
  case (AsyncMap f h)
  then show ?thesis using assms by (auto simp: map_stage_def async_map_same simp del: drain.simps)
next
  case (AsyncSelect p)
  then show ?thesis using assms by (auto simp: select_stage_def async_select_same simp del: drain.simps)
qed (use assms in \<open>auto simp: async_single_node_only_def single_node_only_def async_check_empty_same\<close>)

lemma foldl_blocking:
  assumes "agreeing_runtimes rt art"
  shows "list_all calm_stage ss \<Longrightarrow> list_all (\<lambda>i. i < length ss) js \<Longrightarrow>
    foldl (\<lambda>(stream, w) st. st w stream) (xs, ss) (map (nth_async rt art) js) = (ys, ss') \<Longrightarrow>
    foldl (\<lambda>(stream, w) st. st w stream) (xs, map blocking_stage ss) (map (nth_stage rt) js) =
      (ys, map blocking_stage ss') \<and> list_all calm_stage ss' \<and> length ss' = length ss"
proof (induction js arbitrary: xs ss)
  case (Cons i js)
  obtain zs st where a: "apply_async rt art (ss ! i) xs = (zs, st)" by fastforce
  have i: "i < length ss" "calm_stage (ss ! i)" using Cons.prems by (auto simp: list_all_length)
  from apply_blocking [OF assms i(2) a]
  have b: "apply_stage rt (blocking_stage (ss ! i)) xs = (zs, blocking_stage st)" "calm_stage st" by auto
  have "list_all calm_stage (ss[i := st])" using Cons.prems(1) b(2) i(1)
    by (simp add: list_all_length nth_list_update)
  then show ?case using Cons.IH [of "ss[i := st]" zs] Cons.prems a b i
    by (simp add: nth_async_def nth_stage_def map_update)
qed simp

lemma async_runs_related:
  assumes "agreeing_runtimes rt art"
  shows "related_runs (\<lambda>ss. list_all calm_stage ss \<and> length ss = length (ad_stages d)) (map blocking_stage)
    (async_dataset_pipeline rt art d) (dataset_pipeline rt (blocking d))"
proof -
  have "list_all (\<lambda>i. i < n) [0..<n]" for n by (simp add: list_all_iff)
  then show ?thesis
    using foldl_blocking [OF assms, where js = "[0..<length (ad_stages d)]" and xs = "[]"]
    by (auto simp: related_runs_def run_once_def empty_stream_def async_dataset_pipeline_def dataset_pipeline_def blocking_def
        prod_eq_iff)
qed

lemma async_dataset_blocking:
  assumes "agreeing_runtimes rt art" "list_all calm_stage (ad_stages d)" "ad_repetitions d \<noteq> Times 0"
  shows "async_dataset_items rt art wanted d = dataset_items rt wanted (blocking d)"
proof -
  have "pipeline_items wanted (dataset_pipeline rt (blocking d)) (map blocking_stage (ad_stages d)) =
      pipeline_items wanted (async_dataset_pipeline rt art d) (ad_stages d)"
    by (rule pipeline_items_related [OF async_runs_related [OF assms(1)]])
       (use assms(2) in \<open>simp_all add: async_dataset_pipeline_def dataset_pipeline_def blocking_def\<close>)
  then show ?thesis using assms(3)
    by (simp add: async_dataset_items_def dataset_items_def async_items_same async_dataset_pipeline_def)
       (simp add: blocking_def)
qed

section \<open>Building and extending\<close>

definition opener_chosen :: "(string \<Rightarrow> source res) \<Rightarrow> async_builder \<Rightarrow> async_opener" where
  "opener_chosen open_file b =
     (case ab_opener b of Some op \<Rightarrow> op | None \<Rightarrow> file_open open_file file_opener_new)"

definition blocking_builder :: "async_builder \<Rightarrow> builder" where
  "blocking_builder b =
     \<lparr>source_of = (case ab_source b of APatterns ps \<Rightarrow> Patterns ps | AVerbatim us \<Rightarrow> Verbatim us),
      shard_shuffle = ab_shard_shuffle b, resampled_shards = ab_resampled b, cache_dir = None, cache_size = None,
      node_splitting = ab_node_split b, worker_split = ab_worker_split b, b_selection = ab_selection b,
      empty_check = ab_empty_check b, b_seed = ab_seed b, b_deterministic = ab_deterministic b,
      b_handler = ab_handler b\<rparr>"

lemma blocking_builder_fields [simp]:
  "source_of (blocking_builder b) = (case ab_source b of APatterns ps \<Rightarrow> Patterns ps | AVerbatim us \<Rightarrow> Verbatim us)"
  "shard_shuffle (blocking_builder b) = ab_shard_shuffle b" "resampled_shards (blocking_builder b) = ab_resampled b"
  "cache_dir (blocking_builder b) = None" "node_splitting (blocking_builder b) = ab_node_split b"
  "worker_split (blocking_builder b) = ab_worker_split b" "b_selection (blocking_builder b) = ab_selection b"
  "empty_check (blocking_builder b) = ab_empty_check b" "b_seed (blocking_builder b) = ab_seed b"
  "b_deterministic (blocking_builder b) = ab_deterministic b" "b_handler (blocking_builder b) = ab_handler b"
  by (simp_all add: blocking_builder_def)

lemma blocking_seed: "chosen_seed su (blocking_builder b) = async_chosen_seed su b"
  by (simp add: chosen_seed_def async_chosen_seed_def)

lemma blocking_shard_list:
  "shard_stage su (blocking_builder b) = map_option (map_res blocking_stage) (async_shard_list su b)"
proof -
  have m: "map_res f (map_res g r) = map_res (\<lambda>x. f (g x)) r" for f :: "'y \<Rightarrow> 'z" and g :: "'x \<Rightarrow> 'y" and r
    by (cases r) simp_all
  show ?thesis
    by (simp add: shard_stage_def async_shard_list_def resampled_stage_def async_resampled_def blocking_seed
        option.map_comp comp_def m split: async_source_spec.split)
qed

lemma blocking_split: "split_stages (blocking_builder b) = map blocking_stage (async_split_stages b)"
  by (simp add: split_stages_def async_split_stages_def split: node_split.split)

lemma blocking_shuffles: "shuffle_stages seed (blocking_builder b) = map blocking_stage (async_shuffle_stages seed b)"
  by (simp add: shuffle_stages_def async_shuffle_stages_def Let_def sync_shuffle_def
      shuffle_stage_new_def deterministic_def with_seed_def async_shuffle_stage_new_def async_deterministic_def
      async_with_seed_def split: option.split)

lemma blocking_build:
  assumes "streaming su = blocking_opener (opener_chosen open_file b)"
  shows "build su (blocking_builder b) = map_option (map_res blocking) (async_build su open_file b)"
proof -
  have op: "opener_of su (blocking_builder b) = Inr (streaming su)"
    by (simp add: opener_of_def)
  show ?thesis
  proof (cases "async_shard_list su b")
    case (Some r)
    then show ?thesis
      by (cases r)
         (simp_all add: build_def async_build_def blocking_shard_list op blocking_seed Let_def blocking_def blocking_split
           blocking_shuffles assms opener_chosen_def)
  qed (simp add: build_def async_build_def blocking_shard_list)
qed

lemma async_build_calm:
  assumes "async_build su open_file b = Some (Inr d)" "\<And>e. ab_handler b e = Continue" "ab_concurrency b \<le> 1"
  shows "list_all calm_stage (ad_stages d) \<and> ad_repetitions d = Once"
proof -
  have "list_all calm_stage (async_split_stages b)" "\<And>n. list_all calm_stage (async_shuffle_stages n b)"
    by (simp_all add: async_split_stages_def async_shuffle_stages_def Let_def split: node_split.split option.split)
  moreover have "calm_stage l" if "async_shard_list su b = Some (Inr l)" for l
    using that by (auto simp: async_shard_list_def async_resampled_def map_res_Inr_iff
        split: async_source_spec.splits if_splits)
  ultimately show ?thesis
    using assms by (auto simp: async_build_def Let_def map_res_Inr_iff)
qed

lemma blocking_methods:
  "blocking (async_dataset_shuffle n d) = dataset_shuffle n (blocking d)"
  "blocking (async_dataset_map f d) = dataset_map f (blocking d)"
  "blocking (async_dataset_decode dc d) = dataset_decode dc (blocking d)"
  "blocking (async_map_field fld g d) = map_field fld g (blocking d)"
  "blocking (async_dataset_select p d) = dataset_select p (blocking d)"
  "blocking (async_dataset_with_epoch n d) = dataset_with_epoch n (blocking d)"
  "blocking (async_dataset_repeat n d) = dataset_repeat n (blocking d)"
  "blocking (async_dataset_take n d) = dataset_take n (blocking d)"
proof -
  have "(case sample_remove fld s of
           (None, s) \<Rightarrow> Inl (MissingKey [fld] (keys s))
         | (Some v, s) \<Rightarrow> and_then (g v) (\<lambda>w. Inr (Some (sample_insert fld w s)))) = map_field_body fld g s" for s
    by (auto simp: map_field_body_def and_then_def map_res_def split: option.split sum.split prod.split)
  then show "blocking (async_map_field fld g d) = map_field fld g (blocking d)"
    by (simp add: async_map_field_def map_field_def async_dataset_map_def dataset_map_def with_async_stage_def
        with_dataset_stage_def blocking_def)
qed (simp_all add: blocking_def async_dataset_shuffle_def dataset_shuffle_def async_dataset_map_def dataset_map_def
    async_dataset_decode_def dataset_decode_def async_dataset_select_def dataset_select_def
    async_dataset_with_epoch_def dataset_with_epoch_def async_dataset_repeat_def dataset_repeat_def
    async_dataset_take_def dataset_take_def with_async_stage_def with_dataset_stage_def sync_shuffle_def
    async_deterministic_def async_shuffle_stage_new_def deterministic_def shuffle_stage_new_def)

lemma async_extended_calm:
  "list_all calm_stage (ad_stages d) \<Longrightarrow>
     list_all calm_stage (ad_stages (async_dataset_with_epoch m (async_dataset_map f (async_dataset_shuffle n d)))) \<and>
     ad_repetitions (async_dataset_with_epoch m (async_dataset_map f (async_dataset_shuffle n d))) = Forever"
  by (simp add: async_dataset_with_epoch_def async_dataset_map_def async_dataset_shuffle_def with_async_stage_def)

lemma async_dataset_same:
  assumes "agreeing_runtimes rt art" "async_build su open_file b = Some (Inr d)" "\<And>e. ab_handler b e = Continue"
    "ab_concurrency b \<le> 1" "streaming su = blocking_opener (opener_chosen open_file b)"
  shows "build su (blocking_builder b) = Some (Inr (blocking d)) \<and>
    async_dataset_items rt art wanted d = dataset_items rt wanted (blocking d) \<and>
    async_dataset_items rt art wanted (async_dataset_with_epoch m (async_dataset_map f (async_dataset_shuffle n d))) =
      dataset_items rt wanted (dataset_with_epoch m (dataset_map f (dataset_shuffle n (blocking d))))"
proof -
  note calm = async_build_calm [OF assms(2,3,4)]
  from async_extended_calm [of d m f n] calm
  have "list_all calm_stage (ad_stages (async_dataset_with_epoch m (async_dataset_map f (async_dataset_shuffle n d))))"
    "ad_repetitions (async_dataset_with_epoch m (async_dataset_map f (async_dataset_shuffle n d))) \<noteq> Times 0" by simp_all
  from async_dataset_blocking [OF assms(1) this] show ?thesis
    using async_dataset_blocking [OF assms(1), of d] calm blocking_build [OF assms(5)] assms(2)
    by (simp add: blocking_methods)
qed


definition demo_async_builder :: async_builder where
  "demo_async_builder =
     (async_builder_new (AVerbatim [''a.tar'', ''b.tar'']))\<lparr>ab_opener := Some (async_memory_open demo_opener),
        ab_handler := ignore_and_continue\<rparr>"


end
