(* ===== verification/Pipes.thy ===== *)
theory Pipes
  imports Streams
begin

text \<open>
  \<^verbatim>\<open>webdataset-io/src/pipe.rs\<close>: a child process presented as a stream.  What the
  system does is data: the bytes a child writes, and how it exits (\<open>None\<close> for a signal), which may
  depend on whether its output was read to the end.
\<close>

record child =
  child_output :: stream
  exit_code :: "bool \<Rightarrow> int option res"

record pipe =
  description :: string
  child_of :: child
  pipe_stdout :: "stream option"
  pipe_stdin :: "bytes option"
  ignored_status :: "int list"
  ignored_errors :: bool
  exit_status :: "int option"

definition DEFAULT_IGNORED_STATUS :: "int list" where
  "DEFAULT_IGNORED_STATUS = [0, 141]"

text \<open>A command is its argument vector; \<open>start\<close> is what the system answers to running it.\<close>

definition describe_command :: "string list \<Rightarrow> string" where
  "describe_command argv = join_with '' '' argv"

definition shell :: "string \<Rightarrow> string list" where
  "shell script = [''/bin/sh'', ''-c'', script]"

definition pipe_spawn :: "(string list \<Rightarrow> child option) \<Rightarrow> string list \<Rightarrow> bool \<Rightarrow> pipe res" where
  "pipe_spawn start argv writing =
     (case start argv of
        None \<Rightarrow> Inl (Subprocess ''could not start'')
      | Some c \<Rightarrow>
          Inr \<lparr>description = describe_command argv, child_of = c,
               pipe_stdout = (if writing then None else Some (child_output c)),
               pipe_stdin = (if writing then Some [] else None),
               ignored_status = DEFAULT_IGNORED_STATUS, ignored_errors = False, exit_status = None\<rparr>)"

definition pipe_for_reading :: "(string list \<Rightarrow> child option) \<Rightarrow> string list \<Rightarrow> pipe res" where
  "pipe_for_reading start argv = pipe_spawn start argv False"

definition pipe_for_writing :: "(string list \<Rightarrow> child option) \<Rightarrow> string list \<Rightarrow> pipe res" where
  "pipe_for_writing start argv = pipe_spawn start argv True"

definition ignore_status :: "int list \<Rightarrow> pipe \<Rightarrow> pipe" where
  "ignore_status ns p = p\<lparr>ignored_status := ignored_status p @ ns\<rparr>"

definition ignore_errors :: "bool \<Rightarrow> pipe \<Rightarrow> pipe" where
  "ignore_errors b p = p\<lparr>ignored_errors := b\<rparr>"

definition all_read :: "pipe \<Rightarrow> bool" where
  "all_read p = (case pipe_stdout p of Some s \<Rightarrow> pending s = [] | None \<Rightarrow> True)"

definition check_status :: "int \<Rightarrow> pipe \<Rightarrow> unit res" where
  "check_status n p =
     (if ignored_errors p \<or> n \<in> set (ignored_status p) then Inr () else Inl (Subprocess ''exit''))"

definition pipe_finish :: "pipe \<Rightarrow> unit res \<times> pipe" where
  "pipe_finish p =
     (let whole = all_read p; p = p\<lparr>pipe_stdout := None, pipe_stdin := None\<rparr>
      in case exit_status p of
           Some n \<Rightarrow> (check_status n p, p)
         | None \<Rightarrow>
             (case exit_code (child_of p) whole of
                Inl e \<Rightarrow> (Inl e, p)
              | Inr code \<Rightarrow>
                  (let n = (case code of Some k \<Rightarrow> k | None \<Rightarrow> -1); p = p\<lparr>exit_status := Some n\<rparr>
                   in (check_status n p, p))))"

text \<open>\<^verbatim>\<open>std::io::Error::other\<close>.\<close>
definition io_other :: "'a res \<Rightarrow> 'a res" where
  "io_other r = (case r of Inl e \<Rightarrow> Inl (Io ''other'') | Inr x \<Rightarrow> Inr x)"

text \<open>One \<^verbatim>\<open>read\<close> into a buffer of \<open>cap\<close> bytes, of which the system has \<open>avail\<close> ready.\<close>
definition pipe_read :: "nat \<Rightarrow> nat \<Rightarrow> pipe \<Rightarrow> bytes res \<times> pipe" where
  "pipe_read cap avail p =
     (case pipe_stdout p of
        None \<Rightarrow> (Inr [], p)
      | Some s \<Rightarrow>
          if pending s = [] \<and> fault s \<noteq> None \<and> 0 < cap then (Inl (the (fault s)), p)
          else
            (let got = take (min cap (max 1 avail)) (pending s);
                 p = p\<lparr>pipe_stdout := Some (s\<lparr>pending := drop (length got) (pending s)\<rparr>)\<rparr>
             in if got = [] then (case pipe_finish p of (r, p) \<Rightarrow> (map_res (\<lambda>_. []) (io_other r), p))
                else (Inr got, p)))"

definition pipe_write :: "bytes \<Rightarrow> pipe \<Rightarrow> nat res \<times> pipe" where
  "pipe_write bs p =
     (case pipe_stdin p of
        None \<Rightarrow> (Inl (Io ''pipe is closed''), p)
      | Some sent \<Rightarrow> (Inr (length bs), p\<lparr>pipe_stdin := Some (sent @ bs)\<rparr>))"

definition pipe_flush :: "pipe \<Rightarrow> unit res \<times> pipe" where
  "pipe_flush p = (Inr (), p)"

text \<open>\<^verbatim>\<open>Sink::finish\<close> of a pipe.\<close>
definition pipe_sink_finish :: "pipe \<Rightarrow> unit res \<times> pipe" where
  "pipe_sink_finish p = (case pipe_flush p of (Inl e, p) \<Rightarrow> (Inl e, p) | (Inr _, p) \<Rightarrow> pipe_finish p)"

definition pipe_drop :: "pipe \<Rightarrow> pipe" where
  "pipe_drop p =
     (let whole = all_read p; p = p\<lparr>pipe_stdout := None, pipe_stdin := None\<rparr>
      in if exit_status p = None
         then (case exit_code (child_of p) whole of Inr code \<Rightarrow> p\<lparr>exit_status := code\<rparr> | Inl e \<Rightarrow> p)
         else p)"

section \<open>A pipe is a byte source\<close>

text \<open>Read until the end or an error, the buffer and the bytes ready at each call as listed.\<close>
fun pipe_read_loop :: "(nat \<times> nat) list \<Rightarrow> pipe \<Rightarrow> bytes \<times> error option" where
  "pipe_read_loop [] p = ([], None)"
| "pipe_read_loop ((cap, avail) # cs) p =
     (case pipe_read cap avail p of
        (Inl e, p) \<Rightarrow> ([], Some e)
      | (Inr [], p) \<Rightarrow> ([], None)
      | (Inr got, p) \<Rightarrow> (case pipe_read_loop cs p of (rest, e) \<Rightarrow> (got @ rest, e)))"

text \<open>The byte source a started child amounts to.\<close>
definition pipe_stream :: "pipe \<Rightarrow> stream" where
  "pipe_stream p =
     (case pipe_stdout p of
        None \<Rightarrow> stream_of []
      | Some s \<Rightarrow>
          \<lparr>pending = pending s,
           fault = (case fault s of
                      Some e \<Rightarrow> Some e
                    | None \<Rightarrow> (case fst (pipe_finish (p\<lparr>pipe_stdout := Some (stream_of [])\<rparr>)) of
                                 Inl e \<Rightarrow> Some (Io ''other'') | Inr u \<Rightarrow> None))\<rparr>)"

lemma pipe_finish_result:
  "fst (pipe_finish p) =
     (case exit_status p of
        Some n \<Rightarrow> check_status n p
      | None \<Rightarrow>
          and_then (exit_code (child_of p) (all_read p))
            (\<lambda>code. check_status (case code of Some k \<Rightarrow> k | None \<Rightarrow> -1) p))"
  by (simp add: pipe_finish_def check_status_def Let_def and_then_def split: option.split sum.split)

lemma pipe_finish_at_end:
  "all_read p \<Longrightarrow> all_read p' \<Longrightarrow> exit_status p' = exit_status p \<Longrightarrow> child_of p' = child_of p \<Longrightarrow>
   ignored_errors p' = ignored_errors p \<Longrightarrow> ignored_status p' = ignored_status p \<Longrightarrow>
   fst (pipe_finish p') = fst (pipe_finish p)"
  by (auto simp: pipe_finish_result check_status_def and_then_def split: option.split sum.split)

lemma take_min_length: "take (min k (length xs)) xs = take k xs"
  by (simp add: min_def)

lemma pipe_read_at_end:
  "pipe_stdout p = Some s \<Longrightarrow> pending s = [] \<Longrightarrow> 0 < cap \<Longrightarrow>
   fst (pipe_read cap avail p) = (case fault (pipe_stream p) of Some e \<Rightarrow> Inl e | None \<Rightarrow> Inr [])"
proof (cases "fault s")
  case None
  assume s: "pipe_stdout p = Some s" "pending s = []" "0 < cap"
  let ?p = "p\<lparr>pipe_stdout := Some (s\<lparr>pending := []\<rparr>)\<rparr>" and ?e = "p\<lparr>pipe_stdout := Some (stream_of [])\<rparr>"
  have "fst (pipe_finish ?p) = fst (pipe_finish ?e)"
    by (rule pipe_finish_at_end) (simp_all add: all_read_def stream_of_def)
  then show ?thesis using s None
    by (cases "pipe_finish ?p")
       (auto simp: pipe_read_def pipe_stream_def io_other_def Let_def split: sum.split)
qed (simp add: pipe_read_def pipe_stream_def)

lemma pipe_read_more:
  assumes "pipe_stdout p = Some s" "pending s \<noteq> []" "0 < cap"
  obtains n where "0 < n" "pipe_read cap avail p =
    (Inr (take n (pending s)), p\<lparr>pipe_stdout := Some (s\<lparr>pending := drop n (pending s)\<rparr>)\<rparr>)"
    and "n \<le> length (pending s)"
proof -
  obtain k where k: "min cap (max 1 avail) = Suc k"
    using assms(3) by (cases "min cap (max 1 avail)") (auto simp: min_def max_def split: if_splits)
  let ?n = "min (Suc k) (length (pending s))"
  have "take ?n (pending s) = take (Suc k) (pending s)" by (rule take_min_length)
  moreover have "0 < ?n" "?n \<le> length (pending s)" using assms(2) by auto
  moreover have "pipe_read cap avail p =
      (Inr (take (Suc k) (pending s)), p\<lparr>pipe_stdout := Some (s\<lparr>pending := drop ?n (pending s)\<rparr>)\<rparr>)"
    using assms(1,2) by (simp only: pipe_read_def k) (simp add: Let_def min.commute)
  ultimately show ?thesis using that by metis
qed

lemma pipe_stream_read:
  assumes "pipe_stdout p = Some s"
  shows "fault (pipe_stream (p\<lparr>pipe_stdout := Some (s\<lparr>pending := bs\<rparr>)\<rparr>)) = fault (pipe_stream p)"
proof -
  have "fst (pipe_finish (p\<lparr>pipe_stdout := Some (s\<lparr>pending := bs\<rparr>), pipe_stdout := Some (stream_of [])\<rparr>)) =
      fst (pipe_finish (p\<lparr>pipe_stdout := Some (stream_of [])\<rparr>))"
    by (rule pipe_finish_at_end) (simp_all add: all_read_def stream_of_def)
  then show ?thesis using assms by (simp add: pipe_stream_def split: option.split)
qed

text \<open>In whatever pieces it is read, a pipe delivers the byte source it amounts to.\<close>
lemma pipe_read_loop_stream:
  assumes "pipe_stdout p \<noteq> None" "\<forall>c\<in>set cs. 0 < fst c" "length (pending (pipe_stream p)) < length cs"
  shows "pipe_read_loop cs p = (pending (pipe_stream p), fault (pipe_stream p))"
  using assms
proof (induction cs arbitrary: p)
  case (Cons c cs)
  obtain cap avail where c: "c = (cap, avail)" by fastforce
  obtain s where s: "pipe_stdout p = Some s" using Cons.prems by auto
  have cap: "0 < cap" using Cons.prems c by simp
  have pend: "pending (pipe_stream p) = pending s" using s by (simp add: pipe_stream_def)
  show ?case
  proof (cases "pending s = []")
    case True
    then show ?thesis using pipe_read_at_end [OF s True cap, of avail] c pend
      by (cases "pipe_read cap avail p") (auto split: option.splits)
  next
    case False
    obtain n where n: "0 < n" "n \<le> length (pending s)" "pipe_read cap avail p =
        (Inr (take n (pending s)), p\<lparr>pipe_stdout := Some (s\<lparr>pending := drop n (pending s)\<rparr>)\<rparr>)"
      using pipe_read_more [OF s False cap] by metis
    let ?p = "p\<lparr>pipe_stdout := Some (s\<lparr>pending := drop n (pending s)\<rparr>)\<rparr>"
    have p': "pending (pipe_stream ?p) = drop n (pending s)" by (simp add: pipe_stream_def)
    have "pipe_read_loop cs ?p = (pending (pipe_stream ?p), fault (pipe_stream ?p))"
      using Cons.prems n pend by (intro Cons.IH) (auto simp: p')
    moreover have "take n (pending s) \<noteq> []" using n False by simp
    then obtain x xs where "take n (pending s) = x # xs" by (cases "take n (pending s)") auto
    ultimately show ?thesis
      using n c pend p' pipe_stream_read [OF s] append_take_drop_id [of n "pending s"] by simp
  qed
qed simp

definition demo_child :: child where
  "demo_child = \<lparr>child_output = stream_of [1, 2, 3], exit_code = (\<lambda>whole. Inr (Some (if whole then 22 else 141)))\<rparr>"

text \<open>C20: a subprocess is a byte source that ends honestly: in whatever pieces its output is read, the
  reader gets all of it in order, and then the end if the child exited with an accepted status or an error
  if not; a failed transfer never looks like a short file.\<close>
theorem pipe_reads_checked:
  assumes "pipe_for_reading start argv = Inr p" and "start argv = Some c"
    and "fault (child_output c) = None" and "exit_code c True = Inr code"
    and "\<forall>b\<in>set cs. 0 < fst b" and "length (pending (child_output c)) < length cs"
  shows "pipe_read_loop cs (ignore_status ok p) =
    (pending (child_output c),
     if (case code of Some n \<Rightarrow> n | None \<Rightarrow> -1) \<in> {0, 141} \<union> set ok then None else Some (Io ''other''))"
proof -
  have p: "pipe_stdout (ignore_status ok p) = Some (child_output c)" "exit_status (ignore_status ok p) = None"
      "child_of (ignore_status ok p) = c" "ignored_errors (ignore_status ok p) = False"
      "ignored_status (ignore_status ok p) = [0, 141] @ ok"
    using assms(1,2)
    by (auto simp: pipe_for_reading_def pipe_spawn_def ignore_status_def DEFAULT_IGNORED_STATUS_def)
  then have s: "pending (pipe_stream (ignore_status ok p)) = pending (child_output c)"
    "fault (pipe_stream (ignore_status ok p)) =
       (if (case code of Some n \<Rightarrow> n | None \<Rightarrow> -1) \<in> {0, 141} \<union> set ok then None else Some (Io ''other''))"
    using assms(3,4) by (simp_all add: pipe_stream_def pipe_finish_result all_read_def stream_of_def check_status_def)
  show ?thesis
    using pipe_read_loop_stream [of "ignore_status ok p" cs] assms(5,6) p(1) s by simp
qed

theorem pipe_reads_checked_witness:
  "\<exists>p. pipe_for_reading (\<lambda>argv. Some demo_child) (shell ''curl'') = Inr p \<and>
     pipe_read_loop [(2, 8), (4, 1), (9, 9), (9, 9)] (ignore_status [23] p) = ([1, 2, 3], Some (Io ''other''))"
proof -
  obtain p where p: "pipe_for_reading (\<lambda>argv. Some demo_child) (shell ''curl'') = Inr p"
    by (simp add: pipe_for_reading_def pipe_spawn_def)
  moreover have "fault (child_output demo_child) = None" "exit_code demo_child True = Inr (Some 22)"
      "pending (child_output demo_child) = [1, 2, 3]"
    by (simp_all add: demo_child_def stream_of_def)
  ultimately show ?thesis
    using pipe_reads_checked [of "\<lambda>argv. Some demo_child" "shell ''curl''" p demo_child "Some 22"
        "[(2, 8), (4, 1), (9, 9), (9, 9)]" "[23]"] by simp
qed

text \<open>A read into an empty buffer is taken for the end of the output: the pipe is closed, the child ends by
  the broken pipe (a status that is ignored), and the rest of its output is lost without an error.\<close>
lemma empty_read_closes_pipe:
  fixes p :: pipe
  assumes "pipe_for_reading (\<lambda>argv. Some demo_child) argv = Inr p"
  shows "\<exists>q. pipe_read 0 8 p = (Inr [], q) \<and> pipe_read 8 8 q = (Inr [], q)"
  using assms
  by (auto simp: pipe_for_reading_def pipe_spawn_def demo_child_def pipe_read_def stream_of_def io_other_def
      pipe_finish_def all_read_def check_status_def DEFAULT_IGNORED_STATUS_def Let_def)

end
