(* ===== verification/Gopen.thy ===== *)
theory Gopen
  imports Urls Names Samples Pipes "HOL-Library.List_Lexorder"
begin

text \<open>
  \<^verbatim>\<open>webdataset-io/src/gopen.rs\<close>: which handler opens a URL, and with what command.
  Opening is split in two: what is to be opened is a \<open>target\<close>, decided here from the URL, the
  environment, the scheme table and the security flag; opening the target is the system's part
  (\<open>host\<close>).  A handler installed by a caller is a value of any type \<open>'h\<close>.
\<close>

datatype 'h scheme_handler =
    PipeScheme
  | CommandScheme "string \<Rightarrow> string list" "(string \<Rightarrow> string list) option" "int list" "int list"
  | HuggingFaceScheme
  | CustomScheme 'h

datatype 'h target = StandardStream | LocalFile string | Process "string list" "int list" | Custom 'h string

type_synonym environment = "string \<Rightarrow> string option"
type_synonym 'h scheme_table = "'h scheme_handler fields"

section \<open>Commands\<close>

definition curl_read :: "string \<Rightarrow> string list" where
  "curl_read url =
     [''curl'', ''--connect-timeout'', ''30'', ''--retry'', ''30'', ''--retry-delay'', ''2'', ''-f'', ''-s'', ''-L'', url]"

definition curl_write :: "string \<Rightarrow> string list" where
  "curl_write url = [''curl'', ''-f'', ''-s'', ''-X'', ''PUT'', ''-L'', ''-T'', ''-'', url]"

text \<open>\<^verbatim>\<open>trim_start_matches\<close> removes the pattern as often as it is there.\<close>
function trim_start_sub :: "string \<Rightarrow> string \<Rightarrow> string" where
  "trim_start_sub pat s =
     (if pat = [] then s
      else case strip_prefix pat s of Some r \<Rightarrow> trim_start_sub pat r | None \<Rightarrow> s)"
  by pat_completeness auto
termination
  by (relation "measure (length \<circ> snd)") (auto simp: strip_prefix_Some_iff)

declare trim_start_sub.simps [simp del]

definition htgs_read :: "string \<Rightarrow> string list" where
  "htgs_read url =
     [''curl'', ''-s'', ''-L'', ''https://storage.googleapis.com/'' @ trim_start_sub ''htgs://'' url]"

definition gsutil_read :: "string \<Rightarrow> string list" where
  "gsutil_read url = [''gsutil'', ''cat'', url]"

definition gsutil_write :: "string \<Rightarrow> string list" where
  "gsutil_write url = [''gsutil'', ''cp'', ''-'', url]"

definition ais_read :: "string \<Rightarrow> string list" where
  "ais_read url = [''ais'', ''get'', url, ''-'']"

definition ais_write :: "string \<Rightarrow> string list" where
  "ais_write url = [''ais'', ''put'', ''-'', url]"

definition hf_token :: "environment \<Rightarrow> string option" where
  "hf_token var = find_map var [''HF_TOKEN'', ''HUGGING_FACE_HUB_TOKEN'', ''HUGGINGFACE_TOKEN'']"

definition non_empty_part :: "string option \<Rightarrow> string option" where
  "non_empty_part p = (case p of Some [] \<Rightarrow> None | q \<Rightarrow> q)"

text \<open>\<^verbatim>\<open>splitn(3, '/')\<close>.\<close>
definition split_three :: "string \<Rightarrow> string option \<times> string option \<times> string option" where
  "split_three s =
     (case split_once ''/'' s of
        None \<Rightarrow> (Some s, None, None)
      | Some (a, r) \<Rightarrow>
          (case split_once ''/'' r of
             None \<Rightarrow> (Some a, Some r, None)
           | Some (b, c) \<Rightarrow> (Some a, Some b, Some c)))"

definition hf_kind :: "string \<Rightarrow> string \<times> string" where
  "hf_kind rest =
     (case split_once ''/'' rest of
        Some (k, tail) \<Rightarrow>
          if k = ''datasets'' then (''datasets/'', tail)
          else if k = ''spaces'' then (''spaces/'', tail)
          else ([], rest)
      | None \<Rightarrow> ([], rest))"

definition resolve_hf_url :: "string \<Rightarrow> string res" where
  "resolve_hf_url url =
     and_then (ok_or (Value ''not an hf:// URL'') (strip_prefix ''hf://'' url))
       (\<lambda>rest. case hf_kind rest of
          (kind, rest) \<Rightarrow>
            (case split_three rest of
               (p1, p2, p3) \<Rightarrow>
                 (case (non_empty_part p1, non_empty_part p2, non_empty_part p3) of
                    (Some owner, Some name, Some path) \<Rightarrow>
                      (case (case split_once ''@'' name of Some nr \<Rightarrow> nr | None \<Rightarrow> (name, ''main'')) of
                         (name, revision) \<Rightarrow>
                           Inr (''https://huggingface.co/'' @ kind @ owner @ ''/'' @ name @ ''/resolve/'' @ revision @
                                ''/'' @ path))
                  | _ \<Rightarrow> Inl (Value ''expected hf://[datasets/]owner/name/path''))))"

text \<open>\<^verbatim>\<open>argv.insert(argv.len() - 1, x)\<close>.\<close>
definition insert_before_last :: "'a \<Rightarrow> 'a list \<Rightarrow> 'a list" where
  "insert_before_last x xs = take (length xs - 1) xs @ x # drop (length xs - 1) xs"

definition hf_argv :: "environment \<Rightarrow> string \<Rightarrow> string list res" where
  "hf_argv var url =
     map_res
       (\<lambda>resolved. case hf_token var of
          None \<Rightarrow> curl_read resolved
        | Some token \<Rightarrow>
            insert_before_last (''Authorization: Bearer '' @ token) (insert_before_last ''-H'' (curl_read resolved)))
       (resolve_hf_url url)"

section \<open>The scheme table\<close>

text \<open>\<open>subprocess\<close> is the feature of that name.\<close>
definition default_schemes :: "bool \<Rightarrow> environment \<Rightarrow> 'h scheme_table" where
  "default_schemes subprocess var =
     (if \<not> subprocess then []
      else
        (let curl = CommandScheme curl_read (Some curl_write) [141, 23] [141, 26];
             gsutil = CommandScheme gsutil_read (Some gsutil_write) [141, 23] [141, 26];
             ais = CommandScheme ais_read (Some ais_write) [141, 23] [141, 26];
             htgs = CommandScheme htgs_read None [141, 23] [];
             table = put ''pipe'' PipeScheme [];
             table = foldl (\<lambda>t s. put s curl t) table [''http'', ''https'', ''sftp'', ''ftps'', ''ftp'', ''scp''];
             table = put ''hf'' HuggingFaceScheme (put ''ais'' ais (put ''htgs'' htgs (put ''gs'' gsutil table)))
         in case var ''USE_AIS_FOR'' of
              None \<Rightarrow> table
            | Some schemes \<Rightarrow>
                foldl (\<lambda>t s. put s ais t) table (filter (\<lambda>s. s \<noteq> []) (split_on '':'' schemes))))"

definition register_scheme :: "string \<Rightarrow> 'h scheme_handler \<Rightarrow> 'h scheme_table \<Rightarrow> 'h scheme_table" where
  "register_scheme s h t = put s h t"

definition lookup_scheme :: "string \<Rightarrow> 'h scheme_table \<Rightarrow> 'h scheme_handler option" where
  "lookup_scheme s t = get s t"

definition registered_schemes :: "'h scheme_table \<Rightarrow> string list" where
  "registered_schemes t = sort (keys t)"

section \<open>Opening\<close>

fun apply_rules :: "string list \<Rightarrow> string \<Rightarrow> string" where
  "apply_rules [] url = url"
| "apply_rules (rule # rules) url =
     (case split_once ''='' rule of
        None \<Rightarrow> apply_rules rules url
      | Some (pat, subst) \<Rightarrow>
          (case strip_prefix pat url of
             Some rest \<Rightarrow> subst @ rest
           | None \<Rightarrow> apply_rules rules url))"

definition rewrite_url :: "environment \<Rightarrow> string \<Rightarrow> security_state \<Rightarrow> string res \<times> security_state" where
  "rewrite_url var url sec =
     (case var ''GOPEN_REWRITE'' of
        None \<Rightarrow> (Inr url, sec)
      | Some rules \<Rightarrow>
          (case check_security var ''rewriting URLs from GOPEN_REWRITE'' sec of
             (Inl e, sec) \<Rightarrow> (Inl e, sec)
           | (Inr _, sec) \<Rightarrow> (Inr (apply_rules (split_on '';'' rules) url), sec)))"

definition command_for :: "environment \<Rightarrow> string \<Rightarrow> security_state \<Rightarrow> string list res \<times> security_state" where
  "command_for var url sec =
     (case check_security var ''opening pipe: URLs'' sec of
        (Inl e, sec) \<Rightarrow> (Inl e, sec)
      | (Inr _, sec) \<Rightarrow>
          (map_res shell (ok_or (Value ''not a pipe: URL'') (strip_prefix ''pipe:'' url)), sec))"

fun open_read :: "environment \<Rightarrow> 'h scheme_handler \<Rightarrow> string \<Rightarrow> security_state \<Rightarrow> 'h target res \<times> security_state" where
  "open_read var PipeScheme url sec =
     (case command_for var url sec of (r, sec) \<Rightarrow> (map_res (\<lambda>argv. Process argv []) r, sec))"
| "open_read var (CommandScheme rd wr read_ok write_ok) url sec = (Inr (Process (rd url) read_ok), sec)"
| "open_read var HuggingFaceScheme url sec = (map_res (\<lambda>argv. Process argv [141, 23]) (hf_argv var url), sec)"
| "open_read var (CustomScheme h) url sec = (Inr (Custom h url), sec)"

fun open_write :: "environment \<Rightarrow> 'h scheme_handler \<Rightarrow> string \<Rightarrow> security_state \<Rightarrow> 'h target res \<times> security_state" where
  "open_write var PipeScheme url sec =
     (case command_for var url sec of (r, sec) \<Rightarrow> (map_res (\<lambda>argv. Process argv []) r, sec))"
| "open_write var (CommandScheme rd wr read_ok write_ok) url sec =
     (case wr of
        None \<Rightarrow> (Inl (Unsupported ''writing''), sec)
      | Some build \<Rightarrow> (Inr (Process (build url) write_ok), sec))"
| "open_write var HuggingFaceScheme url sec = (Inl (Unsupported ''writing''), sec)"
| "open_write var (CustomScheme h) url sec = (Inr (Custom h url), sec)"

text \<open>Reading and writing differ in what is asked of the handler only.\<close>
definition gopen_with ::
  "('h scheme_handler \<Rightarrow> string \<Rightarrow> security_state \<Rightarrow> 'h target res \<times> security_state) \<Rightarrow>
   environment \<Rightarrow> 'h scheme_table \<Rightarrow> string \<Rightarrow> security_state \<Rightarrow> 'h target res \<times> security_state" where
  "gopen_with ask var table url sec =
     (if url = ''-'' then (Inr StandardStream, sec)
      else
        (case rewrite_url var url sec of
           (Inl e, sec) \<Rightarrow> (Inl e, sec)
         | (Inr url, sec) \<Rightarrow>
             if is_local url then
               (case check_security var ''opening local files'' sec of
                  (Inl e, sec) \<Rightarrow> (Inl e, sec)
                | (Inr _, sec) \<Rightarrow> (Inr (LocalFile (to_local_path url)), sec))
             else
               (case Option.bind (scheme url) (\<lambda>s. lookup_scheme s table) of
                  Some h \<Rightarrow> ask h url sec
                | None \<Rightarrow> (Inl (Unsupported ''no gopen handler''), sec))))"

definition gopen :: "environment \<Rightarrow> 'h scheme_table \<Rightarrow> string \<Rightarrow> security_state \<Rightarrow> 'h target res \<times> security_state" where
  "gopen var = gopen_with (open_read var) var"

definition gopen_write :: "environment \<Rightarrow> 'h scheme_table \<Rightarrow> string \<Rightarrow> security_state \<Rightarrow> 'h target res \<times> security_state" where
  "gopen_write var = gopen_with (open_write var) var"

text \<open>What the system answers to the targets.\<close>
record 'h host =
  stdin_stream :: stream
  open_file :: "string \<Rightarrow> stream res"
  start_child :: "string list \<Rightarrow> child option"
  open_custom :: "'h \<Rightarrow> string \<Rightarrow> stream res"

fun open_target :: "'h host \<Rightarrow> 'h target \<Rightarrow> stream res" where
  "open_target hs StandardStream = Inr (stdin_stream hs)"
| "open_target hs (LocalFile path) = with_context ''opening '' (open_file hs path)"
| "open_target hs (Process argv ok) =
     map_res (\<lambda>p. pipe_stream (ignore_status ok p)) (pipe_for_reading (start_child hs) argv)"
| "open_target hs (Custom h url) = open_custom hs h url"

end
