(* ===== verification/Gopen_Spec.thy ===== *)
theory Gopen_Spec
  imports Gopen Caching
begin

text \<open>
  What opening a URL guarantees: in secure mode neither local files nor shell commands are
  reached through the dispatcher, whatever handlers were installed; the file cache does not ask.
\<close>

section \<open>Secure mode\<close>

definition on_guard :: "environment \<Rightarrow> security_state \<Rightarrow> bool" where
  "on_guard var sec = fst (enforce_security var sec)"

lemma check_on_guard: "on_guard var sec \<Longrightarrow> fst (check_security var what sec) = Inl (Security what)"
  by (cases "enforce_security var sec") (simp add: on_guard_def check_security_def)

lemma command_on_guard:
  "on_guard var sec \<Longrightarrow> fst (command_for var url sec) = Inl (Security ''opening pipe: URLs'')"
  using check_on_guard [of var sec "''opening pipe: URLs''"]
  by (auto simp: command_for_def split: prod.splits sum.splits)

fun runs_shell :: "string list \<Rightarrow> bool" where
  "runs_shell [] = False"
| "runs_shell (program # args) = (program = ''/bin/sh'')"

text \<open>A target that reads or writes the machine itself.\<close>
fun local_target :: "'h target \<Rightarrow> bool" where
  "local_target (LocalFile p) = True"
| "local_target (Process argv ok) = runs_shell argv"
| "local_target t = False"

definition builtin_commands :: "(string \<Rightarrow> string list) set" where
  "builtin_commands = {curl_read, curl_write, gsutil_read, gsutil_write, ais_read, ais_write, htgs_read}"

fun builtin :: "'h scheme_handler \<Rightarrow> bool" where
  "builtin (CommandScheme rd wr ok ok') = (rd \<in> builtin_commands \<and> (\<forall>f. wr = Some f \<longrightarrow> f \<in> builtin_commands))"
| "builtin h = True"

definition builtin_table :: "'h scheme_table \<Rightarrow> bool" where
  "builtin_table t = (\<forall>(s, h)\<in>set t. builtin h)"

lemma builtin_put: "builtin_table t \<Longrightarrow> builtin h \<Longrightarrow> builtin_table (put s h t)"
  by (induction s h t rule: put.induct) (auto simp: builtin_table_def)

lemma builtin_puts: "builtin h \<Longrightarrow> builtin_table t \<Longrightarrow> builtin_table (foldl (\<lambda>t s. put s h t) t ss)"
  by (induction ss arbitrary: t) (simp_all add: builtin_put)

lemma builtin_default: "builtin_table (default_schemes subprocess var)"
proof -
  have "builtin_table []" by (simp add: builtin_table_def)
  moreover have "builtin (CommandScheme curl_read (Some curl_write) [141, 23] [141, 26])"
      "builtin (CommandScheme gsutil_read (Some gsutil_write) [141, 23] [141, 26])"
      "builtin (CommandScheme ais_read (Some ais_write) [141, 23] [141, 26])"
      "builtin (CommandScheme htgs_read None [141, 23] [])"
    by (simp_all add: builtin_commands_def)
  ultimately show ?thesis
    by (auto simp: default_schemes_def Let_def intro!: builtin_puts split: option.split)
       (simp_all add: builtin_table_def)
qed

text \<open>The table after callers have installed handlers of their own.\<close>
definition installed :: "(string \<times> 'h) list \<Rightarrow> 'h scheme_table \<Rightarrow> 'h scheme_table" where
  "installed regs t = foldl (\<lambda>t (s, h). register_scheme s (CustomScheme h) t) t regs"

lemma builtin_register: "builtin_table t \<Longrightarrow> builtin_table (installed regs t)"
  unfolding installed_def by (induction regs arbitrary: t) (auto simp: register_scheme_def builtin_put)

lemma builtin_lookup: "builtin_table t \<Longrightarrow> lookup_scheme s t = Some h \<Longrightarrow> builtin h"
  by (auto simp: builtin_table_def lookup_scheme_def get_def dest: map_of_SomeD)

lemma builtin_not_shell: "f \<in> builtin_commands \<Longrightarrow> \<not> runs_shell (f url)"
  by (auto simp: builtin_commands_def curl_read_def curl_write_def gsutil_read_def gsutil_write_def
      ais_read_def ais_write_def htgs_read_def)

lemma hf_not_shell: "hf_argv var url = Inr argv \<Longrightarrow> \<not> runs_shell argv"
  by (auto simp: hf_argv_def map_res_Inr_iff curl_read_def insert_before_last_def split: option.splits)

lemma ask_on_guard:
  assumes "on_guard var sec" "builtin h"
  shows "fst (open_read var h url sec) = Inr t \<Longrightarrow> \<not> local_target t"
    and "fst (open_write var h url sec) = Inr t \<Longrightarrow> \<not> local_target t"
proof -
  have c: "\<exists>e sec'. command_for var url sec = (Inl e, sec')"
    using command_on_guard [OF assms(1), of url] by (metis prod.collapse)
  show "fst (open_read var h url sec) = Inr t \<Longrightarrow> \<not> local_target t"
    using assms(2) c by (cases h) (auto simp: map_res_Inr_iff hf_not_shell builtin_not_shell)
  show "fst (open_write var h url sec) = Inr t \<Longrightarrow> \<not> local_target t"
    using assms(2) c by (cases h) (auto simp: builtin_not_shell split: option.splits)
qed

lemma gopen_with_on_guard:
  assumes g: "on_guard var sec" and t: "builtin_table table"
    and ask: "\<And>h url t. builtin h \<Longrightarrow> fst (ask h url sec) = Inr t \<Longrightarrow> \<not> local_target t"
    and r: "fst (gopen_with ask var table url sec) = Inr tg"
  shows "tg = StandardStream \<or> var ''GOPEN_REWRITE'' = None \<and> \<not> local_target tg"
proof (cases "url = ''-''")
  case False
  show ?thesis
  proof (cases "var ''GOPEN_REWRITE''")
    case None
    then have rw: "rewrite_url var url sec = (Inr url, sec)" by (simp add: rewrite_url_def)
    show ?thesis
    proof (cases "is_local url")
      case True
      then show ?thesis using r False rw check_on_guard [OF g, of "''opening local files''"]
        by (auto simp: gopen_with_def split: prod.splits sum.splits)
    next
      case nl: False
      then obtain h where "Option.bind (scheme url) (\<lambda>s. lookup_scheme s table) = Some h" "fst (ask h url sec) = Inr tg"
        using r False rw by (auto simp: gopen_with_def split: option.splits)
      then show ?thesis using ask t None by (auto simp: bind_eq_Some_conv dest: builtin_lookup)
    qed
  next
    case (Some rules)
    then show ?thesis using r False check_on_guard [OF g, of "''rewriting URLs from GOPEN_REWRITE''"]
      by (auto simp: gopen_with_def rewrite_url_def split: prod.splits sum.splits)
  qed
qed (use r in \<open>simp add: gopen_with_def\<close>)

text \<open>C11: secure mode holds at the dispatcher: when it is on, opening a URL for reading or writing gives
  neither a local file nor a shell command, nor anything at all that the environment redirected,
  whatever handlers callers have installed, whatever the environment says.\<close>
theorem secure_mode_stays_remote:
  assumes "table = installed regs (default_schemes subprocess var)" and "fst (enforce_security var sec)"
    and "fst (gopen var table url sec) = Inr tg \<or> fst (gopen_write var table url sec) = Inr tg"
  shows "tg = StandardStream \<or> var ''GOPEN_REWRITE'' = None \<and> \<not> local_target tg"
proof -
  have t: "builtin_table table" using builtin_register [OF builtin_default] by (simp add: assms(1))
  have g: "on_guard var sec" using assms(2) by (simp add: on_guard_def)
  show ?thesis
    using assms(3) gopen_with_on_guard [OF g t, of "open_read var"] gopen_with_on_guard [OF g t, of "open_write var"]
      ask_on_guard [OF g] by (auto simp: gopen_def gopen_write_def)
qed

text \<open>In secure mode an \<^verbatim>\<open>https\<close> URL is opened by \<^verbatim>\<open>curl\<close>.\<close>
theorem secure_mode_stays_remote_witness:
  "\<exists>tg. fst (gopen (\<lambda>n. None) (default_schemes True (\<lambda>n. None) :: unit scheme_table) ''https://h/a''
       \<lparr>secure_init = True, secure = True\<rparr>) = Inr tg \<and> tg \<noteq> StandardStream \<and> \<not> local_target tg"
proof -
  let ?tg = "Process (curl_read ''https://h/a'') [141, 23] :: unit target"
  have sch: "scheme ''https://h/a'' = Some ''https''" by code_simp
  have look: "lookup_scheme ''https'' (default_schemes True (\<lambda>n. None) :: unit scheme_table) =
      Some (CommandScheme curl_read (Some curl_write) [141, 23] [141, 26])"
    by (simp add: default_schemes_def lookup_scheme_def get_def Let_def)
  have g: "fst (gopen (\<lambda>n. None) (default_schemes True (\<lambda>n. None) :: unit scheme_table) ''https://h/a''
       \<lparr>secure_init = True, secure = True\<rparr>) = Inr ?tg"
    by (simp add: gopen_def gopen_with_def rewrite_url_def is_local_def sch look)
  moreover have "fst (enforce_security (\<lambda>n. None) \<lparr>secure_init = True, secure = True\<rparr>)"
    by (simp add: enforce_security_def)
  ultimately show ?thesis
    using secure_mode_stays_remote [where regs = "[] :: (string \<times> unit) list" and subprocess = True
        and var = "\<lambda>n. None" and url = "''https://h/a''" and tg = ?tg, OF refl]
    by (fastforce simp: installed_def)
qed

text \<open>The file cache passes local URLs through and opens the file itself, without asking: with a cache
  directory set, secure mode does not keep local files closed.\<close>
lemma cache_opens_local_files:
  assumes "is_local url" "opens_succeed sys" "files d (to_local_path url) = Some b"
  shows "fst (cache_open sys pid url (c, d)) = Inr (b, to_local_path url)"
proof -
  obtain w where w: "fails sys (OpenFile (to_local_path url)) (env d) = (None, w)"
    using assms(2) unfolding opens_succeed_def by (metis prod.collapse)
  have "fst (try_open sys pid url (c, d)) = Inr (b, to_local_path url)"
    using assms w by (simp add: try_open_def get_file_def call_def)
  moreover obtain k where "max (retries c) 1 = Suc k" by (metis Suc_pred' max.strict_coboundedI2 zero_less_one)
  ultimately show ?thesis by (auto simp: cache_open_def split: prod.splits sum.splits)
qed

end
