(* ===== verification/Float_Ops.thy ===== *)
theory Float_Ops
  imports Floats
begin

text \<open>
  The \<^verbatim>\<open>f32\<close> and \<^verbatim>\<open>f64\<close> operations \<^verbatim>\<open>images.rs\<close> scales pixels with, on bits: division, product, rounding,
  comparison and the saturating cast to a byte; and that scaling a byte to a float and back
  gives the byte.
\<close>

unbundle bit_operations_syntax

section \<open>Operations\<close>

text \<open>\<^verbatim>\<open>a / b\<close> on \<^verbatim>\<open>f32\<close>, for integers whose quotient is in the normal range: 24 bits of the
  quotient, to nearest, ties to even.\<close>

definition round_even :: "nat \<Rightarrow> nat \<Rightarrow> nat" where
  "round_even n d =
     (let q = n div d; r = n mod d in if d < 2 * r \<or> (d = 2 * r \<and> odd q) then q + 1 else q)"

definition f32_quotient :: "nat \<Rightarrow> nat \<Rightarrow> 32 word" where
  "f32_quotient n d =
     (if n = 0 then 0
      else
        (let k0 = 24 + bit_len d - bit_len n;
             k = (if n * 2 ^ k0 div d < 2 ^ 24 then k0 else k0 - 1)
         in of_nat ((127 + 23 - k) * 2 ^ 23 + (round_even (n * 2 ^ k) d - 2 ^ 23))))"

text \<open>The value of a finite \<^verbatim>\<open>f64\<close> is \<open>f64_digits * 2 ^ f64_power\<close>, with its sign.\<close>

definition f64_digits :: "f64 \<Rightarrow> nat" where
  "f64_digits b = (if f64_exp b = 0 then f64_mant b else f64_mant b + 2 ^ 52)"

definition f64_power :: "f64 \<Rightarrow> int" where
  "f64_power b = int (max (f64_exp b) 1) - 1075"

definition f64_inf :: "f64 \<Rightarrow> bool" where
  "f64_inf b = (f64_exp b = 0x7FF \<and> f64_mant b = 0)"

text \<open>Rounding \<open>m * 2 ^ e\<close> to a \<^verbatim>\<open>f64\<close>, ties to even, subnormals and overflow included.\<close>
definition f64_pack :: "bool \<Rightarrow> nat \<Rightarrow> int \<Rightarrow> f64" where
  "f64_pack s m e =
     (let sign = (if s then 2 ^ 63 else 0);
          t = max (e + int (bit_len m) - 53) (- 1074);
          q = (if t \<le> e then m * 2 ^ nat (e - t) else round_even m (2 ^ nat (t - e)));
          bits = nat (t + 1074) * 2 ^ 52 + q
      in if m = 0 then of_nat sign else of_nat (sign + min bits (0x7FF * 2 ^ 52)))"

definition f64_mul :: "f64 \<Rightarrow> f64 \<Rightarrow> f64" where
  "f64_mul a b =
     (if f64_nan a \<or> f64_nan b \<or> (f64_inf a \<and> f64_zero b) \<or> (f64_zero a \<and> f64_inf b) then 0x7FF8000000000000
      else if f64_inf a \<or> f64_inf b then
        (if f64_sign a \<noteq> f64_sign b then 0xFFF0000000000000 else 0x7FF0000000000000)
      else f64_pack (f64_sign a \<noteq> f64_sign b) (f64_digits a * f64_digits b) (f64_power a + f64_power b))"

text \<open>\<^verbatim>\<open>f64::round\<close>: to the nearest integer, halves away from zero.\<close>
definition f64_round :: "f64 \<Rightarrow> f64" where
  "f64_round b =
     (if f64_nan b \<or> f64_inf b \<or> 0 \<le> f64_power b then b
      else
        (let sh = nat (- f64_power b)
         in f64_pack (f64_sign b) ((f64_digits b + 2 ^ (sh - 1)) div 2 ^ sh) 0))"

definition f64_key :: "f64 \<Rightarrow> int" where
  "f64_key b = (let mag = int (f64_exp b * 2 ^ 52 + f64_mant b) in if f64_sign b then - mag else mag)"

definition f64_less :: "f64 \<Rightarrow> f64 \<Rightarrow> bool" where
  "f64_less a b = (\<not> f64_nan a \<and> \<not> f64_nan b \<and> f64_key a < f64_key b)"

definition f64_clamp :: "f64 \<Rightarrow> f64 \<Rightarrow> f64 \<Rightarrow> f64" where
  "f64_clamp v lo hi = (let w = (if f64_less v lo then lo else v) in if f64_less hi w then hi else w)"

text \<open>\<^verbatim>\<open>x as u8\<close>: truncated, saturating, zero for NaN.\<close>
definition f64_to_u8 :: "f64 \<Rightarrow> byte" where
  "f64_to_u8 b = of_int (max 0 (min 255 (f64_to_i64 b)))"

section \<open>Pixels\<close>

definition scale :: "byte \<Rightarrow> 32 word" where
  "scale b = f32_quotient (unat b) 255"

text \<open>The constants \<^verbatim>\<open>-0.001\<close>, \<^verbatim>\<open>1.001\<close>, \<^verbatim>\<open>1.0\<close> and \<^verbatim>\<open>255.0\<close>.\<close>
definition out_of_range :: "f64 \<Rightarrow> bool" where
  "out_of_range v = (f64_less v 0xBF50624DD2F1A9FC \<or> f64_less 0x3FF004189374BC6A v)"

definition unscale :: "f64 \<Rightarrow> byte" where
  "unscale v = f64_to_u8 (f64_round (f64_mul (f64_clamp v 0 0x3FF0000000000000) 0x406FE00000000000))"

definition saturate :: "f64 \<Rightarrow> byte" where
  "saturate v = f64_to_u8 (f64_clamp v 0 0x406FE00000000000)"

section \<open>Normal numbers\<close>

definition normal :: "nat \<Rightarrow> nat \<Rightarrow> f64" where
  "normal E M = of_nat (E * 2 ^ 52 + (M - 2 ^ 52))"

lemma normal_fields:
  assumes "2 ^ 52 \<le> M" "M < 2 ^ 53" "0 < E" "E < 2047"
  shows "f64_exp (normal E M) = E" "f64_mant (normal E M) = M - 2 ^ 52" "\<not> f64_sign (normal E M)"
proof -
  let ?N = "E * 2 ^ 52 + (M - 2 ^ 52)"
  have m: "M - 2 ^ 52 < 2 ^ 52" using assms by simp
  have N: "?N < 2 ^ 63" using m assms(4) by simp
  then have N': "?N < 2 ^ 64" by simp
  have d: "?N div 2 ^ 52 = E" "?N mod 2 ^ 52 = M - 2 ^ 52"
    using split_digit [OF m, of E] by (simp_all only: add.commute)
  show "f64_exp (normal E M) = E" unfolding normal_def f64_fields(1) [OF N'] d(1) using assms(4) by simp
  show "f64_mant (normal E M) = M - 2 ^ 52" unfolding normal_def f64_fields(2) [OF N'] by (rule d(2))
  have "?N div 2 ^ 63 = 0" using N by (rule div_less)
  then show "\<not> f64_sign (normal E M)" unfolding normal_def f64_fields(3) [OF N'] by simp
qed

lemma normal_value:
  assumes "2 ^ 52 \<le> M" "M < 2 ^ 53" "0 < E" "E < 2047"
  shows "\<not> f64_nan (normal E M)" "\<not> f64_inf (normal E M)" "\<not> f64_zero (normal E M)"
    "f64_digits (normal E M) = M" "f64_power (normal E M) = int E - 1075"
    "f64_key (normal E M) = int (E * 2 ^ 52 + (M - 2 ^ 52))"
  using assms
  by (simp_all add: f64_nan_def f64_inf_def f64_zero_def f64_digits_def f64_power_def f64_key_def Let_def normal_fields [OF assms])

section \<open>Rounding\<close>

lemma round_even_scaled: "round_even (m * 2 ^ j) (d * 2 ^ j) = round_even m d"
proof -
  have "(m * 2 ^ j) mod (d * 2 ^ j) = (m mod d) * 2 ^ j" by (simp add: mod_mult_mult2)
  then show ?thesis by (simp add: round_even_def Let_def mult.assoc [symmetric] flip: mult.assoc)
qed

lemma round_even_exact: "0 < d \<Longrightarrow> round_even (m * d) d = m"
  by (simp add: round_even_def)

lemma round_even_le: "0 < d \<Longrightarrow> n \<le> A * d \<Longrightarrow> round_even n d \<le> A"
proof -
  assume d: "0 < d" and n: "n \<le> A * d"
  show ?thesis
  proof (cases "n div d < A")
    case True
    then show ?thesis by (simp add: round_even_def Let_def)
  next
    case False
    then have "n = A * d" using n d by (metis div_le_mono div_mult_self1_is_m le_antisym less_eq_div_iff_mult_less_eq linorder_not_less nonzero_mult_div_cancel_right not_gr_zero)
    then show ?thesis using d by (simp add: round_even_exact)
  qed
qed

lemma round_even_ge: "0 < d \<Longrightarrow> A * d \<le> n \<Longrightarrow> A \<le> round_even n d"
  by (auto simp: round_even_def Let_def less_eq_div_iff_mult_less_eq intro: le_SucI)

lemma round_even_error:
  assumes "0 < d"
  shows "2 * (round_even n d * d) \<le> 2 * n + d" "2 * n \<le> 2 * (round_even n d * d) + d"
proof -
  have n: "n = n div d * d + n mod d" by simp
  have r: "n mod d < d" using assms by simp
  have q: "round_even n d = n div d \<and> 2 * (n mod d) \<le> d \<or> round_even n d = n div d + 1 \<and> d \<le> 2 * (n mod d)"
    by (auto simp: round_even_def Let_def)
  then have p: "round_even n d * d = n div d * d \<and> 2 * (n mod d) \<le> d \<or>
      round_even n d * d = n div d * d + d \<and> d \<le> 2 * (n mod d)"
    by auto
  show "2 * (round_even n d * d) \<le> 2 * n + d" using n r p by linarith
  show "2 * n \<le> 2 * (round_even n d * d) + d" using n r p by linarith
qed

lemma bit_len_eq: "2 ^ k \<le> n \<Longrightarrow> n < 2 ^ Suc k \<Longrightarrow> bit_len n = Suc k"
proof -
  assume n: "2 ^ k \<le> n" "n < 2 ^ Suc k"
  then have "0 < n" by (auto intro: Nat.gr0I)
  from bit_len_bounds [OF this] have b: "2 ^ (bit_len n - 1) \<le> n" "n < 2 ^ bit_len n" "0 < bit_len n" by auto
  have "(2 :: nat) ^ k < 2 ^ bit_len n" "(2 :: nat) ^ (bit_len n - 1) < 2 ^ Suc k" using n b by linarith+
  then have "k < bit_len n" "bit_len n - 1 < Suc k" by (simp_all only: power_strict_increasing_iff one_less_numeral_iff semiring_norm)
  then show ?thesis by linarith
qed

lemma bit_len_scaled: "0 < m \<Longrightarrow> bit_len (m * 2 ^ j) = bit_len m + j"
proof -
  assume "0 < m"
  from bit_len_bounds [OF this] obtain k where k: "bit_len m = Suc k" "2 ^ k \<le> m" "m < 2 ^ Suc k"
    by (cases "bit_len m") auto
  have "bit_len (m * 2 ^ j) = Suc (k + j)" using k(2,3) by (intro bit_len_eq) (simp_all add: power_add)
  then show ?thesis using k(1) by simp
qed

text \<open>A number of at most 53 significant bits is packed exactly.\<close>

lemma pack_normal:
  assumes m: "0 < m" and j: "bit_len m = Suc j" "j \<le> 52" and E: "int E = e + int i + int j + 1023" "0 < E" "E < 2047"
  shows "f64_pack False (m * 2 ^ i) e = normal E (m * 2 ^ (52 - j))"
proof -
  let ?t = "e + int i + int j - 52" and ?q = "m * 2 ^ (52 - j)"
  have len: "int (bit_len (m * 2 ^ i)) = int j + 1 + int i" using m j(1) by (simp add: bit_len_scaled)
  have t: "max (e + int (bit_len (m * 2 ^ i)) - 53) (- 1074) = ?t" unfolding len using E by simp
  have q: "(if ?t \<le> e then m * 2 ^ i * 2 ^ nat (e - ?t) else round_even (m * 2 ^ i) (2 ^ nat (?t - e))) = ?q"
  proof (cases "i + j \<le> 52")
    case True
    then have "nat (e - ?t) = 52 - j - i" "?t \<le> e" "i + (52 - j - i) = 52 - j" by simp_all
    then show ?thesis by (simp add: mult.assoc flip: power_add)
  next
    case False
    then have 1: "nat (?t - e) = i + j - 52" "\<not> ?t \<le> e" and 2: "i = (52 - j) + (i + j - 52)" using j(2) by simp_all
    have "m * 2 ^ i = ?q * 2 ^ (i + j - 52)" by (subst 2) (simp only: power_add mult.assoc)
    then have "round_even (m * 2 ^ i) (2 ^ (i + j - 52)) = ?q" by (simp only:) (simp add: round_even_exact)
    then show ?thesis using 1 by simp
  qed
  have "2 ^ j \<le> m" "m < 2 ^ Suc j" using bit_len_bounds [OF m] j(1) by auto
  then have "2 ^ j * 2 ^ (52 - j) \<le> ?q" "?q < 2 ^ Suc j * 2 ^ (52 - j)" by simp_all
  then have b: "2 ^ 52 \<le> ?q" "?q < 2 ^ 53" using j(2) by (simp_all flip: power_add power_Suc)
  obtain F where F: "E = Suc F" using E(2) by (cases E) auto
  have "nat (?t + 1074) = F" using E(1) F by simp
  then have bits: "nat (?t + 1074) * 2 ^ 52 + ?q = E * 2 ^ 52 + (?q - 2 ^ 52)" using b(1) F by simp
  have "E * 2 ^ 52 + (?q - 2 ^ 52) \<le> 0x7FF * 2 ^ 52" using b(2) E(3) by simp
  then show ?thesis using m unfolding f64_pack_def Let_def t q bits by (simp add: normal_def)
qed

lemma int_to_f64_normal:
  assumes n: "0 < n" and j: "bit_len n = Suc j" "j \<le> 52"
  shows "int_to_f64 (int n) = normal (j + 1023) (n * 2 ^ (52 - j))"
  using assms by (simp add: int_to_f64_def f64_dyadic_def normal_def Let_def nat_add_distrib)

lemma pack_int:
  assumes n: "n < 2 ^ 52"
  shows "f64_pack False n 0 = int_to_f64 (int n)"
proof (cases "n = 0")
  case True
  then show ?thesis by (simp add: f64_pack_def int_to_f64_def f64_dyadic_def Let_def bit_len.simps)
next
  case False
  then have b: "0 < n" "2 ^ (bit_len n - 1) \<le> n" "0 < bit_len n" using bit_len_bounds [of n] by auto
  then obtain j where j: "bit_len n = Suc j" by (cases "bit_len n") auto
  have "(2 :: nat) ^ j < 2 ^ 52" using b(2) n j by simp
  then have "j < 52" by (rule power_less_imp_less_exp [rotated]) simp
  then show ?thesis
    using pack_normal [of n j "j + 1023" 0 0] int_to_f64_normal [of n j] b(1) j by simp
qed

lemma f32_fields:
  assumes "N < 2 ^ 32"
  shows "unat (drop_bit 23 (of_nat N :: 32 word) AND 0xFF) = N div 2 ^ 23 mod 2 ^ 8"
    and "unat ((of_nat N :: 32 word) AND 0x7FFFFF) = N mod 2 ^ 23"
    and "bit (of_nat N :: 32 word) 31 = odd (N div 2 ^ 31)"
proof -
  have 1: "(0xFF :: 32 word) = mask 8" and 2: "(0x7FFFFF :: 32 word) = mask 23"
    by (simp_all add: mask_eq_exp_minus_1)
  have t: "unat (of_nat N :: 32 word) = N" using assms by (simp add: unat_of_nat)
  show "unat (drop_bit 23 (of_nat N :: 32 word) AND 0xFF) = N div 2 ^ 23 mod 2 ^ 8"
    unfolding 1 take_bit_eq_mask [symmetric] unsigned_take_bit_eq unsigned_drop_bit_eq t
    using assms by (simp add: drop_bit_eq_div take_bit_eq_mod)
  show "unat ((of_nat N :: 32 word) AND 0x7FFFFF) = N mod 2 ^ 23"
    unfolding 2 take_bit_eq_mask [symmetric] unsigned_take_bit_eq t by (simp add: take_bit_eq_mod)
  have "bit (of_nat N :: 32 word) 31 = bit (unat (of_nat N :: 32 word)) 31" by (simp add: bit_unsigned_iff)
  then show "bit (of_nat N :: 32 word) 31 = odd (N div 2 ^ 31)" by (simp only: t bit_iff_odd)
qed

lemma f32_normal:
  assumes q: "2 ^ 23 \<le> q" "q < 2 ^ 24" and E: "0 < E" "E < 255"
  shows "f32_to_f64 (of_nat (E * 2 ^ 23 + (q - 2 ^ 23))) = normal (E + 896) (q * 2 ^ 29)"
proof -
  let ?N = "E * 2 ^ 23 + (q - 2 ^ 23)"
  have m: "q - 2 ^ 23 < 2 ^ 23" using q by simp
  have N: "?N < 2 ^ 31" using m E by simp
  then have N': "?N < 2 ^ 32" by simp
  have d: "?N div 2 ^ 23 = E" "?N mod 2 ^ 23 = q - 2 ^ 23"
    using split_digit [OF m, of E] by (simp_all only: add.commute)
  have s: "?N div 2 ^ 31 = 0" using N by (rule div_less)
  have e: "E mod 2 ^ 8 = E" using E by simp
  have l: "bit_len q = 24" using q bit_len_eq [of 23 q] by simp
  have "nat (int E - 150 + 24 - 1 + 1023) = E + 896" by simp
  then show ?thesis
    unfolding f32_to_f64_def f32_fields [OF N'] d s Let_def e
    using q E l by (simp add: f64_dyadic_def normal_def Let_def)
qed

section \<open>A byte as a float in the unit interval\<close>

lemma f32_quotient_bits:
  assumes n: "0 < n" "n \<le> 255"
  obtains k q where "23 \<le> k" "k \<le> 31" "2 ^ 23 \<le> q" "q < 2 ^ 24"
    "f32_quotient n 255 = of_nat ((150 - k) * 2 ^ 23 + (q - 2 ^ 23))"
    "2 * (q * 255) \<le> 2 * (n * 2 ^ k) + 255" "2 * (n * 2 ^ k) \<le> 2 * (q * 255) + 255" "k = 23 \<Longrightarrow> q = 2 ^ 23"
proof -
  define l where "l = bit_len n"
  have l: "2 ^ (l - 1) \<le> n" "n < 2 ^ l" "0 < l" using bit_len_bounds [OF n(1)] by (auto simp: l_def)
  have "(2 :: nat) ^ (l - 1) < 2 ^ 8" using l(1) n(2) by simp
  then have "l - 1 < 8" by (rule power_less_imp_less_exp [rotated]) simp
  then have l8: "l \<le> 8" by simp
  define k0 where "k0 = 24 + bit_len 255 - bit_len n"
  have "bit_len 255 = 8" using bit_len_eq [of 7 255] by simp
  then have k0: "k0 + l = 32" using l8 by (simp add: k0_def l_def [symmetric])
  define k where "k = (if n * 2 ^ k0 div 255 < 2 ^ 24 then k0 else k0 - 1)"
  define q where "q = round_even (n * 2 ^ k) 255"
  have lo: "2 ^ 31 \<le> n * 2 ^ k0"
  proof -
    have "l - 1 + k0 = 31" using k0 l(3) by simp
    then have "(2 :: nat) ^ 31 = 2 ^ (l - 1) * 2 ^ k0" by (metis power_add)
    also have "\<dots> \<le> n * 2 ^ k0" using l(1) by (rule mult_le_mono1)
    finally show ?thesis .
  qed
  have hi: "n * 2 ^ k0 < 2 ^ 32"
  proof -
    have "n * 2 ^ k0 < 2 ^ l * 2 ^ k0" using l(2) by simp
    also have "\<dots> = 2 ^ 32" using k0 by (metis add.commute power_add)
    finally show ?thesis .
  qed
  have k: "23 \<le> k" "k \<le> 31" using k0 l8 l(3) by (auto simp: k_def)
  have b: "2 ^ 23 * 255 \<le> n * 2 ^ k \<and> n * 2 ^ k \<le> 2 ^ 24 * 255"
  proof (cases "n * 2 ^ k0 div 255 < 2 ^ 24")
    case True
    then have "n * 2 ^ k0 < 2 ^ 24 * 255" by (simp add: div_less_iff_less_mult)
    then show ?thesis using True lo by (simp add: k_def)
  next
    case False
    then have "2 ^ 24 * 255 \<le> n * 2 ^ k0" by (simp add: div_less_iff_less_mult)
    moreover obtain j where "k0 = Suc j" using k0 l8 by (cases k0) auto
    ultimately show ?thesis using False hi by (simp add: k_def)
  qed
  have qb: "2 ^ 23 \<le> q" "q \<le> 2 ^ 24"
    unfolding q_def using b by (auto intro: round_even_ge round_even_le)
  have err: "2 * (q * 255) \<le> 2 * (n * 2 ^ k) + 255" "2 * (n * 2 ^ k) \<le> 2 * (q * 255) + 255"
    using round_even_error [of 255 "n * 2 ^ k"] by (simp_all add: q_def)
  have bits: "f32_quotient n 255 = of_nat ((150 - k) * 2 ^ 23 + (q - 2 ^ 23))"
    unfolding f32_quotient_def Let_def k0_def [symmetric] k_def [symmetric] q_def [symmetric] using n(1) by simp
  have k23: "k = 23 \<Longrightarrow> q = 2 ^ 23"
  proof -
    assume "k = 23"
    then have "q \<le> 2 ^ 23" unfolding q_def using n(2) by (intro round_even_le) simp_all
    then show ?thesis using qb(1) by simp
  qed
  show thesis
  proof (cases "q < 2 ^ 24")
    case True
    then show ?thesis using that k qb bits err k23 by blast
  next
    case False
    then have q: "q = 2 ^ 24" using qb(2) by simp
    with k23 have "k \<noteq> 23" by auto
    then obtain j where j: "k = Suc j" "23 \<le> j" using k(1) by (cases k) auto
    show ?thesis
    proof (rule that [of j "2 ^ 23"])
      show "f32_quotient n 255 = of_nat ((150 - j) * 2 ^ 23 + (2 ^ 23 - 2 ^ 23))"
      proof -
        have "150 - j = Suc (150 - k)" using j k(2) by simp
        then have "(150 - k) * 2 ^ 23 + (q - 2 ^ 23) = (150 - j) * 2 ^ 23 + (2 ^ 23 - 2 ^ 23)" by (simp add: q)
        then show ?thesis unfolding bits by (rule arg_cong)
      qed
      have half: "q = 2 * 2 ^ 23" "n * 2 ^ k = 2 * (n * 2 ^ j)" by (simp_all add: q j(1))
      show "2 * (2 ^ 23 * 255) \<le> 2 * (n * 2 ^ j) + 255" "2 * (n * 2 ^ j) \<le> 2 * (2 ^ 23 * 255) + 255"
        using err unfolding half by linarith+
    qed (use j k in simp_all)
  qed
qed

text \<open>The scaled byte is a normal number, at most one.\<close>

lemma scaled_normal:
  assumes n: "0 < n" "n \<le> 255"
  obtains k q where "23 \<le> k" "k \<le> 31" "2 ^ 23 \<le> q" "q < 2 ^ 24"
    "f32_to_f64 (f32_quotient n 255) = normal (1046 - k) (q * 2 ^ 29)"
    "2 * (q * 255) \<le> 2 * (n * 2 ^ k) + 255" "2 * (n * 2 ^ k) \<le> 2 * (q * 255) + 255"
    "(1046 - k) * 2 ^ 52 + (q * 2 ^ 29 - 2 ^ 52) \<le> 1023 * 2 ^ 52"
proof -
  from f32_quotient_bits [OF n] obtain k q where k: "23 \<le> k" "k \<le> 31" and q: "2 ^ 23 \<le> q" "q < 2 ^ 24"
    and b: "f32_quotient n 255 = of_nat ((150 - k) * 2 ^ 23 + (q - 2 ^ 23))"
    and e: "2 * (q * 255) \<le> 2 * (n * 2 ^ k) + 255" "2 * (n * 2 ^ k) \<le> 2 * (q * 255) + 255" and k23: "k = 23 \<Longrightarrow> q = 2 ^ 23" by blast
  have "150 - k + 896 = 1046 - k" "0 < 150 - k" "150 - k < 255" using k by simp_all
  then have f: "f32_to_f64 (f32_quotient n 255) = normal (1046 - k) (q * 2 ^ 29)"
    unfolding b using f32_normal [OF q, of "150 - k"] by simp
  have "(1046 - k) * 2 ^ 52 + (q * 2 ^ 29 - 2 ^ 52) \<le> 1023 * 2 ^ 52"
  proof (cases "k = 23")
    case True
    then show ?thesis by (simp add: k23)
  next
    case False
    then have "1046 - k \<le> 1022" using k by simp
    then have "(1046 - k) * 2 ^ 52 \<le> 1022 * 2 ^ 52" by (rule mult_le_mono1)
    moreover have "q * 2 ^ 29 - 2 ^ 52 \<le> 2 ^ 52" using q(2) by simp
    ultimately show ?thesis by linarith
  qed
  with that k q f e show ?thesis by blast
qed

lemma unit_constants:
  "f64_key 0 = 0" "f64_key 0x3FF0000000000000 = 1023 * 2 ^ 52" "f64_key 0xBF50624DD2F1A9FC < 0"
  "1023 * 2 ^ 52 < f64_key 0x3FF004189374BC6A" "f64_key 0x406FE00000000000 = 1030 * 2 ^ 52 + 0xFE00000000000"
  "f64_digits 0x406FE00000000000 = 255 * 2 ^ 45" "f64_power 0x406FE00000000000 = - 45"
  "\<not> f64_nan 0x406FE00000000000" "\<not> f64_inf 0x406FE00000000000" "\<not> f64_zero 0x406FE00000000000"
  "\<not> f64_sign 0x406FE00000000000"
  by (simp_all add: f64_key_def f64_exp_def f64_mant_def f64_sign_def Let_def f64_digits_def f64_power_def
      f64_nan_def f64_inf_def f64_zero_def)

lemma round_back:
  assumes "23 \<le> (k :: nat)" "2 * (q * 255) \<le> 2 * (n * 2 ^ k) + 255" "2 * (n * 2 ^ k) \<le> 2 * (q * 255) + 255"
  shows "(q * 255 + 2 ^ (k - 1)) div 2 ^ k = (n :: nat)"
proof (rule div_nat_eqI)
  obtain j where j: "k = Suc j" using assms(1) by (cases k) auto
  have "(2 :: nat) ^ 8 \<le> 2 ^ j" using assms(1) j by (intro power_increasing) simp_all
  then have "256 \<le> (2 :: nat) ^ j" by simp
  moreover have p: "2 ^ k * n = 2 * (n * 2 ^ j)" "2 ^ k * Suc n = 2 * (n * 2 ^ j) + 2 * 2 ^ j" "n * 2 ^ k = 2 * (n * 2 ^ j)"
    "2 ^ (k - 1) = (2 :: nat) ^ j"
    by (simp_all add: j)
  moreover note assms(2,3) [unfolded p(3)]
  ultimately have "2 * (n * 2 ^ j) \<le> q * 255 + 2 ^ j" "q * 255 + 2 ^ j < 2 * (n * 2 ^ j) + 2 * 2 ^ j" by linarith+
  then show "2 ^ k * n \<le> q * 255 + 2 ^ (k - 1)" "q * 255 + 2 ^ (k - 1) < 2 ^ k * Suc n"
    unfolding p by blast+
qed

lemma times_255:
  assumes "k \<le> 31" "23 \<le> k" "2 ^ 23 \<le> q" "q < 2 ^ 24" and err: "2 * (q * 255) \<le> 2 * (n * 2 ^ k) + 255"
    "2 * (n * 2 ^ k) \<le> 2 * (q * 255) + 255" and n: "n \<le> 255"
  shows "f64_round (f64_mul (normal (1046 - k) (q * 2 ^ 29)) 0x406FE00000000000) = int_to_f64 (int n)"
proof -
  have "0 < q * 255" using assms(3) by simp
  from bit_len_bounds [OF this] obtain j where j: "bit_len (q * 255) = Suc j" "2 ^ j \<le> q * 255" "q * 255 < 2 ^ Suc j"
    by (cases "bit_len (q * 255)") auto
  have "2 ^ 30 < q * 255" "q * 255 < 2 ^ 32" using assms(3,4) by simp_all
  then have "(2 :: nat) ^ 30 < 2 ^ Suc j" "(2 :: nat) ^ j < 2 ^ 32" using j(2,3) by (simp_all only: order.strict_trans order.strict_trans1)
  then have "30 < Suc j" "j < 32" by (simp_all only: power_strict_increasing_iff one_less_numeral_iff semiring_norm)
  then have jb: "30 \<le> j" "j \<le> 31" by simp_all
  let ?m = "q * 255 * 2 ^ (52 - j)" and ?E = "j + 1023 - k"
  have V: "2 ^ 52 \<le> q * 2 ^ 29" "q * 2 ^ 29 < 2 ^ 53" "0 < 1046 - k" "1046 - k < 2047" using assms(1,3,4) by simp_all
  have d: "q * 2 ^ 29 * (255 * 2 ^ 45) = q * 255 * 2 ^ 74" by simp
  have e: "int (1046 - k) - 1075 + - 45 = - 74 - int k" using assms(1) by simp
  have "f64_pack False (q * 255 * 2 ^ 74) (- 74 - int k) = normal ?E ?m"
    using j(1) jb assms(1-3) by (intro pack_normal) simp_all
  then have mul: "f64_mul (normal (1046 - k) (q * 2 ^ 29)) 0x406FE00000000000 = normal ?E ?m"
    by (simp only: f64_mul_def normal_value [OF V] normal_fields [OF V] unit_constants d e) simp
  have "2 ^ j * 2 ^ (52 - j) \<le> ?m" "?m < 2 ^ Suc j * 2 ^ (52 - j)" using j(2,3) by (auto intro: mult_le_mono1)
  then have M: "2 ^ 52 \<le> ?m" "?m < 2 ^ 53" "0 < ?E" "?E < 2047" using jb assms(1,2) by (simp_all flip: power_add power_Suc)
  have sh: "nat (- (int ?E - 1075)) = k + (52 - j)" "\<not> 0 \<le> int ?E - 1075" using jb assms(1,2) by simp_all
  have "k + (52 - j) - 1 = (k - 1) + (52 - j)" using assms(2) by simp
  then have "?m + 2 ^ (k + (52 - j) - 1) = (q * 255 + 2 ^ (k - 1)) * 2 ^ (52 - j)" by (simp only: power_add distrib_right)
  then have "(?m + 2 ^ (k + (52 - j) - 1)) div 2 ^ (k + (52 - j)) = n"
    using round_back [OF assms(2) err] by (simp add: power_add)
  then have "f64_round (normal ?E ?m) = f64_pack False n 0"
    by (simp only: f64_round_def normal_value [OF M] normal_fields(3) [OF M] Let_def sh simp_thms if_False)
  then show ?thesis using mul n by (simp add: pack_int)
qed

lemma small_cast: "n \<le> 255 \<Longrightarrow> f64_to_u8 (int_to_f64 (int n)) = of_nat n"
  using int_f64_exact [of "int n"] by (simp add: f64_to_u8_def)

lemma byte_cast: "f64_to_u8 (int_to_f64 (int (unat b))) = b"
  using small_cast [of "unat b"] unat_byte_less [of b] by (simp only: of_nat_unat) simp

lemma clamp_id: "\<not> f64_less v lo \<Longrightarrow> \<not> f64_less hi v \<Longrightarrow> f64_clamp v lo hi = v"
  by (simp add: f64_clamp_def)

lemma zero_f64: "int_to_f64 0 = 0" "f32_to_f64 0 = 0"
  by (simp_all add: int_to_f64_def f64_dyadic_def f32_to_f64_def Let_def)

text \<open>Scaling a byte to the unit interval stays in range, and scaling back gives the byte.\<close>

lemma unscale_scale:
  "\<not> out_of_range (f32_to_f64 (scale b))" "unscale (f32_to_f64 (scale b)) = b"
proof -
  let ?v = "f32_to_f64 (scale b)"
  have b: "unat b \<le> 255" using unat_byte_less [of b] by simp
  have "0 \<le> f64_key ?v \<and> f64_key ?v \<le> 1023 * 2 ^ 52 \<and> f64_round (f64_mul ?v 0x406FE00000000000) = int_to_f64 (int (unat b))"
  proof (cases "unat b = 0")
    case True
    then have "?v = 0" by (simp add: scale_def f32_quotient_def zero_f64)
    moreover have "f64_mul 0 0x406FE00000000000 = 0" "f64_round 0 = 0"
      using unit_constants
      by (simp_all add: f64_mul_def f64_round_def f64_nan_def f64_inf_def f64_zero_def f64_exp_def f64_mant_def f64_sign_def f64_digits_def
          f64_power_def f64_pack_def)
    ultimately show ?thesis using True unit_constants(1) by (simp add: zero_f64)
  next
    case False
    then have n: "0 < unat b" by simp
    from scaled_normal [OF n b] obtain k q where k: "23 \<le> k" "k \<le> 31" and q: "2 ^ 23 \<le> q" "q < 2 ^ 24"
      and v: "?v = normal (1046 - k) (q * 2 ^ 29)"
      and e: "2 * (q * 255) \<le> 2 * (unat b * 2 ^ k) + 255" "2 * (unat b * 2 ^ k) \<le> 2 * (q * 255) + 255"
      and m: "(1046 - k) * 2 ^ 52 + (q * 2 ^ 29 - 2 ^ 52) \<le> 1023 * 2 ^ 52"
      unfolding scale_def by blast
    have V: "2 ^ 52 \<le> q * 2 ^ 29" "q * 2 ^ 29 < 2 ^ 53" "0 < 1046 - k" "1046 - k < 2047" using k q by simp_all
    have "f64_key ?v \<le> int (1023 * 2 ^ 52)" unfolding v normal_value(6) [OF V] using m by (simp only: of_nat_le_iff)
    moreover have "0 \<le> f64_key ?v" unfolding v normal_value(6) [OF V] by simp
    ultimately show ?thesis using times_255 [OF k(2,1) q e b] by (simp only: v) simp
  qed
  then have key: "0 \<le> f64_key ?v" "f64_key ?v \<le> 1023 * 2 ^ 52"
    and r: "f64_round (f64_mul ?v 0x406FE00000000000) = int_to_f64 (int (unat b))" by blast+
  show "\<not> out_of_range ?v" using key unit_constants(3,4) by (auto simp: out_of_range_def f64_less_def)
  have "f64_clamp ?v 0 0x3FF0000000000000 = ?v"
    using key unit_constants(1,2) by (intro clamp_id) (auto simp: f64_less_def)
  then show "unscale ?v = b" unfolding unscale_def by (simp only: r byte_cast)
qed

text \<open>So does widening a byte and clamping it.\<close>

lemma saturate_byte: "saturate (int_to_f64 (int (unat b))) = b"
proof -
  let ?n = "unat b" and ?v = "int_to_f64 (int (unat b))"
  have b: "?n \<le> 255" using unat_byte_less [of b] by simp
  have "0 \<le> f64_key ?v \<and> f64_key ?v \<le> 1030 * 2 ^ 52 + 0xFE00000000000"
  proof (cases "?n = 0")
    case True
    then show ?thesis by (simp add: zero_f64 unit_constants(1))
  next
    case False
    then have "0 < ?n" by simp
    from bit_len_bounds [OF this] obtain j where j: "bit_len ?n = Suc j" "2 ^ j \<le> ?n" "?n < 2 ^ Suc j"
      by (cases "bit_len ?n") auto
    have "(2 :: nat) ^ j < 2 ^ 8" using j(2) b by simp
    then have j8: "j < 8" by (rule power_less_imp_less_exp [rotated]) simp
    let ?m = "?n * 2 ^ (52 - j)"
    have "2 ^ j * 2 ^ (52 - j) \<le> ?m" "?m < 2 ^ Suc j * 2 ^ (52 - j)" using j(2,3) by (auto intro: mult_le_mono1)
    then have M: "2 ^ 52 \<le> ?m" "?m < 2 ^ 53" "0 < j + 1023" "j + 1023 < 2047" using j8 by (simp_all flip: power_add power_Suc)
    have v: "?v = normal (j + 1023) ?m" using \<open>0 < ?n\<close> j(1) j8 by (intro int_to_f64_normal) simp_all
    have "(j + 1023) * 2 ^ 52 + (?m - 2 ^ 52) \<le> 1030 * 2 ^ 52 + 0xFE00000000000"
    proof (cases "j = 7")
      case True
      then show ?thesis using b by simp
    next
      case False
      then have "(j + 1023) * 2 ^ 52 \<le> 1029 * 2 ^ 52" using j8 by (intro mult_le_mono1) simp
      moreover have "?m - 2 ^ 52 \<le> 2 ^ 52" using M(2) by simp
      ultimately show ?thesis by linarith
    qed
    then have "int ((j + 1023) * 2 ^ 52 + (?m - 2 ^ 52)) \<le> int (1030 * 2 ^ 52 + 0xFE00000000000)" by (simp only: of_nat_le_iff)
    then show ?thesis unfolding v normal_value(6) [OF M] by simp
  qed
  then have "f64_clamp ?v 0 0x406FE00000000000 = ?v"
    using unit_constants(1,5) by (intro clamp_id) (auto simp: f64_less_def)
  then show ?thesis unfolding saturate_def by (simp only: byte_cast)
qed

end
