(* ===== verification/Images.thy ===== *)
theory Images
  imports Codecs_Spec Float_Ops
begin

text \<open>
  \<^verbatim>\<open>webdataset/src/images.rs\<close>: image specifications, the decoder that turns a picture into an image
  or a tensor, and the encoder.  The \<^verbatim>\<open>image\<close> crate (its pixel conversions, its readers and
  writers), libjpeg and the sharing of an image through \<^verbatim>\<open>Arc\<close> are the parameter
  \<open>image_crate\<close>; what the code computes itself (greyscale in fixed point, planar layout,
  scaling to and from floats) is modelled here on bits.
\<close>

unbundle bit_operations_syntax

section \<open>Specifications\<close>

datatype color_mode = Luma | Rgb | Rgba

definition channels :: "color_mode \<Rightarrow> nat" where
  "channels m = (case m of Luma \<Rightarrow> 1 | Rgb \<Rightarrow> 3 | Rgba \<Rightarrow> 4)"

datatype representation = AsImage | U8Hwc | F32Hwc | U8Chw | F32Chw

record image_spec =
  mode :: color_mode
  representation :: representation

definition is_tensor :: "image_spec \<Rightarrow> bool" where
  "is_tensor spec = (representation spec \<noteq> AsImage)"

definition imagespecs :: "(string \<times> color_mode \<times> representation) list" where
  "imagespecs =
    [(''l8'', Luma, U8Hwc), (''rgb8'', Rgb, U8Hwc), (''rgba8'', Rgba, U8Hwc),
     (''l'', Luma, F32Hwc), (''rgb'', Rgb, F32Hwc), (''rgba'', Rgba, F32Hwc),
     (''torchl8'', Luma, U8Chw), (''torchrgb8'', Rgb, U8Chw), (''torchrgba8'', Rgba, U8Chw),
     (''torchl'', Luma, F32Chw), (''torchrgb'', Rgb, F32Chw), (''torch'', Rgb, F32Chw),
     (''torchrgba'', Rgba, F32Chw),
     (''pill'', Luma, AsImage), (''pil'', Rgb, AsImage), (''pilrgb'', Rgb, AsImage),
     (''pilrgba'', Rgba, AsImage)]"

definition image_spec_parse :: "string \<Rightarrow> image_spec res" where
  "image_spec_parse spec =
     (case map_of imagespecs (to_ascii_lowercase spec) of
        Some (m, r) \<Rightarrow> Inr \<lparr>mode = m, representation = r\<rparr>
      | None \<Rightarrow> Inl (Value ''unknown imagespec''))"

section \<open>Images\<close>

text \<open>
  \<^verbatim>\<open>DynamicImage\<close>: the three 8-bit layouts the code builds and matches on, and the other layouts
  a reader may return, which the code only passes to the conversions of the crate.
\<close>
record pixels =
  img_width :: nat
  img_height :: nat
  img_bytes :: bytes

datatype dynamic_image = ImageLuma8 pixels | ImageRgb8 pixels | ImageRgba8 pixels | ImageOther nat

fun image_pixels :: "dynamic_image \<Rightarrow> pixels option" where
  "image_pixels (ImageLuma8 p) = Some p"
| "image_pixels (ImageRgb8 p) = Some p"
| "image_pixels (ImageRgba8 p) = Some p"
| "image_pixels (ImageOther n) = None"

datatype image_format = Jpeg | Png | Pnm | Tiff | Bmp | Gif | WebP | Tga | Qoi

record image_crate =
  to_rgb8 :: "dynamic_image \<Rightarrow> pixels"
  to_rgba8 :: "dynamic_image \<Rightarrow> pixels"
  from_raw :: "nat \<Rightarrow> nat \<Rightarrow> nat \<Rightarrow> bytes \<Rightarrow> pixels option"
  load_from_memory :: "bytes \<Rightarrow> dynamic_image res"
  write_to :: "image_format \<Rightarrow> dynamic_image \<Rightarrow> bytes res"
  libjpeg :: "(bytes \<Rightarrow> (nat \<times> nat \<times> bytes) res) option"
  arc_new :: "dynamic_image \<Rightarrow> nat"
  arc_get :: "nat \<Rightarrow> dynamic_image"

section \<open>Decoding\<close>

text \<open>The fixed-point luma of one pixel, in \<^verbatim>\<open>u32\<close>.\<close>
definition luma_601 :: "byte \<Rightarrow> byte \<Rightarrow> byte \<Rightarrow> byte" where
  "luma_601 r g b =
     ucast (drop_bit 16 ((ucast r :: 32 word) * 19595 + ucast g * 38470 + ucast b * 7471 + 0x8000))"

fun luma_pixels :: "bytes \<Rightarrow> bytes" where
  "luma_pixels (r # g # b # rest) = luma_601 r g b # luma_pixels rest"
| "luma_pixels _ = []"

definition to_luma_601 :: "image_crate \<Rightarrow> dynamic_image \<Rightarrow> pixels res" where
  "to_luma_601 ic img =
     (let rgb = to_rgb8 ic img; w = img_width rgb; h = img_height rgb in
      if 2 ^ 32 \<le> w * h then Inl (Panic ''attempt to multiply with overflow'')
      else
        (case from_raw ic 1 w h (luma_pixels (take (3 * (w * h)) (img_bytes rgb))) of
           None \<Rightarrow> Inl (Panic ''the buffer was sized from the dimensions'')
         | Some p \<Rightarrow> Inr p))"

text \<open>The three nested loops of \<^verbatim>\<open>to_chw\<close>, as the list of the steps \<open>(c, y, x)\<close> they make.\<close>
definition chw_steps :: "nat \<Rightarrow> nat \<Rightarrow> nat \<Rightarrow> (nat \<times> nat \<times> nat) list" where
  "chw_steps height width chans =
     concat (map (\<lambda>c. concat (map (\<lambda>y. map (\<lambda>x. (c, y, x)) [0..<width]) [0..<height])) [0..<chans])"

fun chw_loop :: "bytes \<Rightarrow> nat \<Rightarrow> nat \<Rightarrow> nat \<Rightarrow> (nat \<times> nat \<times> nat) list \<Rightarrow> bytes \<Rightarrow> bytes res" where
  "chw_loop hwc height width chans [] out = Inr out"
| "chw_loop hwc height width chans ((c, y, x) # steps) out =
     (let i = c * height * width + y * width + x; j = (y * width + x) * chans + c in
      if length hwc \<le> j \<or> length out \<le> i then Inl (Panic ''index out of bounds'')
      else chw_loop hwc height width chans steps (out[i := hwc ! j]))"

definition to_chw :: "bytes \<Rightarrow> nat \<Rightarrow> nat \<Rightarrow> nat \<Rightarrow> bytes res" where
  "to_chw hwc height width chans =
     chw_loop hwc height width chans (chw_steps height width chans) (replicate (length hwc) 0)"

definition converted :: "image_crate \<Rightarrow> color_mode \<Rightarrow> dynamic_image \<Rightarrow> dynamic_image res" where
  "converted ic m img =
     (case m of
        Luma \<Rightarrow> map_res ImageLuma8 (to_luma_601 ic img)
      | Rgb \<Rightarrow> Inr (ImageRgb8 (to_rgb8 ic img))
      | Rgba \<Rightarrow> Inr (ImageRgba8 (to_rgba8 ic img)))"

text \<open>The layout of the data and its shape.\<close>
definition laid_out :: "image_spec \<Rightarrow> pixels \<Rightarrow> (bytes \<times> nat list) res" where
  "laid_out spec p =
     (let w = img_width p; h = img_height p; c = channels (mode spec); hwc = img_bytes p in
      if c = 1 then Inr (hwc, [h, w])
      else
        (case representation spec of
           U8Hwc \<Rightarrow> Inr (hwc, [h, w, c])
         | F32Hwc \<Rightarrow> Inr (hwc, [h, w, c])
         | _ \<Rightarrow> map_res (\<lambda>d. (d, [c, h, w])) (to_chw hwc h w c)))"

definition pixels_to_value :: "image_spec \<Rightarrow> pixels \<Rightarrow> field_value res" where
  "pixels_to_value spec p =
     and_then (laid_out spec p)
       (\<lambda>(d, ds). map_res Tensor
          (if representation spec = U8Hwc \<or> representation spec = U8Chw then from_u8_shaped d ds
           else from_f32_shaped (map scale d) ds))"

definition to_value :: "image_crate \<Rightarrow> dynamic_image \<Rightarrow> image_spec \<Rightarrow> field_value res" where
  "to_value ic img spec =
     and_then (converted ic (mode spec) img)
       (\<lambda>conv. if representation spec = AsImage then Inr (Image (arc_new ic conv))
          else
            (case image_pixels conv of
               Some p \<Rightarrow> pixels_to_value spec p
             | None \<Rightarrow> Inl (Panic ''unreachable'')))"

definition IMAGE_EXTENSIONS :: "string list" where
  "IMAGE_EXTENSIONS =
    [''avif'', ''bmp'', ''dds'', ''exr'', ''ff'', ''gif'', ''hdr'', ''ico'', ''jfif'', ''jpe'', ''jpeg'', ''jpg'',
     ''pbm'', ''pgm'', ''pnm'', ''png'', ''ppm'', ''qoi'', ''tga'', ''tif'', ''tiff'', ''webp'']"

record image_handler =
  handler_spec :: image_spec
  claimed :: "string list"

definition image_handler_new :: "image_spec \<Rightarrow> image_handler" where
  "image_handler_new spec = \<lparr>handler_spec = spec, claimed = IMAGE_EXTENSIONS\<rparr>"

definition image_handler_parse :: "string \<Rightarrow> image_handler res" where
  "image_handler_parse spec = map_res image_handler_new (image_spec_parse spec)"

definition with_extensions :: "string list \<Rightarrow> image_handler \<Rightarrow> image_handler" where
  "with_extensions es h = h\<lparr>claimed := es\<rparr>"

definition load_jpeg :: "image_crate \<Rightarrow> (bytes \<Rightarrow> (nat \<times> nat \<times> bytes) res) \<Rightarrow> string \<Rightarrow> bytes \<Rightarrow> dynamic_image res" where
  "load_jpeg ic decompressor key bs =
     and_then (decode_err key (decompressor bs))
       (\<lambda>(w, h, px).
          map_res ImageRgb8
            (ok_or (Decode key ''libjpeg returned a buffer of the wrong size'')
               (from_raw ic 3 (w mod 2 ^ 32) (h mod 2 ^ 32) px)))"

definition load_image :: "image_crate \<Rightarrow> string \<Rightarrow> string \<Rightarrow> bytes \<Rightarrow> dynamic_image res" where
  "load_image ic key ext bs =
     (case libjpeg ic of
        Some decompressor \<Rightarrow>
          if ext \<in> set [''jpg'', ''jpeg'', ''jpe'', ''jfif''] then load_jpeg ic decompressor key bs
          else decode_err key (load_from_memory ic bs)
      | None \<Rightarrow> decode_err key (load_from_memory ic bs))"

definition image_decode :: "image_crate \<Rightarrow> image_handler \<Rightarrow> decode_handler" where
  "image_decode ic h key bs =
     (let ext = last_extension key in
      if ext \<notin> set (claimed h) then Inr Skipped
      else
        and_then (load_image ic key ext bs)
          (\<lambda>img. map_res Decoded (to_value ic img (handler_spec h))))"

section \<open>Encoding\<close>

definition format_for :: "string \<Rightarrow> image_format option" where
  "format_for ext =
     (if ext \<in> set [''jpg'', ''jpeg'', ''img'', ''image''] then Some Jpeg
      else if ext = ''png'' then Some Png
      else if ext \<in> set [''ppm'', ''pgm'', ''pbm'', ''pnm''] then Some Pnm
      else if ext \<in> set [''tif'', ''tiff''] then Some Tiff
      else if ext = ''bmp'' then Some Bmp
      else if ext = ''gif'' then Some Gif
      else if ext = ''webp'' then Some WebP
      else if ext = ''tga'' then Some Tga
      else if ext = ''qoi'' then Some Qoi
      else None)"

definition dimensions :: "string \<Rightarrow> nat list \<Rightarrow> (nat \<times> nat \<times> nat) res" where
  "dimensions ext ds =
     (case ds of
        [h, w] \<Rightarrow> Inr (h, w, 1)
      | [h, w, c] \<Rightarrow> Inr (h, w, c)
      | _ \<Rightarrow> Inl (Encode ext ''expected a 2- or 3-dimensional tensor''))"

definition tensor_pixels :: "string \<Rightarrow> tensor \<Rightarrow> bytes res" where
  "tensor_pixels ext t =
     and_then (to_f64_vec t)
       (\<lambda>vs. if is_float (dtype t) then
               (if list_ex out_of_range vs then Inl (Encode ext ''float image values must be in 0..1'')
                else Inr (map unscale vs))
             else Inr (map saturate vs))"

definition tensor_to_image :: "image_crate \<Rightarrow> string \<Rightarrow> tensor \<Rightarrow> dynamic_image res" where
  "tensor_to_image ic ext t =
     and_then (dimensions ext (shape t))
       (\<lambda>(height, width, chans). and_then (tensor_pixels ext t)
          (\<lambda>bs.
             let w = width mod 2 ^ 32; h = height mod 2 ^ 32 in
             if chans = 1 then
               ok_or (Encode ext ''tensor shape does not match its contents'') (map_option ImageLuma8 (from_raw ic 1 w h bs))
             else if chans = 3 then
               ok_or (Encode ext ''tensor shape does not match its contents'') (map_option ImageRgb8 (from_raw ic 3 w h bs))
             else if chans = 4 then
               ok_or (Encode ext ''tensor shape does not match its contents'') (map_option ImageRgba8 (from_raw ic 4 w h bs))
             else Inl (Encode ext ''cannot encode an image of that many channels'')))"

definition as_image :: "image_crate \<Rightarrow> string \<Rightarrow> field_value \<Rightarrow> dynamic_image res" where
  "as_image ic ext v =
     (case v of
        Image a \<Rightarrow> Inr (arc_get ic a)
      | Tensor t \<Rightarrow> tensor_to_image ic ext t
      | _ \<Rightarrow> Inl (Encode ext ''cannot encode as an image''))"

definition image_encode :: "image_crate \<Rightarrow> string \<Rightarrow> field_value \<Rightarrow> bytes res" where
  "image_encode ic ext v =
     (case format_for (last_extension ext) of
        None \<Rightarrow> Inl (Encode ext ''no image encoder'')
      | Some fmt \<Rightarrow>
          and_then (as_image ic ext v) (\<lambda>img. encode_err ext (write_to ic fmt img)))"

text \<open>The decoder of \<^verbatim>\<open>decode_images\<close>, and the encoder of a build with the \<^verbatim>\<open>image\<close> feature.\<close>

definition image_decoder :: "image_crate \<Rightarrow> codecs \<Rightarrow> string \<Rightarrow> decoder res" where
  "image_decoder ic cd spec = map_res (\<lambda>h. decoder_new cd [image_decode ic h]) (image_handler_parse spec)"

definition with_images :: "image_crate \<Rightarrow> codecs \<Rightarrow> codecs" where
  "with_images ic cd = cd\<lparr>image_write := image_encode ic\<rparr>"

end
