(* ===== verification/Images_Spec.thy ===== *)
theory Images_Spec
  imports Images
begin

text \<open>
  What \<^verbatim>\<open>images.rs\<close> promises: the greyscale arithmetic neither overflows nor leaves the range of its
  channels, the planar layout is the transposition of the interleaved one, and a tensor made
  from an image encodes back to the same pixels, through bytes or through floats.
\<close>

section \<open>Greyscale\<close>

lemma unat_drop_bit: "unat (drop_bit 16 w) = unat w div 65536" for w :: "32 word"
  by (simp add: drop_bit_eq_div unat_div_distrib)

lemma luma_601_exact: "unat (luma_601 r g b) = (unat r * 19595 + unat g * 38470 + unat b * 7471 + 32768) div 65536"
proof -
  let ?n = "unat r * 19595 + unat g * 38470 + unat b * 7471 + 32768"
  have b: "unat r \<le> 255" "unat g \<le> 255" "unat b \<le> 255"
    using unat_byte_less [of r] unat_byte_less [of g] unat_byte_less [of b] by linarith+
  have c: "(ucast w :: 32 word) = of_nat (unat w)" for w :: byte by (simp only: of_nat_unat)
  have s: "((ucast r :: 32 word) * 19595 + ucast g * 38470 + ucast b * 7471 + 0x8000) = of_nat ?n"
    unfolding c of_nat_add of_nat_mult of_nat_numeral by (rule refl)
  have n: "?n < 2 ^ 24" using b by simp
  then have "unat (of_nat ?n :: 32 word) = ?n" by (simp only: unat_of_nat) simp
  then have "unat (drop_bit 16 (of_nat ?n :: 32 word)) = ?n div 65536"
    by (simp only: unat_drop_bit)
  moreover have "?n div 65536 < 256" using n by (simp add: div_less_iff_less_mult)
  ultimately show ?thesis
    unfolding luma_601_def s unsigned_ucast_eq by (simp add: take_bit_eq_mod del: of_nat_add of_nat_mult)
qed

text \<open>The weights sum to \<^verbatim>\<open>65536\<close>: the result lies between the smallest and the largest channel.\<close>

lemma luma_601_between:
  "min (unat r) (min (unat g) (unat b)) \<le> unat (luma_601 r g b)"
  "unat (luma_601 r g b) \<le> max (unat r) (max (unat g) (unat b))"
proof -
  let ?lo = "min (unat r) (min (unat g) (unat b))" and ?hi = "max (unat r) (max (unat g) (unat b))"
  have "?lo * 65536 \<le> unat r * 19595 + unat g * 38470 + unat b * 7471 + 32768" by simp
  then show "?lo \<le> unat (luma_601 r g b)" unfolding luma_601_exact by (simp add: less_eq_div_iff_mult_less_eq)
  have "unat r * 19595 + unat g * 38470 + unat b * 7471 + 32768 < (?hi + 1) * 65536" by simp
  then show "?hi \<ge> unat (luma_601 r g b)"
    unfolding luma_601_exact by (metis Suc_eq_plus1 less_Suc_eq_le less_mult_imp_div_less)
qed

section \<open>Planar layout\<close>

lemma concat_upt: "concat (map (\<lambda>y. map (\<lambda>x. y * w + x) [0..<w]) [0..<h]) = [0..<h * w]"
proof (induction h)
  case (Suc h)
  have "map (\<lambda>x. h * w + x) [0..<w] = [h * w..<h * w + w]" using map_add_upt [of "h * w" w] by (simp add: add.commute)
  with Suc show ?case by (simp add: add.commute [of w] flip: upt_add_eq_append)
qed simp

definition chw_target :: "nat \<Rightarrow> nat \<Rightarrow> nat \<times> nat \<times> nat \<Rightarrow> nat" where
  "chw_target h w = (\<lambda>(c, y, x). c * h * w + y * w + x)"

definition chw_origin :: "nat \<Rightarrow> nat \<Rightarrow> nat \<times> nat \<times> nat \<Rightarrow> nat" where
  "chw_origin w n = (\<lambda>(c, y, x). (y * w + x) * n + c)"

lemma chw_targets: "map (chw_target h w) (chw_steps h w n) = [0..<n * (h * w)]"
proof -
  have "map (chw_target h w) (chw_steps h w n) =
      concat (map (\<lambda>c. map (\<lambda>i. c * (h * w) + i) (concat (map (\<lambda>y. map (\<lambda>x. y * w + x) [0..<w]) [0..<h]))) [0..<n])"
    by (simp add: chw_steps_def chw_target_def map_concat comp_def add.assoc mult.assoc)
  then show ?thesis by (simp add: concat_upt)
qed

lemma chw_loop_run:
  assumes "map (chw_target h w) steps = [k..<length out]" "k \<le> length out"
    and "\<And>s. s \<in> set steps \<Longrightarrow> chw_origin w n s < length hwc"
  shows "chw_loop hwc h w n steps out = Inr (take k out @ map (\<lambda>s. hwc ! chw_origin w n s) steps)"
  using assms
proof (induction steps arbitrary: k out)
  case (Cons s steps)
  obtain c y x where s: "s = (c, y, x)" by (cases s)
  from Cons.prems(1) have k: "k < length out" "chw_target h w s = k"
      "map (chw_target h w) steps = [Suc k..<length out]"
    by (cases "k < length out"; simp add: upt_rec)+
  have "chw_loop hwc h w n steps (out[k := hwc ! chw_origin w n s]) =
      Inr (take (Suc k) (out[k := hwc ! chw_origin w n s]) @ map (\<lambda>s. hwc ! chw_origin w n s) steps)"
    using Cons.prems(3) k by (intro Cons.IH) simp_all
  then show ?case
    using k Cons.prems(3) [of s]
    by (simp add: s chw_target_def chw_origin_def Let_def take_Suc_conv_app_nth)
qed (auto simp: eq_commute [of "[]"])

lemma digits_less: "a < A \<Longrightarrow> b < B \<Longrightarrow> a * B + b < A * (B :: nat)"
proof -
  assume "a < A" and b: "b < B"
  then have "Suc a * B \<le> A * B" by (intro mult_le_mono1) simp
  with b show ?thesis by simp
qed

lemma set_chw_steps: "set (chw_steps h w n) = {(c, y, x). c < n \<and> y < h \<and> x < w}"
  by (auto simp: chw_steps_def image_iff)

lemma chw_origin_less: "s \<in> set (chw_steps h w n) \<Longrightarrow> chw_origin w n s < h * w * n"
  by (auto simp: set_chw_steps chw_origin_def intro!: digits_less)

lemma chw_origin_onto: "i < h * w * n \<Longrightarrow> \<exists>s\<in>set (chw_steps h w n). chw_origin w n s = i"
proof -
  assume i: "i < h * w * n"
  then have n: "0 < n" and w: "0 < w" by (auto intro: Nat.gr0I)
  have "i div n < h * w" using i by (simp add: less_mult_imp_div_less)
  then have y: "i div n div w < h" by (simp add: less_mult_imp_div_less)
  have "(i mod n, i div n div w, i div n mod w) \<in> set (chw_steps h w n)"
    using n w y by (simp add: set_chw_steps)
  moreover have "chw_origin w n (i mod n, i div n div w, i div n mod w) = i"
    by (simp add: chw_origin_def)
  ultimately show ?thesis by blast
qed

lemma length_chw_steps: "length (chw_steps h w n) = h * w * n"
  using arg_cong [OF chw_targets [of h w n], of length] by (simp add: mult.commute)

lemma chw_origins: "mset (map (chw_origin w n) (chw_steps h w n)) = mset [0..<h * w * n]"
proof -
  let ?os = "map (chw_origin w n) (chw_steps h w n)"
  have "set ?os = {..<h * w * n}" using chw_origin_less chw_origin_onto by (force simp: image_iff)
  then have "distinct ?os" by (intro card_distinct) (simp add: length_chw_steps)
  then show ?thesis
    using \<open>set ?os = _\<close> by (subst set_eq_iff_mset_eq_distinct [symmetric]) auto
qed

definition planes :: "bytes \<Rightarrow> nat \<Rightarrow> nat \<Rightarrow> nat \<Rightarrow> bytes" where
  "planes hwc h w n = map (\<lambda>s. hwc ! chw_origin w n s) (chw_steps h w n)"

lemma to_chw_planes:
  assumes "length hwc = h * w * n"
  shows "to_chw hwc h w n = Inr (planes hwc h w n)"
proof -
  have "map (chw_target h w) (chw_steps h w n) = [0..<length (replicate (length hwc) (0 :: byte))]"
    using assms by (simp add: chw_targets mult.commute)
  from chw_loop_run [OF this, of n hwc] show ?thesis
    using chw_origin_less assms by (simp add: to_chw_def planes_def)
qed

lemma length_planes [simp]: "length (planes hwc h w n) = h * w * n"
  by (simp add: planes_def length_chw_steps)

lemma mset_planes: "length hwc = h * w * n \<Longrightarrow> mset (planes hwc h w n) = mset hwc"
proof -
  assume h: "length hwc = h * w * n"
  have "mset (planes hwc h w n) = image_mset ((!) hwc) (mset (map (chw_origin w n) (chw_steps h w n)))"
    by (simp add: planes_def multiset.map_comp comp_def)
  also have "\<dots> = mset (map ((!) hwc) [0..<length hwc])" by (simp only: chw_origins h) (simp only: mset_map)
  finally show ?thesis by (simp only: map_nth)
qed

lemma planes_nth:
  assumes "c < n" "y < h" "x < w"
  shows "planes hwc h w n ! (c * h * w + y * w + x) = hwc ! ((y * w + x) * n + c)"
proof -
  let ?ss = "chw_steps h w n" and ?i = "c * h * w + y * w + x"
  have "y * w + x < h * w" using assms by (intro digits_less)
  then have "c * (h * w) + (y * w + x) < n * (h * w)" using assms by (intro digits_less)
  then have i: "?i < n * (h * w)" by (simp add: algebra_simps)
  then have "chw_target h w (?ss ! ?i) = ?i"
    using arg_cong [OF chw_targets [of h w n], of "\<lambda>xs. xs ! ?i"] by (simp add: length_chw_steps algebra_simps)
  moreover have "inj_on (chw_target h w) (set ?ss)"
    using chw_targets [of h w n] by (metis distinct_map distinct_upt)
  moreover have "?ss ! ?i \<in> set ?ss" using i by (simp add: length_chw_steps algebra_simps)
  moreover have "(c, y, x) \<in> set ?ss" "chw_target h w (c, y, x) = ?i"
    using assms by (simp_all add: set_chw_steps chw_target_def)
  ultimately have "?ss ! ?i = (c, y, x)" by (metis inj_onD)
  then show ?thesis using i by (simp add: planes_def chw_origin_def length_chw_steps algebra_simps)
qed

section \<open>The image crate\<close>

definition pixels_ok :: "nat \<Rightarrow> pixels \<Rightarrow> bool" where
  "pixels_ok c p \<longleftrightarrow>
     img_width p < 2 ^ 32 \<and> img_height p < 2 ^ 32 \<and>
     length (img_bytes p) = img_width p * img_height p * c \<and> length (img_bytes p) < 2 ^ 63"

text \<open>
  The documented behaviour the code relies on: a conversion returns a buffer of the size its
  dimensions call for, and a buffer of that size is accepted as it is.
\<close>
definition crate_ok :: "image_crate \<Rightarrow> bool" where
  "crate_ok ic \<longleftrightarrow>
     (\<forall>img. pixels_ok 3 (to_rgb8 ic img)) \<and> (\<forall>img. pixels_ok 4 (to_rgba8 ic img)) \<and>
     (\<forall>p c. pixels_ok c p \<longrightarrow> from_raw ic c (img_width p) (img_height p) (img_bytes p) = Some p)"

lemma crate_okD:
  assumes "crate_ok ic"
  shows "pixels_ok 3 (to_rgb8 ic img)" "pixels_ok 4 (to_rgba8 ic img)"
    and "pixels_ok c p \<Longrightarrow> from_raw ic c (img_width p) (img_height p) (img_bytes p) = Some p"
  using assms by (auto simp: crate_ok_def)

lemma length_luma_pixels: "length bs = 3 * n \<Longrightarrow> length (luma_pixels bs) = n"
proof (induction bs arbitrary: n rule: luma_pixels.induct)
  case (1 r g b rest)
  then show ?case by (cases n) auto
qed auto

definition colours :: "color_mode \<Rightarrow> pixels \<Rightarrow> dynamic_image" where
  "colours m = (case m of Luma \<Rightarrow> ImageLuma8 | Rgb \<Rightarrow> ImageRgb8 | Rgba \<Rightarrow> ImageRgba8)"

lemma converted_ok:
  assumes "crate_ok ic" "img_width (to_rgb8 ic img) * img_height (to_rgb8 ic img) < 2 ^ 32"
  obtains p where "converted ic m img = Inr (colours m p)" "pixels_ok (channels m) p"
proof (cases m)
  case Luma
  let ?p = "to_rgb8 ic img"
  let ?q = "\<lparr>img_width = img_width ?p, img_height = img_height ?p, img_bytes = luma_pixels (img_bytes ?p)\<rparr>"
  have "length (img_bytes ?p) = 3 * (img_width ?p * img_height ?p)"
    using crate_okD(1) [OF assms(1), of img] by (simp add: pixels_ok_def)
  then have "length (luma_pixels (img_bytes ?p)) = img_width ?p * img_height ?p" "length (img_bytes ?p) \<le> 3 * (img_width ?p * img_height ?p)"
    using length_luma_pixels by simp_all
  moreover from this have "pixels_ok 1 ?q"
    using assms(2) crate_okD(1) [OF assms(1), of img] by (simp add: pixels_ok_def)
  ultimately have "converted ic m img = Inr (ImageLuma8 ?q)" "pixels_ok 1 ?q"
    using crate_okD(3) [OF assms(1), of 1 ?q] assms(2)
    by (simp_all add: converted_def Luma to_luma_601_def Let_def)
  then show ?thesis using that [of ?q] by (simp add: Luma colours_def channels_def)
next
  case Rgb
  then show ?thesis
    using that [of "to_rgb8 ic img"] crate_okD(1) [OF assms(1)] by (simp add: converted_def colours_def channels_def)
next
  case Rgba
  then show ?thesis
    using that [of "to_rgba8 ic img"] crate_okD(2) [OF assms(1)] by (simp add: converted_def colours_def channels_def)
qed

section \<open>Tensors of bytes and of floats\<close>

lemma shape_products:
  "h * w < 2 ^ 64 \<Longrightarrow> h < 2 ^ 64 \<Longrightarrow> shape_product [h, w] = Inr (h * w)"
  "h * w * c < 2 ^ 64 \<Longrightarrow> h < 2 ^ 64 \<Longrightarrow> 0 < c \<Longrightarrow> shape_product [h, w, c] = Inr (h * w * c)"
proof -
  show "h * w < 2 ^ 64 \<Longrightarrow> h < 2 ^ 64 \<Longrightarrow> shape_product [h, w] = Inr (h * w)"
    by (simp add: shape_product_def)
  assume "h * w * c < 2 ^ 64" "h < 2 ^ 64" "0 < c"
  moreover from this have "h * w \<le> h * w * c" by simp
  then have "h * w < 2 ^ 64" using \<open>h * w * c < 2 ^ 64\<close> by (rule le_less_trans)
  ultimately show "shape_product [h, w, c] = Inr (h * w * c)" by (simp add: shape_product_def)
qed

lemma u8_elements:
  assumes "shape_product ds = Inr (length bs)"
  shows "to_f64_vec \<lparr>dtype = U8, shape = ds, data = bs\<rparr> = Inr (map (\<lambda>b. int_to_f64 (int (unat b))) bs)"
proof -
  let ?t = "\<lparr>dtype = U8, shape = ds, data = bs\<rparr>"
  have "element_at ?t i = Inr (int_to_f64 (int (unat (bs ! i))))" if "i < length bs" for i
    using that by (simp add: element_at_def element_of_bytes_def Let_def Cons_nth_drop_Suc [symmetric])
  then have "collect_res (element_at ?t) [0..<length bs] = Inr (map (\<lambda>i. int_to_f64 (int (unat (bs ! i)))) [0..<length bs])"
    by (intro collect_res_all_Inr) simp
  also have "map (\<lambda>i. int_to_f64 (int (unat (bs ! i)))) [0..<length bs] = map (\<lambda>b. int_to_f64 (int (unat b))) bs"
    by (rule nth_equalityI) simp_all
  finally show ?thesis using assms by (simp add: to_f64_vec_def numel_def)
qed

lemma concat_chunk:
  "i < length vs \<Longrightarrow> (\<And>v. length (g v) = n) \<Longrightarrow> take n (drop (i * n) (concat (map g vs))) = g (vs ! i)"
proof (induction vs arbitrary: i)
  case (Cons v vs)
  then show ?case by (cases i) auto
qed simp

lemma f32_elements:
  assumes "shape_product ds = Inr (length vs)"
  shows "to_f64_vec \<lparr>dtype = F32, shape = ds, data = concat (map (\<lambda>v. le_bytes 4 (unat v)) vs)\<rparr> = Inr (map f32_to_f64 vs)"
proof -
  let ?d = "concat (map (\<lambda>v. le_bytes 4 (unat v)) vs)"
  let ?t = "\<lparr>dtype = F32, shape = ds, data = ?d\<rparr>"
  have len: "length ?d = length vs * 4" by (induction vs) simp_all
  have bits: "unat v < 256 ^ 4" for v :: "32 word"
  proof -
    have "unat v < 2 ^ LENGTH(32)" by (rule unsigned_less)
    then show ?thesis by simp
  qed
  have "element_at ?t i = Inr (f32_to_f64 (vs ! i))" if "i < length vs" for i
  proof -
    have "take 4 (drop (i * 4) ?d) = le_bytes 4 (unat (vs ! i))" using that by (intro concat_chunk) simp_all
    moreover have "4 + i * 4 \<le> length ?d" using that by (simp only: len)
    ultimately show ?thesis
      using from_le_le_bytes_id [OF bits] by (simp add: element_at_def element_of_bytes_def Let_def)
  qed
  then have "collect_res (element_at ?t) [0..<length vs] = Inr (map (\<lambda>i. f32_to_f64 (vs ! i)) [0..<length vs])"
    by (intro collect_res_all_Inr) simp
  also have "map (\<lambda>i. f32_to_f64 (vs ! i)) [0..<length vs] = map f32_to_f64 vs"
    by (rule nth_equalityI) simp_all
  finally show ?thesis using assms by (simp add: to_f64_vec_def numel_def)
qed

section \<open>From an image to a tensor and back\<close>

definition interleaved :: "image_spec \<Rightarrow> bool" where
  "interleaved spec \<longleftrightarrow> is_tensor spec \<and> (mode spec = Luma \<or> representation spec = U8Hwc \<or> representation spec = F32Hwc)"

definition image_shape :: "color_mode \<Rightarrow> pixels \<Rightarrow> nat list" where
  "image_shape m p = (if m = Luma then [img_height p, img_width p] else [img_height p, img_width p, channels m])"

lemma laid_out_interleaved:
  "interleaved spec \<Longrightarrow> laid_out spec p = Inr (img_bytes p, image_shape (mode spec) p)"
  by (cases "mode spec"; cases "representation spec")
     (simp_all add: interleaved_def is_tensor_def laid_out_def channels_def image_shape_def Let_def)

lemma image_shape_product:
  assumes "pixels_ok (channels m) p"
  shows "shape_product (image_shape m p) = Inr (length (img_bytes p))"
proof -
  have "length (img_bytes p) = img_height p * img_width p * channels m" "length (img_bytes p) < 2 ^ 64"
    "img_height p < 2 ^ 64"
    using assms by (simp_all add: pixels_ok_def mult.commute)
  then show ?thesis
    using shape_products [of "img_height p" "img_width p"]
    by (cases m) (simp_all add: image_shape_def channels_def)
qed

lemma dimensions_image:
  "dimensions ext (image_shape m p) = Inr (img_height p, img_width p, channels m)"
  by (cases m) (simp_all add: dimensions_def image_shape_def channels_def)

lemma pixels_back:
  assumes ic: "crate_ok ic" and p: "pixels_ok (channels m) p"
    and t: "shape t = image_shape m p" "tensor_pixels ext t = Inr (img_bytes p)"
  shows "as_image ic ext (Tensor t) = Inr (colours m p)"
proof -
  have "img_width p mod 2 ^ 32 = img_width p" "img_height p mod 2 ^ 32 = img_height p"
    using p by (simp_all add: pixels_ok_def)
  then show ?thesis
    using crate_okD(3) [OF ic p]
    by (cases m) (simp_all add: as_image_def tensor_to_image_def t dimensions_image colours_def channels_def Let_def)
qed

lemma interleaved_round:
  assumes ic: "crate_ok ic" and spec: "interleaved spec" and p: "pixels_ok (channels (mode spec)) p"
  shows "\<exists>t. pixels_to_value spec p = Inr (Tensor t) \<and> as_image ic ext (Tensor t) = Inr (colours (mode spec) p)"
proof -
  let ?sh = "image_shape (mode spec) p" and ?bs = "img_bytes p"
  note sh = image_shape_product [OF p]
  show ?thesis
  proof (cases "representation spec = U8Hwc \<or> representation spec = U8Chw")
    case True
    let ?t = "\<lparr>dtype = U8, shape = ?sh, data = ?bs\<rparr>"
    have "tensor_pixels ext ?t = Inr ?bs"
      by (simp only: tensor_pixels_def u8_elements [OF sh] and_then_simps)
         (simp only: is_float_def tensor.simps dtype.simps simp_thms if_False map_map comp_def saturate_byte map_ident)
    moreover have "pixels_to_value spec p = Inr (Tensor ?t)"
      using True by (simp add: pixels_to_value_def laid_out_interleaved [OF spec] from_u8_shaped_def sh)
    ultimately show ?thesis using pixels_back [OF ic p, of ?t] by simp
  next
    case False
    let ?vs = "map scale ?bs"
    let ?t = "\<lparr>dtype = F32, shape = ?sh, data = concat (map (\<lambda>v. le_bytes 4 (unat v)) ?vs)\<rparr>"
    have sh': "shape_product ?sh = Inr (length ?vs)" using sh by simp
    have "tensor_pixels ext ?t = Inr ?bs"
      by (simp only: tensor_pixels_def f32_elements [OF sh'] and_then_simps)
         (simp add: is_float_def list_ex_iff unscale_scale comp_def)
    moreover have "pixels_to_value spec p = Inr (Tensor ?t)"
      using False by (simp add: pixels_to_value_def laid_out_interleaved [OF spec] from_f32_shaped_def sh)
    ultimately show ?thesis using pixels_back [OF ic p, of ?t] by simp
  qed
qed

lemma image_round:
  assumes "crate_ok ic" "interleaved spec" "img_width (to_rgb8 ic img) * img_height (to_rgb8 ic img) < 2 ^ 32"
  shows "\<exists>v. to_value ic img spec = Inr v \<and> as_image ic ext v = converted ic (mode spec) img"
proof -
  from converted_ok [OF assms(1,3)] obtain p
    where c: "converted ic (mode spec) img = Inr (colours (mode spec) p)" and p: "pixels_ok (channels (mode spec)) p"
    by blast
  from interleaved_round [OF assms(1,2) p] obtain t where
    t: "pixels_to_value spec p = Inr (Tensor t)" "as_image ic ext (Tensor t) = Inr (colours (mode spec) p)" by blast
  have "image_pixels (colours (mode spec) p) = Some p" by (cases "mode spec") (simp_all add: colours_def)
  moreover have "representation spec \<noteq> AsImage" using assms(2) by (simp add: interleaved_def is_tensor_def)
  ultimately have "to_value ic img spec = Inr (Tensor t)" using t(1) by (simp add: to_value_def c)
  with c t(2) show ?thesis by auto
qed

section \<open>Properties\<close>

text \<open>Greyscale stays in range: the fixed-point luma of a pixel is the exact weighted mean rounded to
  nearest, between the smallest and the largest channel, without overflow of the 32-bit sum
  or truncation to a byte; a grey pixel is unchanged.\<close>
theorem luma_in_range:
  "unat (luma_601 r g b) = (unat r * 19595 + unat g * 38470 + unat b * 7471 + 32768) div 65536 \<and>
   min (unat r) (min (unat g) (unat b)) \<le> unat (luma_601 r g b) \<and>
   unat (luma_601 r g b) \<le> max (unat r) (max (unat g) (unat b)) \<and> luma_601 v v v = v"
proof -
  have "unat (luma_601 v v v) = unat v" using luma_601_between [of v v v] by simp
  then have "luma_601 v v v = v" by (simp only: word_unat_eq_iff)
  then show ?thesis using luma_601_exact luma_601_between by blast
qed

text \<open>The planar layout is a transposition: for a buffer of the size of its image the loops of
  to_chw stay in bounds and put the sample of each pixel and channel into the plane of the channel,
  each input byte once.\<close>
theorem planes_transpose:
  assumes "length hwc = h * w * n"
  shows "\<exists>out. to_chw hwc h w n = Inr out \<and> length out = length hwc \<and> mset out = mset hwc \<and>
    (\<forall>c<n. \<forall>y<h. \<forall>x<w. out ! (c * h * w + y * w + x) = hwc ! ((y * w + x) * n + c))"
  using to_chw_planes [OF assms] mset_planes [OF assms] planes_nth [of _ n _ h _ w hwc] assms by auto

theorem planes_transpose_witness:
  "to_chw [1, 2, 3, 4, 5, 6] 1 2 3 = Inr [1, 4, 2, 5, 3, 6] \<and>
   (\<exists>out. to_chw [1, 2, 3, 4, 5, 6] 1 2 3 = Inr out \<and> mset out = mset [1, 2, 3, 4, 5, 6])"
proof -
  have "to_chw [1, 2, 3, 4, 5, 6] 1 2 3 = Inr [1, 4, 2, 5, 3, 6]"
    by (simp add: to_chw_def chw_steps_def upt_rec eval_nat_numeral)
  then show ?thesis using planes_transpose [of "[1, 2, 3, 4, 5, 6]" 1 2 3] by auto
qed

text \<open>C31: an image survives the trip through a tensor: for an interleaved specification, of bytes or of
  floats, the tensor decoded from an image encodes back to exactly the converted pixels.\<close>
theorem image_tensor_round_trip:
  assumes "crate_ok ic" "interleaved spec" "img_width (to_rgb8 ic img) * img_height (to_rgb8 ic img) < 2 ^ 32"
  shows "\<exists>v. to_value ic img spec = Inr v \<and> as_image ic ext v = converted ic (mode spec) img"
  by (rule image_round [OF assms])

definition demo_crate :: image_crate where
  "demo_crate =
     \<lparr>to_rgb8 = (\<lambda>img. \<lparr>img_width = 1, img_height = 1, img_bytes = [255, 0, 7]\<rparr>),
      to_rgba8 = (\<lambda>img. \<lparr>img_width = 1, img_height = 1, img_bytes = [255, 0, 7, 255]\<rparr>),
      from_raw = (\<lambda>c w h bs. if w * h * c \<le> length bs then Some \<lparr>img_width = w, img_height = h, img_bytes = bs\<rparr> else None),
      load_from_memory = (\<lambda>bs. Inr (ImageOther 0)), write_to = (\<lambda>f img. Inr []), libjpeg = None,
      arc_new = (\<lambda>img. 0), arc_get = (\<lambda>a. ImageOther 0)\<rparr>"

lemma demo_crate_ok: "crate_ok demo_crate"
  by (simp add: crate_ok_def demo_crate_def pixels_ok_def)

theorem image_tensor_round_trip_witness:
  "\<exists>v. to_value demo_crate (ImageOther 0) \<lparr>mode = Rgb, representation = F32Hwc\<rparr> = Inr v \<and>
     as_image demo_crate ''png'' v = Inr (ImageRgb8 \<lparr>img_width = 1, img_height = 1, img_bytes = [255, 0, 7]\<rparr>)"
proof -
  have "interleaved \<lparr>mode = Rgb, representation = F32Hwc\<rparr>" by (simp add: interleaved_def is_tensor_def)
  moreover have "img_width (to_rgb8 demo_crate (ImageOther 0)) * img_height (to_rgb8 demo_crate (ImageOther 0)) < 2 ^ 32"
    by (simp add: demo_crate_def)
  ultimately show ?thesis
    using image_tensor_round_trip [OF demo_crate_ok, of "\<lparr>mode = Rgb, representation = F32Hwc\<rparr>" "ImageOther 0" "''png''"]
    by (simp add: converted_def demo_crate_def)
qed

section \<open>Through the field codecs\<close>

text \<open>A lossless format, and a conversion that leaves a picture of the right layout alone.\<close>

definition lossless :: "image_crate \<Rightarrow> image_format \<Rightarrow> bool" where
  "lossless ic fmt \<longleftrightarrow>
     (\<forall>img bs. write_to ic fmt img = Inr bs \<longrightarrow> load_from_memory ic bs = Inr img) \<and>
     (\<forall>p. pixels_ok 3 p \<longrightarrow> to_rgb8 ic (ImageRgb8 p) = p)"

lemma png_names:
  "last_extension ''png'' = ''png''" "gz_key ''png'' = None" "format_of ''png'' = FOther" "format_for ''png'' = Some Png"
  "''png'' \<in> set IMAGE_EXTENSIONS"
  by (code_simp, code_simp, code_simp, code_simp, code_simp)

lemma png_field_round:
  assumes ic: "crate_ok ic" "lossless ic Png" and spec: "image_spec_parse s = Inr sp" "interleaved sp" "mode sp = Rgb"
    and v: "to_value ic img sp = Inr v" and d: "image_decoder ic cd s = Inr d"
    and bs: "encode_value (with_images ic cd) ''png'' v = Inr bs"
  shows "decode_field d ''png'' bs = Inr v"
proof -
  let ?p = "to_rgb8 ic img"
  have p: "pixels_ok (channels (mode sp)) ?p" using crate_okD(1) [OF ic(1)] by (simp add: spec(3) channels_def)
  from interleaved_round [OF ic(1) spec(2) p] obtain t where
    t: "pixels_to_value sp ?p = Inr (Tensor t)" "as_image ic ''png'' (Tensor t) = Inr (ImageRgb8 ?p)"
    by (auto simp: spec(3) colours_def)
  have rep: "representation sp \<noteq> AsImage" using spec(2) by (simp add: interleaved_def is_tensor_def)
  have val: "to_value ic img' sp = pixels_to_value sp (to_rgb8 ic img')" for img'
    using rep by (simp add: to_value_def spec(3) converted_def)
  have vt: "v = Tensor t" using v by (simp add: val t(1))
  have "write_to ic Png (ImageRgb8 ?p) = Inr bs"
  proof (cases "write_to ic Png (ImageRgb8 ?p)")
    case (Inl e)
    then show ?thesis
      using bs t(2)
      by (cases e) (simp_all add: encode_value_def encode_fallback_def with_images_def image_encode_def vt png_names encode_err_def)
  next
    case (Inr a)
    then show ?thesis
      using bs t(2)
      by (simp add: encode_value_def encode_fallback_def with_images_def image_encode_def vt png_names encode_err_def)
  qed
  then have load: "load_from_memory ic bs = Inr (ImageRgb8 ?p)" using ic(2) by (simp add: lossless_def)
  have same: "to_rgb8 ic (ImageRgb8 ?p) = ?p" using ic(2) crate_okD(1) [OF ic(1)] by (simp add: lossless_def)
  have h: "handlers d = gz_filter cd # image_decode ic (image_handler_new sp) # [basic_handlers cd]"
    using d by (auto simp: image_decoder_def image_handler_parse_def spec(1) decoder_new_def)
  have "load_image ic ''png'' ''png'' bs = Inr (ImageRgb8 ?p)"
    by (cases "libjpeg ic") (simp_all add: load_image_def load decode_err_def)
  then have "image_decode ic (image_handler_new sp) ''png'' bs = Inr (Decoded v)"
    by (simp add: image_decode_def image_handler_new_def png_names val same t(1) vt)
  moreover have "gz_filter cd ''png'' bs = Inr Skipped" by (simp add: gz_filter_def png_names)
  ultimately have "rewrite_loop (Suc n) (handlers d) ''png'' bs = Inr v" for n by (simp add: h)
  from this [of 15] show ?thesis by (simp add: decode_field_def)
qed


definition dot :: "bytes \<Rightarrow> pixels" where
  "dot bs = \<lparr>img_width = 1, img_height = 1, img_bytes = bs\<rparr>"

definition dot_crate :: image_crate where
  "dot_crate = demo_crate
     \<lparr>to_rgb8 := (\<lambda>img. case img of ImageRgb8 p \<Rightarrow> if pixels_ok 3 p then p else dot [1, 2, 3] | _ \<Rightarrow> dot [1, 2, 3]),
      write_to := (\<lambda>f img.
        case img of
          ImageRgb8 p \<Rightarrow> if p = dot (img_bytes p) then Inr (img_bytes p) else Inl (Value ''not a dot'')
        | _ \<Rightarrow> Inl (Value ''not a dot'')),
      load_from_memory := (\<lambda>bs. Inr (ImageRgb8 (dot bs)))\<rparr>"

lemma dot_crate_ok: "crate_ok dot_crate" "lossless dot_crate Png"
  by (auto simp: crate_ok_def lossless_def dot_crate_def demo_crate_def pixels_ok_def dot_def
      split: dynamic_image.splits if_splits)


text \<open>A planar tensor does not come back: the encoder reads every tensor of three dimensions as interleaved.\<close>

lemma planar_not_interleaved:
  "tensor_to_image demo_crate ext \<lparr>dtype = U8, shape = [3, 1, 1], data = [255, 0, 7]\<rparr> =
     Inr (ImageLuma8 \<lparr>img_width = 1, img_height = 3, img_bytes = [255, 0, 7]\<rparr>)"
proof -
  have "shape_product [3, 1, 1] = Inr (length [255, 0, 7 :: byte])" by (simp add: shape_product_def)
  from u8_elements [OF this]
  have "tensor_pixels ext \<lparr>dtype = U8, shape = [3, 1, 1], data = [255, 0, 7]\<rparr> = Inr (map (\<lambda>b. saturate (int_to_f64 (int (unat b)))) [255, 0, 7 :: byte])"
    by (simp only: tensor_pixels_def and_then_simps is_float_def tensor.simps dtype.simps simp_thms if_False map_map comp_def)
  then have "tensor_pixels ext \<lparr>dtype = U8, shape = [3, 1, 1], data = [255, 0, 7]\<rparr> = Inr [255, 0, 7]"
    by (simp only: saturate_byte list.map)
  then show ?thesis by (simp add: tensor_to_image_def dimensions_def demo_crate_def)
qed

text \<open>A NaN passes the range check and is stored as black.\<close>

lemma nan_encodes_black:
  assumes "f64_nan v"
  shows "\<not> out_of_range v" "unscale v = 0"
proof -
  show "\<not> out_of_range v" using assms by (simp add: out_of_range_def f64_less_def)
  have c: "f64_clamp v 0 0x3FF0000000000000 = v" using assms by (intro clamp_id) (simp_all add: f64_less_def)
  have n: "f64_nan 0x7FF8000000000000" by (simp add: f64_nan_def f64_exp_def f64_mant_def)
  have "f64_mul v 0x406FE00000000000 = 0x7FF8000000000000" using assms by (simp add: f64_mul_def)
  moreover have "f64_round 0x7FF8000000000000 = 0x7FF8000000000000" using n by (simp add: f64_round_def)
  moreover have "f64_to_u8 0x7FF8000000000000 = 0" using n by (simp add: f64_to_u8_def f64_to_i64_def)
  ultimately show "unscale v = 0" unfolding unscale_def c by simp
qed

text \<open>The product of the dimensions is a 32-bit product, although it is only a capacity.\<close>

lemma large_greyscale_panics:
  "2 ^ 32 \<le> img_width (to_rgb8 ic img) * img_height (to_rgb8 ic img) \<Longrightarrow>
   to_luma_601 ic img = Inl (Panic ''attempt to multiply with overflow'')"
  by (simp add: to_luma_601_def Let_def)

end
