(* ===== verification/Image_Datasets.thy ===== *)
theory Image_Datasets
  imports Images_Spec Asynch_Dataset
begin

text \<open>
  \<^verbatim>\<open>decode_images\<close> of \<^verbatim>\<open>webdataset/src/dataset.rs\<close> and of
  \<^verbatim>\<open>asynch/dataset.rs\<close>: the image decoder appended to a dataset.  A specification that cannot
  be parsed fails before anything is read, and the two kinds of dataset decode alike.
\<close>

definition dataset_decode_images ::
  "image_crate \<Rightarrow> codecs \<Rightarrow> string \<Rightarrow> 'g dataset \<Rightarrow> 'g dataset res" where
  "dataset_decode_images ic cd spec d = map_res (\<lambda>dc. dataset_decode dc d) (image_decoder ic cd spec)"

definition async_dataset_decode_images ::
  "image_crate \<Rightarrow> codecs \<Rightarrow> string \<Rightarrow> 'g async_dataset \<Rightarrow> 'g async_dataset res" where
  "async_dataset_decode_images ic cd spec d = map_res (\<lambda>dc. async_dataset_decode dc d) (image_decoder ic cd spec)"

lemma blocking_decode_images:
  "dataset_decode_images ic cd spec (blocking d) = map_res blocking (async_dataset_decode_images ic cd spec d)"
  by (cases "image_decoder ic cd spec")
     (simp_all add: dataset_decode_images_def async_dataset_decode_images_def blocking_methods)

lemma decode_images_rejects:
  assumes "image_spec_parse spec = Inl e"
  shows "dataset_decode_images ic cd spec d = Inl e"
  using assms by (simp add: dataset_decode_images_def image_decoder_def image_handler_parse_def)

text \<open>The asynchronous dataset that decodes images delivers what the blocking one delivers.\<close>

lemma async_images_agree:
  assumes rt: "agreeing_runtimes rt art" and calm: "list_all calm_stage (ad_stages d)"
    and h: "\<And>e. ad_handler d e = Continue" and r: "ad_repetitions d \<noteq> Times 0"
    and d': "async_dataset_decode_images ic cd spec d = Inr d'"
  shows "\<exists>b. dataset_decode_images ic cd spec (blocking d) = Inr b \<and>
    async_dataset_items rt art wanted d' = dataset_items rt wanted b"
proof -
  obtain dc where dc: "d' = async_dataset_decode dc d"
    using d' by (auto simp: async_dataset_decode_images_def map_res_Inr_iff)
  have "list_all calm_stage (ad_stages d')" "ad_repetitions d' \<noteq> Times 0"
    using calm h r by (simp_all add: dc async_dataset_decode_def with_async_stage_def)
  from async_dataset_blocking [OF rt this] show ?thesis
    using d' by (auto simp: blocking_decode_images)
qed

end
