(* ===== verification/Commands.thy ===== *)
theory Commands
  imports Dataset Writer
begin

text \<open>
  \<^verbatim>\<open>webdataset-cli\<close>: the subcommands of \<^verbatim>\<open>wds\<close>, over the dataset and the writers modelled elsewhere.
  Parsing the command line is the \<^verbatim>\<open>clap\<close> crate's; the tables and the JSON of \<^verbatim>\<open>info\<close> and
  \<^verbatim>\<open>ls\<close> are printed from the values computed here.  A directory is a tree, writing
  files is a list of paths with their contents, and what the disk refuses is a parameter.
\<close>

section \<open>Shared by the commands (main.rs)\<close>

definition open_shards :: "'g surroundings \<Rightarrow> string list \<Rightarrow> nat option \<Rightarrow> 'g dataset res option" where
  "open_shards su shards bound =
     (if shards = [] then Some (Inl (Value ''no shards given''))
      else
        map_option (map_res (\<lambda>d. case bound of Some n \<Rightarrow> dataset_take n d | None \<Rightarrow> d))
          (build su ((builder_new (Patterns shards))\<lparr>empty_check := False\<rparr>)))"

text \<open>\<^verbatim>\<open>dataset.iter()\<close>, read to its end.\<close>
definition cli_items :: "'g runtime \<Rightarrow> 'g dataset \<Rightarrow> sample res list" where
  "cli_items rt d = dataset_items rt (length (fst (run_once (dataset_pipeline rt d) (ds_stages d)))) d"

definition is_char_boundary :: "string \<Rightarrow> nat \<Rightarrow> bool" where
  "is_char_boundary s i =
     (i = 0 \<or> i = length s \<or> (i < length s \<and> \<not> cont_byte (of_char (s ! i))))"

fun boundary_before :: "string \<Rightarrow> nat \<Rightarrow> nat" where
  "boundary_before s 0 = 0"
| "boundary_before s (Suc n) = (if is_char_boundary s (Suc n) then Suc n else boundary_before s n)"

definition char_boundary_at_or_before :: "string \<Rightarrow> nat \<Rightarrow> nat" where
  "char_boundary_at_or_before s i = boundary_before s (min i (length s))"

text \<open>\<open>dbg_str\<close> and \<open>dbg_value\<close> stand for \<^verbatim>\<open>{:?}\<close> of a string and of another value.\<close>
definition describe_value :: "(string \<Rightarrow> string) \<Rightarrow> (field_value \<Rightarrow> string) \<Rightarrow> field_value \<Rightarrow> string" where
  "describe_value dbg_str dbg_value v =
     (case v of
        Bytes b \<Rightarrow> show_nat (length b) @ '' bytes''
      | Text s \<Rightarrow>
          if length s \<le> 40 then dbg_str s
          else dbg_str (take (char_boundary_at_or_before s 37) s) @ ''...''
      | Tensor t \<Rightarrow> Tensors.long_name (dtype t) @ '' ['' @ join_with '', '' (map show_nat (shape t)) @ '']''
      | _ \<Rightarrow> dbg_value v)"

definition sample_bytes :: "sample \<Rightarrow> nat" where
  "sample_bytes s = sum_list (map (\<lambda>(n, v). case value_bytes v of Some b \<Rightarrow> length b | None \<Rightarrow> 0) s)"

text \<open>The fields the commands show: those whose name does not start with two underscores.\<close>
definition shown_fields :: "sample \<Rightarrow> (string \<times> field_value) list" where
  "shown_fields s = filter (\<lambda>(n, v). \<not> starts_with ''__'' n) s"

section \<open>ls\<close>

definition char_count :: "string \<Rightarrow> nat" where
  "char_count s = length (filter (\<lambda>c. \<not> cont_byte (of_char c)) s)"

definition pad_right :: "nat \<Rightarrow> string \<Rightarrow> string" where
  "pad_right w s = s @ replicate (w - char_count s) CHR '' ''"

definition ls_lines :: "(field_value \<Rightarrow> string) \<Rightarrow> bool \<Rightarrow> sample \<Rightarrow> string list" where
  "ls_lines descr long s =
     (let key = (case sample_key s of Some k \<Rightarrow> k | None \<Rightarrow> ''<no key>'') in
      if \<not> long then [key @ [char_of (9 :: nat)] @ join_with '' '' (field_names s)]
      else
        (key @ ''  ('' @ show_nat (sample_bytes s) @ '' bytes)'') #
        map (\<lambda>(n, v). ''    '' @ pad_right 20 n @ '' '' @ descr v) (shown_fields s))"

text \<open>The lines printed before the first error, and how the command ends.\<close>
fun ls_loop :: "(field_value \<Rightarrow> string) \<Rightarrow> bool \<Rightarrow> sample res list \<Rightarrow> string list \<Rightarrow> string list \<times> unit res" where
  "ls_loop descr long [] out = (out, Inr ())"
| "ls_loop descr long (Inl e # xs) out = (out, Inl e)"
| "ls_loop descr long (Inr s # xs) out = ls_loop descr long xs (out @ ls_lines descr long s)"

section \<open>info\<close>

text \<open>\<^verbatim>\<open>BTreeMap::entry(k).or_default()\<close>, then a change of the entry: a list sorted by key.\<close>
fun with_entry :: "string \<Rightarrow> 'v \<Rightarrow> ('v \<Rightarrow> 'v) \<Rightarrow> (string \<times> 'v) list \<Rightarrow> (string \<times> 'v) list" where
  "with_entry k d f [] = [(k, f d)]"
| "with_entry k d f ((a, v) # m) =
     (if k = a then (a, f v) # m
      else if k < a then (k, f d) # (a, v) # m
      else (a, v) # with_entry k d f m)"

record field_stats =
  stat_count :: nat
  stat_bytes :: nat

record summary =
  sum_samples :: nat
  sum_bytes :: nat
  sum_shards :: "(string \<times> nat) list"
  sum_fields :: "(string \<times> field_stats) list"

definition summary_new :: summary where
  "summary_new = \<lparr>sum_samples = 0, sum_bytes = 0, sum_shards = [], sum_fields = []\<rparr>"

definition tally :: "string \<times> field_value \<Rightarrow> (string \<times> field_stats) list \<Rightarrow> (string \<times> field_stats) list" where
  "tally nv =
     with_entry (fst nv) \<lparr>stat_count = 0, stat_bytes = 0\<rparr>
       (\<lambda>st. \<lparr>stat_count = stat_count st + 1,
              stat_bytes = stat_bytes st + (case value_bytes (snd nv) of Some b \<Rightarrow> length b | None \<Rightarrow> 0)\<rparr>)"

definition summarise :: "sample \<Rightarrow> summary \<Rightarrow> summary" where
  "summarise s m =
     \<lparr>sum_samples = sum_samples m + 1, sum_bytes = sum_bytes m + sample_bytes s,
      sum_shards =
        (case sample_url s of Some u \<Rightarrow> with_entry u 0 Suc (sum_shards m) | None \<Rightarrow> sum_shards m),
      sum_fields = fold tally (shown_fields s) (sum_fields m)\<rparr>"

fun info_loop :: "sample res list \<Rightarrow> summary \<Rightarrow> summary res" where
  "info_loop [] m = Inr m"
| "info_loop (Inl e # xs) m = Inl e"
| "info_loop (Inr s # xs) m = info_loop xs (summarise s m)"

text \<open>A slice of the text from a boundary; the subtraction is checked.\<close>
definition shorten :: "string \<Rightarrow> nat \<Rightarrow> string res" where
  "shorten s w =
     (if length s \<le> w then Inr s
      else if w < 3 then Inl (Panic ''attempt to subtract with overflow'')
      else
        (case find_idx (is_char_boundary s) [length s - (w - 3)..<Suc (length s)] of
           Some k \<Rightarrow> Inr (''...'' @ drop (length s - (w - 3) + k) s)
         | None \<Rightarrow> Inr ''...''))"

section \<open>cat\<close>

fun cat_loop ::
  "sinks \<Rightarrow> (nat \<Rightarrow> nat) \<Rightarrow> string list \<Rightarrow> sample res list \<Rightarrow> nat \<Rightarrow> tar_writer \<Rightarrow> nat res \<times> tar_writer" where
  "cat_loop sk clock required [] written w = (Inr written, w)"
| "cat_loop sk clock required (Inl e # xs) written w = (Inl e, w)"
| "cat_loop sk clock required (Inr s # xs) written w =
     (if \<not> list_all (\<lambda>f. contains_key f s) required then cat_loop sk clock required xs written w
      else
        (case tar_write sk (clock written) s w of
           (Inl e, w) \<Rightarrow> (Inl e, w)
         | (Inr n, w) \<Rightarrow> cat_loop sk clock required xs (written + 1) w))"

definition cat_items ::
  "sinks \<Rightarrow> (nat \<Rightarrow> nat) \<Rightarrow> string \<Rightarrow> string list \<Rightarrow> sample res list \<Rightarrow> (nat \<times> (string \<times> out_member list) list) res" where
  "cat_items sk clock output required items =
     and_then (tar_writer_create sk output)
       (\<lambda>w. case cat_loop sk clock required items 0 w of
          (Inl e, w) \<Rightarrow> Inl e
        | (Inr n, w) \<Rightarrow> map_res (Pair n) (fst (tar_close sk w)))"

definition cat_run ::
  "'g surroundings \<Rightarrow> 'g runtime \<Rightarrow> sinks \<Rightarrow> (nat \<Rightarrow> nat) \<Rightarrow> string list \<Rightarrow> string \<Rightarrow> nat option \<Rightarrow> string list \<Rightarrow>
   (nat \<times> (string \<times> out_member list) list) res option" where
  "cat_run su rt sk clock shards output bound required =
     map_option (\<lambda>r. and_then r (\<lambda>d. cat_items sk clock output required (cli_items rt d)))
       (open_shards su shards bound)"

section \<open>split\<close>

fun write_items ::
  "sinks \<Rightarrow> (nat \<Rightarrow> nat) \<Rightarrow> nat \<Rightarrow> sample res list \<Rightarrow> shard_writer \<Rightarrow> unit res \<times> shard_writer" where
  "write_items sk clock i [] w = (Inr (), w)"
| "write_items sk clock i (Inl e # xs) w = (Inl e, w)"
| "write_items sk clock i (Inr s # xs) w =
     (case shard_write sk (clock i) s w of
        (Inl e, w) \<Rightarrow> (Inl e, w)
      | (Inr _, w) \<Rightarrow> write_items sk clock (Suc i) xs w)"

text \<open>The counts that are reported are read before the writer is closed.\<close>
definition finish_writer :: "sinks \<Rightarrow> unit res \<times> shard_writer \<Rightarrow> (nat \<times> nat) res \<times> shard_writer" where
  "finish_writer sk rw =
     (case rw of
        (Inl e, w) \<Rightarrow> (Inl e, w)
      | (Inr _, w) \<Rightarrow>
          (case shard_close sk w of
             (Inl e, w') \<Rightarrow> (Inl e, w')
           | (Inr _, w') \<Rightarrow> (Inr (writer_total w, shard_count w), w')))"

definition split_stream ::
  "(nat \<Rightarrow> 'g \<Rightarrow> nat \<times> 'g) \<Rightarrow> 'g \<Rightarrow> nat option \<Rightarrow> sample res list \<Rightarrow> sample res list" where
  "split_stream draw g shuffle items =
     (case shuffle of
        Some width \<Rightarrow> drain (Suc (length items)) (shuffle_next draw) (shuffled items width g)
      | None \<Rightarrow> items)"

definition split_items ::
  "sinks \<Rightarrow> (nat \<Rightarrow> nat) \<Rightarrow> string \<Rightarrow> nat \<Rightarrow> nat \<Rightarrow> sample res list \<Rightarrow> ((nat \<times> nat) res \<times> shard_writer) res" where
  "split_items sk clock output mc ms items =
     map_res
       (\<lambda>w. finish_writer sk (write_items sk clock 0 items (with_max_size ms (with_max_count mc w))))
       (shard_writer_new output)"

definition split_run ::
  "'g surroundings \<Rightarrow> 'g runtime \<Rightarrow> sinks \<Rightarrow> (nat \<Rightarrow> nat) \<Rightarrow> string list \<Rightarrow> string \<Rightarrow> nat \<Rightarrow> nat \<Rightarrow>
   nat option \<Rightarrow> 'g \<Rightarrow> nat option \<Rightarrow> ((nat \<times> nat) res \<times> shard_writer) res option" where
  "split_run su rt sk clock shards output mc ms shuffle g bound =
     map_option
       (\<lambda>r. and_then r (\<lambda>d. split_items sk clock output mc ms (split_stream (rt_draw rt) g shuffle (cli_items rt d))))
       (open_shards su shards bound)"

section \<open>extract\<close>

record output_disk =
  mkdir_fails :: "string \<Rightarrow> error option"
  write_fails :: "string \<Rightarrow> bytes \<Rightarrow> error option"

text \<open>\<^verbatim>\<open>Path::join\<close> and \<^verbatim>\<open>Path::parent\<close>.\<close>
definition path_join :: "string \<Rightarrow> string \<Rightarrow> string" where
  "path_join out rel =
     (if starts_with ''/'' rel then rel
      else if out = [] \<or> ends_with ''/'' out then out @ rel
      else out @ ''/'' @ rel)"

definition path_parent :: "string \<Rightarrow> string" where
  "path_parent p =
     (case rfind_idx ((=) CHR ''/'') p of None \<Rightarrow> [] | Some 0 \<Rightarrow> ''/'' | Some (Suc i) \<Rightarrow> take (Suc i) p)"

fun extract_fields ::
  "output_disk \<Rightarrow> string \<Rightarrow> string list \<Rightarrow> string \<Rightarrow> (string \<times> field_value) list \<Rightarrow> nat \<Rightarrow> (string \<times> bytes) list \<Rightarrow>
   nat res \<times> (string \<times> bytes) list" where
  "extract_fields dk out wanted key [] written fs = (Inr written, fs)"
| "extract_fields dk out wanted key ((name, v) # es) written fs =
     (if wanted \<noteq> [] \<and> name \<notin> set wanted then extract_fields dk out wanted key es written fs
      else
        (case expect_bytes v of
           Inl e \<Rightarrow> (Inl e, fs)
         | Inr bs \<Rightarrow>
             (let path = path_join out (key @ ''.'' @ name) in
              case mkdir_fails dk (path_parent path) of
                Some e \<Rightarrow> (Inl e, fs)
              | None \<Rightarrow>
                  (case write_fails dk path bs of
                     Some e \<Rightarrow> (Inl (Context ''writing'' e), fs)
                   | None \<Rightarrow> extract_fields dk out wanted key es (written + 1) (fs @ [(path, bs)])))))"

fun extract_loop ::
  "output_disk \<Rightarrow> string \<Rightarrow> string list \<Rightarrow> sample res list \<Rightarrow> nat \<Rightarrow> (string \<times> bytes) list \<Rightarrow> nat res \<times> (string \<times> bytes) list" where
  "extract_loop dk out wanted [] written fs = (Inr written, fs)"
| "extract_loop dk out wanted (Inl e # xs) written fs = (Inl e, fs)"
| "extract_loop dk out wanted (Inr s # xs) written fs =
     (case sample_key s of
        None \<Rightarrow> (Inl (Value ''sample has no __key__''), fs)
      | Some key \<Rightarrow>
          (case extract_fields dk out wanted key (shown_fields s) written fs of
             (Inl e, fs) \<Rightarrow> (Inl e, fs)
           | (Inr n, fs) \<Rightarrow> extract_loop dk out wanted xs n fs))"

definition extract_run ::
  "'g surroundings \<Rightarrow> 'g runtime \<Rightarrow> output_disk \<Rightarrow> string list \<Rightarrow> string \<Rightarrow> nat option \<Rightarrow> string list \<Rightarrow>
   (nat res \<times> (string \<times> bytes) list) option" where
  "extract_run su rt dk shards out bound wanted =
     map_option
       (\<lambda>r. case r of
          Inl e \<Rightarrow> (Inl e, [])
        | Inr d \<Rightarrow>
            (case mkdir_fails dk out of
               Some e \<Rightarrow> (Inl e, [])
             | None \<Rightarrow> extract_loop dk out wanted (cli_items rt d) 0 []))
       (open_shards su shards bound)"

section \<open>create\<close>

datatype tree_node = PlainFile "bytes res" | Folder "tree_entry list res"
  and tree_entry = Unreadable error | Named string tree_node

text \<open>A file that was found: its directory below the root, its name and what reading it gives.\<close>
type_synonym found = "string list \<times> string \<times> bytes res"

definition group_key :: "string list \<Rightarrow> string \<Rightarrow> string" where
  "group_key rel base = (if rel = [] then base else join_with ''/'' rel @ ''/'' @ base)"

fun collect_dir :: "bool \<Rightarrow> string list \<Rightarrow> tree_node \<Rightarrow> (string \<times> found list) list \<Rightarrow> (string \<times> found list) list res"
  and collect_entries ::
    "bool \<Rightarrow> string list \<Rightarrow> tree_entry list \<Rightarrow> (string \<times> found list) list \<Rightarrow> (string \<times> found list) list res" where
  "collect_dir rec rel (PlainFile c) g = Inl (Context ''reading'' (Io ''not a directory''))"
| "collect_dir rec rel (Folder (Inl e)) g = Inl (Context ''reading'' e)"
| "collect_dir rec rel (Folder (Inr es)) g = collect_entries rec rel es g"
| "collect_entries rec rel [] g = Inr g"
| "collect_entries rec rel (Unreadable e # es) g = Inl e"
| "collect_entries rec rel (Named name (Folder d) # es) g =
     (if rec then and_then (collect_dir rec (rel @ [name]) (Folder d) g) (collect_entries rec rel es)
      else collect_entries rec rel es g)"
| "collect_entries rec rel (Named name (PlainFile c) # es) g =
     (case split_once ''.'' name of
        None \<Rightarrow> collect_entries rec rel es g
      | Some (base, _) \<Rightarrow>
          collect_entries rec rel es (with_entry (group_key rel base) [] (\<lambda>fs. fs @ [(rel, name, c)]) g))"

fun fill_sample :: "found list \<Rightarrow> sample \<Rightarrow> sample res" where
  "fill_sample [] s = Inr s"
| "fill_sample ((rel, name, c) # fs) s =
     (case split_once ''.'' name of
        None \<Rightarrow> fill_sample fs s
      | Some (_, ext) \<Rightarrow>
          and_then (with_context ''reading'' c)
            (\<lambda>bs. fill_sample fs (sample_insert (to_ascii_lowercase ext) (Bytes bs) s)))"

fun create_loop ::
  "sinks \<Rightarrow> (nat \<Rightarrow> nat) \<Rightarrow> nat \<Rightarrow> (string \<times> found list) list \<Rightarrow> shard_writer \<Rightarrow> unit res \<times> shard_writer" where
  "create_loop sk clock i [] w = (Inr (), w)"
| "create_loop sk clock i ((key, fs) # gs) w =
     (case fill_sample fs (with_key key) of
        Inl e \<Rightarrow> (Inl e, w)
      | Inr s \<Rightarrow>
          if field_names s = [] then create_loop sk clock i gs w
          else
            (case shard_write sk (clock i) s w of
               (Inl e, w) \<Rightarrow> (Inl e, w)
             | (Inr _, w) \<Rightarrow> create_loop sk clock (Suc i) gs w))"

definition create_run ::
  "sinks \<Rightarrow> (nat \<Rightarrow> nat) \<Rightarrow> tree_node \<Rightarrow> string \<Rightarrow> nat \<Rightarrow> nat \<Rightarrow> bool \<Rightarrow> ((nat \<times> nat) res \<times> shard_writer) res" where
  "create_run sk clock input output mc ms rec =
     and_then (collect_dir rec [] input [])
       (\<lambda>g. if g = [] then Inl (Value ''no files found'')
            else
              map_res (\<lambda>w. finish_writer sk (create_loop sk clock 0 g (with_max_size ms (with_max_count mc w))))
                (shard_writer_new output))"

end
