(* ===== verification/Commands_Spec.thy ===== *)
theory Commands_Spec
  imports Commands Writer_Spec Filters_Spec Codecs_Spec
begin

text \<open>
  What the subcommands of \<^verbatim>\<open>wds\<close> promise: resharding keeps every sample, extracting stays below the
  output directory for harmless keys (and only for those), the summary counts what is there,
  and \<^verbatim>\<open>create\<close> groups files by the rule of the reader.
\<close>

section \<open>Resharding\<close>

lemma write_items_all:
  "write_items sk clock i (map Inr ss) w = write_all sk (zip (map clock [i..<i + length ss]) ss) w"
proof (induction ss arbitrary: i w)
  case (Cons s ss)
  have "[i..<i + length (s # ss)] = i # [Suc i..<Suc i + length ss]" by (simp add: upt_rec)
  then show ?case using Cons.IH by (simp split: prod.split sum.split)
qed simp

lemma lefts_Nil: "lefts xs = [] \<Longrightarrow> xs = map Inr (rights xs)"
  by (induction xs rule: lefts.induct) auto

lemma length_lefts_rights: "length xs = length (lefts xs) + length (rights xs)"
  by (induction xs rule: lefts.induct) auto

lemma rights_Inrs: "rights (map Inr ss) = ss" "lefts (map Inr ss) = []"
  by (induction ss) auto

lemma split_stream_conserves:
  assumes "draws draw"
  shows "\<exists>ts. split_stream draw g shuffle (map Inr ss) = map Inr ts \<and> mset ts = mset ss \<and> (shuffle = None \<longrightarrow> ts = ss)"
proof (cases shuffle)
  case (Some n)
  let ?s = "shuffled (map Inr ss) n g"
  have inv: "sh_inv ?s" by (auto simp: sh_inv_def shuffled_def shuffle_new_def Let_def)
  have c: "sh_content ?s = mset ss" "sh_failures ?s = {#}"
    by (simp_all add: sh_content_def sh_failures_def shuffled_def shuffle_new_def Let_def rights_Inrs)
  note laws = shuffle_conserving [OF assms]
  obtain xs where y: "yields (shuffle_next draw) ?s xs"
    using conserving.finite_total [OF laws inv] by blast
  then have m: "mset (rights xs) = mset ss" "mset (lefts xs) = {#}"
    using conserving.yields_content [OF laws _ inv] c by metis+
  have "length (rights xs) = length ss" using m(1) by (metis size_mset)
  moreover have "lefts xs = []" using m(2) by simp
  ultimately have len: "length xs = length ss" unfolding length_lefts_rights [of xs] by simp
  have "drain (Suc (length (map Inr ss :: sample res list))) (shuffle_next draw) ?s = xs"
    by (rule yields_drain [OF y]) (simp add: len)
  then have "split_stream draw g shuffle (map Inr ss) = xs" by (simp only: split_stream_def Some option.case)
  moreover have "xs = map Inr (rights xs)" using m(2) by (intro lefts_Nil) simp
  ultimately show ?thesis using m(1) Some by auto
qed (simp add: split_stream_def)

text \<open>The writer behind \<^verbatim>\<open>split\<close> and \<^verbatim>\<open>create\<close>: what is reported and what the archives hold.\<close>

lemma reshard:
  assumes ok: "sinks_ok sk" and name: "\<And>i. format_shard_pattern out i = Inr (name i)"
    and xs: "xs \<noteq> []" "list_all (\<lambda>(now, s). writable raw_encode s) xs"
  shows "\<exists>b chs w. shard_writer_new out = Inr b \<and>
    finish_writer sk (write_all sk xs (with_max_size ms (with_max_count mc b))) = (Inr (length xs, length chs), w) \<and>
    archives w = map (archive_of raw_encode name) (enumerate 0 chs) \<and> concat chs = xs \<and>
    list_all (chunk_ok mc ms (sample_size raw_encode)) chs"
proof -
  obtain b where b: "shard_writer_new out = Inr b" by (simp add: shard_writer_new_def name)
  let ?b = "with_max_size ms (with_max_count mc b)"
  have f: "pattern ?b = out" "sw_encode ?b = raw_encode" "sw_current ?b = None" "post ?b = None" "shard ?b = 0"
    "archives ?b = []" "max_count ?b = mc" "max_size ?b = ms" "sw_total ?b = 0"
    using b by (auto simp: shard_writer_new_def name with_max_size_def with_max_count_def)
  have h: "hook_ok ?b" by (simp add: hook_ok_def f)
  have nm: "format_shard_pattern (pattern ?b) i = Inr (name i)" for i by (simp only: f name)
  obtain now s ys where x: "xs = (now, s) # ys" using xs(1) by (cases xs) auto
  have s: "writable (sw_encode ?b) s" and rest: "list_all (\<lambda>(now, s). writable (sw_encode ?b) s) ys"
    using xs(2) x by (simp_all add: f)
  obtain fin cur where run: "write_all sk ys (writing ?b name [] [(now, s)]) = (Inr (), writing ?b name fin cur)"
    and chs: "fin @ [cur] = shard_chunks mc ms (sample_size raw_encode) [(now, s)] ys"
    using write_all_chunks [OF ok h nm rest, of "[]" "[(now, s)]"] by (auto simp: f)
  have all: "write_all sk xs ?b = (Inr (), writing ?b name fin cur)"
    using run write_first [OF ok s nm f(3)] x by simp
  obtain w where w: "finish_shard sk (writing ?b name fin cur) = (Inr (), w)"
    "archives w = map (archive_of raw_encode name) (enumerate 0 (fin @ [cur]))"
    using finish_writing [OF ok h, of name fin cur] by (auto simp: f)
  have cat: "concat (fin @ [cur]) = xs" unfolding chs by (simp add: concat_dealt x)
  then have "length (concat (fin @ [cur])) = length xs" by (simp only:)
  then have len: "length (concat fin) + length cur = length xs" by simp
  have "writer_total (writing ?b name fin cur) = length xs"
    using len by (simp add: writer_total_def writing_def Let_def f)
  moreover have "shard_count (writing ?b name fin cur) = length (fin @ [cur])"
    by (simp add: shard_count_def writing_def Let_def f)
  ultimately have "finish_writer sk (write_all sk xs ?b) = (Inr (length xs, length (fin @ [cur])), w)"
    using w(1) by (simp add: finish_writer_def all shard_close_def)
  moreover have "chunk_ok mc ms (sample_size raw_encode) [(now, s)]" by (simp add: chunk_ok_def)
  then have "list_all (chunk_ok mc ms (sample_size raw_encode)) (fin @ [cur])" unfolding chs by (rule chunks_ok)
  ultimately show ?thesis using b w(2) cat by blast
qed

lemma split_keeps:
  assumes ok: "sinks_ok sk" and name: "\<And>i. format_shard_pattern out i = Inr (name i)" and d: "draws draw"
    and ss: "ss \<noteq> []" "list_all (writable raw_encode) ss"
  shows "\<exists>chs w. split_items sk clock out mc ms (split_stream draw g shuffle (map Inr ss)) =
      Inr (Inr (length ss, length chs), w) \<and>
    archives w = map (archive_of raw_encode name) (enumerate 0 chs) \<and>
    list_all (chunk_ok mc ms (sample_size raw_encode)) chs \<and>
    mset (map snd (concat chs)) = mset ss \<and> (shuffle = None \<longrightarrow> map snd (concat chs) = ss)"
proof -
  obtain ts where ts: "split_stream draw g shuffle (map Inr ss) = map Inr ts" "mset ts = mset ss" "shuffle = None \<longrightarrow> ts = ss"
    using split_stream_conserves [OF d] by blast
  let ?xs = "zip (map clock [0..<0 + length ts]) ts"
  have len: "length ts = length ss" using ts(2) by (metis size_mset)
  have set: "set ts = set ss" using ts(2) by (metis set_mset_mset)
  have snd: "map snd ?xs = ts" by simp
  have "?xs \<noteq> []" using ss(1) len by (cases ts) (auto simp: upt_rec)
  moreover have "list_all (\<lambda>(now, s). writable raw_encode s) ?xs"
    using ss(2) set by (auto simp: list_all_iff dest: set_zip_rightD)
  ultimately obtain b chs w where r: "shard_writer_new out = Inr b"
    "finish_writer sk (write_all sk ?xs (with_max_size ms (with_max_count mc b))) = (Inr (length ?xs, length chs), w)"
    "archives w = map (archive_of raw_encode name) (enumerate 0 chs)" "concat chs = ?xs"
    "list_all (chunk_ok mc ms (sample_size raw_encode)) chs"
    using reshard [OF ok name, of ?xs ms mc] by blast
  then have "split_items sk clock out mc ms (split_stream draw g shuffle (map Inr ss)) = Inr (Inr (length ss, length chs), w)"
    unfolding split_items_def ts(1) write_items_all by (simp add: len)
  then show ?thesis using r(3,4,5) ts(2,3) snd by metis
qed

section \<open>Extracting\<close>

definition components :: "string \<Rightarrow> string list" where
  "components p = split_on ''/'' p"

text \<open>A path below the directory: joined to it, relative, and without a step up.\<close>
definition below :: "string \<Rightarrow> string \<Rightarrow> bool" where
  "below out p = (\<exists>rel. p = path_join out rel \<and> \<not> starts_with ''/'' rel \<and> ''..'' \<notin> set (components rel))"

definition harmless :: "sample \<Rightarrow> bool" where
  "harmless s =
     ((case sample_key s of
         None \<Rightarrow> True
       | Some k \<Rightarrow> good_base k \<and> \<not> starts_with ''/'' k \<and> ''..'' \<notin> set (components k)) \<and>
      list_all (\<lambda>(n, v). CHR ''/'' \<notin> set n) (shown_fields s))"

lemma dir_part_cases: "dir_part k = [] \<or> (\<exists>d. dir_part k = d @ ''/'')"
proof (cases "dropWhile ((\<noteq>) CHR ''/'') (rev k)")
  case (Cons c r)
  then have "c = CHR ''/''" using hd_dropWhile [of "(\<noteq>) CHR ''/''" "rev k"] by simp
  then have "dir_part k = rev r @ ''/''" unfolding dir_part_def Cons by simp
  then show ?thesis by blast
qed (simp add: dir_part_def)

lemma split_last: "CHR ''/'' \<notin> set f \<Longrightarrow> split_on ''/'' (d @ CHR ''/'' # f) = split_on ''/'' d @ [f]"
  using split_on_append [of "CHR ''/''" d f] split_on_absent [of "CHR ''/''" f] by simp

lemma components_append:
  assumes "CHR ''/'' \<notin> set e"
  shows "components (k @ e) = butlast (components k) @ [file_part k @ e]"
proof (cases "dir_part k = []")
  case True
  then have f: "k = file_part k" using dir_file_part [of k] by simp
  then have "CHR ''/'' \<notin> set k" using file_part_no_slash [of k] by metis
  moreover from this have "CHR ''/'' \<notin> set (k @ e)" using assms by simp
  ultimately have "components k = [k]" "components (k @ e) = [k @ e]"
    by (simp_all only: components_def split_on_absent not_False_eq_True)
  then show ?thesis using f by simp
next
  case False
  then obtain d where d: "dir_part k = d @ ''/''" using dir_part_cases by blast
  define f where "f = file_part k"
  have k: "k = d @ CHR ''/'' # f" using dir_file_part [of k] d by (simp add: f_def)
  have f: "CHR ''/'' \<notin> set f" "CHR ''/'' \<notin> set (f @ e)" using file_part_no_slash [of k] assms by (simp_all add: f_def)
  have "components k = split_on ''/'' d @ [f]" unfolding components_def k by (rule split_last [OF f(1)])
  moreover have "components (k @ e) = split_on ''/'' d @ [f @ e]"
    unfolding components_def k append.assoc append_Cons by (rule split_last [OF f(2)])
  ultimately show ?thesis by (simp add: f_def)
qed

lemma member_below:
  assumes k: "good_base k" "\<not> starts_with ''/'' k" "''..'' \<notin> set (components k)" and n: "CHR ''/'' \<notin> set n"
  shows "below out (path_join out (k @ ''.'' @ n))"
proof -
  have f: "file_part k \<noteq> []" "CHR ''.'' \<notin> set (file_part k)" using k(1) by (simp_all add: good_base_def)
  then have "file_part k @ ''.'' @ n \<noteq> ''..''" by (cases "file_part k") auto
  moreover have "components (k @ ''.'' @ n) = butlast (components k) @ [file_part k @ ''.'' @ n]"
    using n by (intro components_append) simp
  ultimately have up: "''..'' \<notin> set (components (k @ ''.'' @ n))" using k(3) by (auto dest: in_set_butlastD)
  have "k \<noteq> []" using f(1) by (auto simp: file_part_def)
  then have "\<not> starts_with ''/'' (k @ ''.'' @ n)" using k(2) by (cases k) (simp_all add: starts_with_prefix)
  with up show ?thesis unfolding below_def by blast
qed

lemma extract_fields_below:
  "list_all (\<lambda>(n, v). below out (path_join out (key @ ''.'' @ n))) es \<Longrightarrow> list_all (\<lambda>f. below out (fst f)) fs \<Longrightarrow>
   list_all (\<lambda>f. below out (fst f)) (snd (extract_fields dk out wanted key es written fs))"
  by (induction dk out wanted key es written fs rule: extract_fields.induct)
     (auto simp: Let_def split: sum.split option.split)

lemma extract_loop_below:
  "\<forall>s. Inr s \<in> set items \<longrightarrow> harmless s \<Longrightarrow> list_all (\<lambda>f. below out (fst f)) fs \<Longrightarrow>
   list_all (\<lambda>f. below out (fst f)) (snd (extract_loop dk out wanted items written fs))"
proof (induction dk out wanted items written fs rule: extract_loop.induct)
  case (3 dk out wanted s xs written fs)
  show ?case
  proof (cases "sample_key s")
    case (Some key)
    have h: "harmless s" using 3(2) by simp
    then have "list_all (\<lambda>(n, v). below out (path_join out (key @ ''.'' @ n))) (shown_fields s)"
      using Some member_below [of key] by (auto simp: harmless_def list_all_iff)
    from extract_fields_below [OF this 3(3)]
    have b: "list_all (\<lambda>f. below out (fst f)) (snd (extract_fields dk out wanted key (shown_fields s) written fs))" .
    obtain r fs' where e: "extract_fields dk out wanted key (shown_fields s) written fs = (r, fs')" by fastforce
    show ?thesis
    proof (cases r)
      case (Inr n)
      have "\<forall>s. Inr s \<in> set xs \<longrightarrow> harmless s" using 3(2) by auto
      moreover have "list_all (\<lambda>f. below out (fst f)) fs'" using b by (simp add: e)
      ultimately show ?thesis using 3(1) [OF Some e [symmetric] Inr] by (simp add: Some e Inr)
    qed (use b in \<open>simp add: Some e\<close>)
  qed (use 3(3) in simp)
qed simp_all

text \<open>What is written when nothing fails.\<close>

definition extracted :: "string \<Rightarrow> string list \<Rightarrow> sample \<Rightarrow> (string \<times> bytes) list" where
  "extracted out wanted s =
     map (\<lambda>(n, v). (path_join out (the (sample_key s) @ ''.'' @ n), the (value_bytes v)))
       (filter (\<lambda>(n, v). wanted = [] \<or> n \<in> set wanted) (shown_fields s))"

definition raw_sample :: "sample \<Rightarrow> bool" where
  "raw_sample s \<longleftrightarrow> sample_key s \<noteq> None \<and> list_all (\<lambda>(n, v). value_bytes v \<noteq> None) (shown_fields s)"

definition willing :: "output_disk \<Rightarrow> bool" where
  "willing dk \<longleftrightarrow> (\<forall>p. mkdir_fails dk p = None) \<and> (\<forall>p b. write_fails dk p b = None)"

lemma extract_fields_all:
  assumes "willing dk" "list_all (\<lambda>(n, v). value_bytes v \<noteq> None) es"
  shows "extract_fields dk out wanted key es written fs =
    (let new = map (\<lambda>(n, v). (path_join out (key @ ''.'' @ n), the (value_bytes v)))
         (filter (\<lambda>(n, v). wanted = [] \<or> n \<in> set wanted) es)
     in (Inr (written + length new), fs @ new))"
  using assms
proof (induction es arbitrary: written fs)
  case (Cons e es)
  obtain n v where e: "e = (n, v)" by (cases e)
  obtain b where "value_bytes v = Some b" using Cons.prems(2) e by auto
  then show ?case using Cons by (auto simp: e expect_bytes_def willing_def Let_def)
qed simp

lemma extract_loop_all:
  assumes "willing dk" "list_all raw_sample ss"
  shows "extract_loop dk out wanted (map Inr ss) written fs =
    (Inr (written + length (concat (map (extracted out wanted) ss))), fs @ concat (map (extracted out wanted) ss))"
  using assms
proof (induction ss arbitrary: written fs)
  case (Cons s ss)
  then have s: "sample_key s \<noteq> None" "list_all (\<lambda>(n, v). value_bytes v \<noteq> None) (shown_fields s)"
    by (simp_all add: raw_sample_def)
  then obtain key where k: "sample_key s = Some key" by auto
  have "extract_fields dk out wanted key (shown_fields s) written fs =
      (Inr (written + length (extracted out wanted s)), fs @ extracted out wanted s)"
    using extract_fields_all [OF Cons.prems(1) s(2)] by (simp add: extracted_def k Let_def)
  then show ?case using Cons by (simp add: k)
qed simp

section \<open>Counting\<close>

lemma keys_with_entry: "set (map fst (with_entry k d f m)) = insert k (set (map fst m))"
  by (induction k d f m rule: with_entry.induct) auto

lemma sorted_with_entry:
  "sorted_wrt (<) (map fst m) \<Longrightarrow> sorted_wrt (<) (map fst (with_entry k d f m))"
proof (induction k d f m rule: with_entry.induct)
  case (2 k d f a v m)
  have ks: "set (map fst (with_entry k d f m)) = insert k (set (map fst m))" by (rule keys_with_entry)
  show ?case
  proof (cases "k = a \<or> k < a")
    case True
    then show ?thesis using 2(2) by (auto intro: less_trans)
  next
    case False
    then have "a < k" by auto
    moreover have "sorted_wrt (<) (map fst (with_entry k d f m))" using 2 False by auto
    ultimately show ?thesis using 2(2) False ks by auto
  qed
qed simp

lemma map_of_with_entry:
  "sorted_wrt (<) (map fst m) \<Longrightarrow>
   map_of (with_entry k d f m) = (map_of m)(k \<mapsto> f (case map_of m k of Some v \<Rightarrow> v | None \<Rightarrow> d))"
proof (induction k d f m rule: with_entry.induct)
  case (2 k d f a v m)
  show ?case
  proof (cases "k < a")
    case True
    then have "k \<notin> set (map fst ((a, v) # m))" using 2(2) by (auto dest: less_trans)
    then have "map_of ((a, v) # m) k = None" by (simp add: map_of_eq_None_iff)
    then show ?thesis using True by auto
  next
    case False
    then show ?thesis using 2 by (auto simp: fun_upd_twist)
  qed
qed simp

definition field_count :: "string \<Rightarrow> (string \<times> field_stats) list \<Rightarrow> nat" where
  "field_count n m = (case map_of m n of Some st \<Rightarrow> stat_count st | None \<Rightarrow> 0)"

lemma tally_count:
  "sorted_wrt (<) (map fst m) \<Longrightarrow>
   sorted_wrt (<) (map fst (fold tally nvs m)) \<and>
   field_count n (fold tally nvs m) = field_count n m + length (filter (\<lambda>(a, v). a = n) nvs)"
proof (induction nvs arbitrary: m)
  case (Cons nv nvs)
  have s: "sorted_wrt (<) (map fst (tally nv m))" unfolding tally_def using Cons.prems by (rule sorted_with_entry)
  have "field_count n (tally nv m) = field_count n m + (if fst nv = n then 1 else 0)"
    using map_of_with_entry [OF Cons.prems] by (auto simp: field_count_def tally_def split: option.split)
  then show ?case using Cons.IH [OF s] by (auto split: prod.splits)
qed simp

lemma info_counts_from:
  "sorted_wrt (<) (map fst (sum_fields m)) \<Longrightarrow>
   \<exists>m'. info_loop (map Inr ss) m = Inr m' \<and> sum_samples m' = sum_samples m + length ss \<and>
     sum_bytes m' = sum_bytes m + sum_list (map sample_bytes ss) \<and>
     field_count n (sum_fields m') =
       field_count n (sum_fields m) + sum_list (map (\<lambda>s. length (filter (\<lambda>(a, v). a = n) (shown_fields s))) ss)"
proof (induction ss arbitrary: m)
  case (Cons s ss)
  have t: "sorted_wrt (<) (map fst (sum_fields (summarise s m)))"
    "field_count n (sum_fields (summarise s m)) =
       field_count n (sum_fields m) + length (filter (\<lambda>(a, v). a = n) (shown_fields s))"
    using tally_count [OF Cons.prems] by (auto simp: summarise_def)
  show ?case using Cons.IH [OF t(1)] by (auto simp: t(2)) (auto simp: summarise_def)
qed simp

lemma once_in_sample:
  assumes "well_keyed s" "\<not> starts_with ''__'' n"
  shows "length (filter (\<lambda>(a, v). a = n) (shown_fields s)) = (if contains_key n s then 1 else 0)"
proof -
  have "filter (\<lambda>(a, v). a = n) (shown_fields s) = filter (\<lambda>(a, v). a = n) s"
    using assms(2) by (auto simp: shown_fields_def filter_filter intro!: filter_cong)
  moreover have "length (filter (\<lambda>(a, v). a = n) s) = (if n \<in> set (keys s) then 1 else 0)"
    using assms(1) by (induction s) (auto simp: well_keyed_def)
  ultimately show ?thesis by (simp add: contains_key_iff)
qed

lemma info_counts:
  assumes "list_all well_keyed ss" "\<not> starts_with ''__'' n"
  shows "\<exists>m. info_loop (map Inr ss) summary_new = Inr m \<and> sum_samples m = length ss \<and>
    sum_bytes m = sum_list (map sample_bytes ss) \<and>
    field_count n (sum_fields m) = length (filter (contains_key n) ss)"
proof -
  have "sum_list (map (\<lambda>s. length (filter (\<lambda>(a, v). a = n) (shown_fields s))) ss) = length (filter (contains_key n) ss)"
    using assms(1) by (induction ss) (simp_all add: once_in_sample [OF _ assms(2)])
  then show ?thesis
    using info_counts_from [of summary_new ss n] by (simp add: summary_new_def field_count_def)
qed

section \<open>Grouping files\<close>

text \<open>The files with a dot in their name, in the order in which the tree is walked.\<close>
fun dotted :: "bool \<Rightarrow> string list \<Rightarrow> tree_node \<Rightarrow> found list"
  and dotted_entries :: "bool \<Rightarrow> string list \<Rightarrow> tree_entry list \<Rightarrow> found list" where
  "dotted rec rel (PlainFile c) = []"
| "dotted rec rel (Folder (Inl e)) = []"
| "dotted rec rel (Folder (Inr es)) = dotted_entries rec rel es"
| "dotted_entries rec rel [] = []"
| "dotted_entries rec rel (Unreadable e # es) = dotted_entries rec rel es"
| "dotted_entries rec rel (Named name (Folder d) # es) =
     (if rec then dotted rec (rel @ [name]) (Folder d) else []) @ dotted_entries rec rel es"
| "dotted_entries rec rel (Named name (PlainFile c) # es) =
     (if split_once ''.'' name = None then [] else [(rel, name, c)]) @ dotted_entries rec rel es"

definition found_ok :: "string \<times> found list \<Rightarrow> bool" where
  "found_ok kf =
     list_all (\<lambda>(rel, name, c). \<exists>base ext. split_once ''.'' name = Some (base, ext) \<and> fst kf = group_key rel base) (snd kf)"

lemma with_entry_push:
  "mset (concat (map snd (with_entry k [] (\<lambda>fs. fs @ [x]) m))) = mset (concat (map snd m)) + {#x#}"
  by (induction m) auto

lemma with_entry_ok:
  assumes "list_all found_ok m" "split_once ''.'' name = Some (base, ext)"
  shows "list_all found_ok (with_entry (group_key rel base) [] (\<lambda>fs. fs @ [(rel, name, c)]) m)"
  using assms by (induction m) (auto simp: found_ok_def)

definition grouped_ok :: "(string \<times> found list) list \<Rightarrow> bool" where
  "grouped_ok g \<longleftrightarrow> sorted_wrt (<) (map fst g) \<and> list_all found_ok g"

lemma collect_groups:
  "collect_dir rec rel node g = Inr g' \<Longrightarrow> grouped_ok g \<Longrightarrow>
     grouped_ok g' \<and> mset (concat (map snd g')) = mset (concat (map snd g)) + mset (dotted rec rel node)"
  "collect_entries rec rel es g = Inr g' \<Longrightarrow> grouped_ok g \<Longrightarrow>
     grouped_ok g' \<and> mset (concat (map snd g')) = mset (concat (map snd g)) + mset (dotted_entries rec rel es)"
proof (induction rec rel node g and rec rel es g arbitrary: g' and g' rule: collect_dir_collect_entries.induct)
  case (6 rec rel name d es g)
  show ?case
  proof (cases rec)
    case True
    then obtain g1 where g1: "collect_dir rec (rel @ [name]) (Folder d) g = Inr g1" "collect_entries rec rel es g1 = Inr g'"
      using 6(4) by (auto simp: and_then_Inr_iff)
    show ?thesis using 6(1) [OF True g1(1) 6(5)] 6(2) [OF True g1(1)] g1(2) True by auto
  qed (use 6 in auto)
next
  case (7 rec rel name c es g)
  show ?case
  proof (cases "split_once ''.'' name")
    case (Some be)
    obtain base ext where be: "be = (base, ext)" by (cases be)
    let ?g = "with_entry (group_key rel base) [] (\<lambda>fs. fs @ [(rel, name, c)]) g"
    have "grouped_ok ?g"
      using 7(4) Some be by (auto simp: grouped_ok_def intro: sorted_with_entry with_entry_ok)
    moreover have "collect_entries rec rel es ?g = Inr g'" using 7(3) Some be by simp
    ultimately show ?thesis
      using 7(2) [OF Some be [symmetric]] with_entry_push [of "group_key rel base" "(rel, name, c)" g] Some by auto
  qed (use 7 in auto)
qed auto

lemma find_sub_first: "find_sub [c] s = Some i \<Longrightarrow> c \<notin> set (take i s)"
  by (induction s arbitrary: i) (auto simp: starts_with_prefix split: if_splits)

lemma split_once_first: "split_once ''.'' s = Some (a, b) \<Longrightarrow> CHR ''.'' \<notin> set a"
  by (auto simp: split_once_def dest: find_sub_first)

lemma reader_rule:
  assumes "split_once ''.'' name = Some (base, ext)" "CHR ''/'' \<notin> set name" "base \<noteq> []"
  shows "base_plus_ext (join_with ''/'' (rel @ [name])) = Some (group_key rel base, ext)"
proof -
  have name: "name = base @ ''.'' @ ext" using split_once_SomeD [OF assms(1)] .
  have s: "CHR ''/'' \<notin> set base" "CHR ''/'' \<notin> set ext" using assms(2) name by auto
  have j: "join_with ''/'' (rel @ [x]) = (if rel = [] then x else join_with ''/'' rel @ ''/'' @ x)" for x
    by (induction rel) (auto simp: join_with_Cons)
  have k: "group_key rel base = (if rel = [] then [] else join_with ''/'' rel @ ''/'') @ base" by (simp add: group_key_def)
  have "file_part (if rel = [] then [] else join_with ''/'' rel @ ''/'') = []" by (simp add: file_part_def)
  then have "file_part (group_key rel base) = base" unfolding k by (simp only: file_part_append [OF s(1)]) simp
  then have "good_base (group_key rel base)" using assms(1,3) split_once_first by (simp add: good_base_def)
  moreover have "join_with ''/'' (rel @ [name]) = group_key rel base @ ''.'' @ ext" by (simp add: j name group_key_def)
  ultimately show ?thesis using base_plus_ext_join [OF _ s(2)] by simp
qed

section \<open>Properties\<close>



text \<open>C12: extraction is confined for harmless samples: whatever the disk answers and the fields asked
  for, when no key is absolute or contains a step up, every file \<^verbatim>\<open>wds extract\<close> writes, also
  before it stops at an error, lies below the output directory.\<close>
theorem extract_confined:
  assumes "\<forall>s. Inr s \<in> set items \<longrightarrow> harmless s"
  shows "list_all (\<lambda>f. below out (fst f)) (snd (extract_loop dk out wanted items 0 []))"
  by (rule extract_loop_below [OF assms]) simp

definition demo_output :: output_disk where
  "demo_output = \<lparr>mkdir_fails = (\<lambda>p. None), write_fails = (\<lambda>p b. None)\<rparr>"

theorem extract_confined_witness:
  "below ''out'' ''out/d/a.txt'' \<and>
   extract_loop demo_output ''out'' [] [Inr [(KEY, Text ''d/a''), (''txt'', Bytes [1])]] 0 [] = (Inr 1, [(''out/d/a.txt'', [1])])"
proof -
  let ?s = "[(KEY, Text ''d/a''), (''txt'', Bytes [1])]"
  have f: "shown_fields ?s = [(''txt'', Bytes [1])]" by (simp add: shown_fields_def KEY_def starts_with_prefix)
  have k: "sample_key ?s = Some ''d/a''" by (simp add: sample_key_def value_str_def)
  have "good_base ''d/a'' \<and> \<not> starts_with ''/'' ''d/a'' \<and> ''..'' \<notin> set (components ''d/a'')" by code_simp
  then have h: "\<forall>s. Inr s \<in> set [Inr ?s :: sample res] \<longrightarrow> harmless s" by (simp add: harmless_def f k)
  have r: "extract_loop demo_output ''out'' [] [Inr ?s] 0 [] = (Inr 1, [(''out/d/a.txt'', [1])])"
    by (simp add: f k expect_bytes_def value_bytes_def demo_output_def path_join_def starts_with_prefix ends_with_suffix suffix_def Let_def)
  show ?thesis using extract_confined [OF h, of "''out''" demo_output "[]"] r by simp
qed

text \<open>Without that, a member called \<^verbatim>\<open>/etc/x.txt\<close> or \<^verbatim>\<open>../x.txt\<close> is a sample like any other, and its
  field is written outside the output directory.\<close>

lemma extract_escapes:
  "base_plus_ext ''/etc/x.txt'' = Some (''/etc/x'', ''txt'')" "base_plus_ext ''../x.txt'' = Some (''../x'', ''txt'')"
  "extract_loop demo_output ''out'' [] [Inr [(KEY, Text ''/etc/x''), (''txt'', Bytes b)]] 0 [] = (Inr 1, [(''/etc/x.txt'', b)])"
  "extract_loop demo_output ''out'' [] [Inr [(KEY, Text ''../x''), (''txt'', Bytes b)]] 0 [] = (Inr 1, [(''out/../x.txt'', b)])"
proof -
  show "base_plus_ext ''/etc/x.txt'' = Some (''/etc/x'', ''txt'')" "base_plus_ext ''../x.txt'' = Some (''../x'', ''txt'')"
    by code_simp+
  have f: "shown_fields [(KEY, Text k), (''txt'', Bytes b)] = [(''txt'', Bytes b)]" for k
    by (simp add: shown_fields_def KEY_def starts_with_prefix)
  have k: "sample_key [(KEY, Text k), (''txt'', Bytes b)] = Some k" for k by (simp add: sample_key_def value_str_def)
  show "extract_loop demo_output ''out'' [] [Inr [(KEY, Text ''/etc/x''), (''txt'', Bytes b)]] 0 [] = (Inr 1, [(''/etc/x.txt'', b)])"
    "extract_loop demo_output ''out'' [] [Inr [(KEY, Text ''../x''), (''txt'', Bytes b)]] 0 [] = (Inr 1, [(''out/../x.txt'', b)])"
    by (simp_all add: f k expect_bytes_def value_bytes_def demo_output_def path_join_def starts_with_prefix ends_with_suffix suffix_def Let_def)
qed

text \<open>C23: the files of a directory are grouped by the rule of the reader: \<^verbatim>\<open>wds create\<close> takes each file with
  a dot in its name exactly once, its groups are sorted by key, and a file is in the group of
  the key that the reader gives to its path below the root, unless its name starts with a dot.\<close>
theorem create_groups_files:
  assumes "collect_dir rec [] input [] = Inr g"
  shows "sorted_wrt (<) (map fst g) \<and> mset (concat (map snd g)) = mset (dotted rec [] input) \<and>
    (\<forall>(key, fs)\<in>set g. \<forall>(rel, name, c)\<in>set fs.
       CHR ''/'' \<notin> set name \<and> \<not> starts_with ''.'' name \<longrightarrow>
       (\<exists>ext. base_plus_ext (join_with ''/'' (rel @ [name])) = Some (key, ext)))"
proof -
  have g: "grouped_ok g" "mset (concat (map snd g)) = mset (dotted rec [] input)"
    using collect_groups(1) [OF assms] by (simp_all add: grouped_ok_def)
  have "\<exists>ext. base_plus_ext (join_with ''/'' (rel @ [name])) = Some (key, ext)"
    if "(key, fs) \<in> set g" "(rel, name, c) \<in> set fs" "CHR ''/'' \<notin> set name" "\<not> starts_with ''.'' name" for key fs rel name c
  proof -
    note h = that
    obtain base ext where b: "split_once ''.'' name = Some (base, ext)" "key = group_key rel base"
      using g(1) h(1,2) by (fastforce simp: grouped_ok_def found_ok_def list_all_iff)
    then have "base \<noteq> []" using h(4) split_once_SomeD [OF b(1)] by (auto simp: starts_with_prefix)
    from reader_rule [OF b(1) h(3) this] show ?thesis unfolding b(2) by blast
  qed
  then show ?thesis using g by (auto simp: grouped_ok_def)
qed

theorem create_groups_files_witness:
  "\<exists>g. collect_dir True [] (Folder (Inr [Named ''d'' (Folder (Inr [Named ''a.jpg'' (PlainFile (Inr [1]))])),
      Named ''README'' (PlainFile (Inr []))])) [] = Inr g \<and>
    mset (concat (map snd g)) = {#([''d''], ''a.jpg'', Inr [1])#} \<and> map fst g = [''d/a'']"
proof -
  let ?t = "Folder (Inr [Named ''d'' (Folder (Inr [Named ''a.jpg'' (PlainFile (Inr [1]))])), Named ''README'' (PlainFile (Inr []))])"
  have "split_once ''.'' ''a.jpg'' = Some (''a'', ''jpg'')" "split_once ''.'' ''README'' = None" by code_simp+
  then have r: "collect_dir True [] ?t [] = Inr [(''d/a'', [([''d''], ''a.jpg'', Inr [1])])]"
    "dotted True [] ?t = [([''d''], ''a.jpg'', Inr [1])]"
    by (simp_all add: group_key_def)
  from create_groups_files [OF r(1)] r show ?thesis by auto
qed

text \<open>A name that starts with a dot gives a group with an empty key, whose members no reader takes for a
  sample.\<close>

lemma hidden_file_unreadable:
  "collect_dir rec [] (Folder (Inr [Named ''.rc'' (PlainFile c)])) [] = Inr [([], [([], ''.rc'', c)])]"
  "base_plus_ext ([] @ ''.'' @ ''rc'') = None"
proof -
  have "split_once ''.'' ''.rc'' = Some ([], ''rc'')" by code_simp
  then show "collect_dir rec [] (Folder (Inr [Named ''.rc'' (PlainFile c)])) [] = Inr [([], [([], ''.rc'', c)])]"
    by (simp add: group_key_def)
  show "base_plus_ext ([] @ ''.'' @ ''rc'') = None" by code_simp
qed

text \<open>Extensions that differ in case only overwrite each other.\<close>

lemma case_overwrites:
  "fill_sample [(rel, ''a.JPG'', Inr x), (rel, ''a.jpg'', Inr y)] (with_key ''a'') = Inr [(KEY, Text ''a''), (''jpg'', Bytes y)]"
proof -
  have "split_once ''.'' ''a.JPG'' = Some (''a'', ''JPG'')" "split_once ''.'' ''a.jpg'' = Some (''a'', ''jpg'')"
    "to_ascii_lowercase ''JPG'' = ''jpg''" "to_ascii_lowercase ''jpg'' = ''jpg''" by code_simp+
  then show ?thesis by (simp add: with_context_def with_key_def sample_insert_def KEY_def)
qed

text \<open>A field whose name starts with one underscore is listed and extracted, and left out by the writers.\<close>

lemma underscore_field_dropped:
  "shown_fields [(KEY, Text k), (''_x'', Bytes b)] = [(''_x'', Bytes b)]"
  "stored_names False [(KEY, Text k), (''_x'', Bytes b)] = []"
  by (simp_all add: shown_fields_def stored_names_def KEY_def starts_with_prefix)

section \<open>Texts\<close>

lemma boundary_before_ok: "boundary_before s n \<le> n \<and> is_char_boundary s (boundary_before s n)"
  by (induction n) (auto simp: is_char_boundary_def)

lemma describe_cut: "char_boundary_at_or_before s n \<le> min n (length s) \<and> is_char_boundary s (char_boundary_at_or_before s n)"
  unfolding char_boundary_at_or_before_def by (rule boundary_before_ok)

lemma shorten_fits:
  assumes "3 \<le> w"
  shows "\<exists>t. shorten s w = Inr t \<and> length t \<le> w"
proof (cases "length s \<le> w")
  case False
  let ?start = "length s - (w - 3)"
  have "is_char_boundary s (length s)" by (simp add: is_char_boundary_def)
  then have "find_idx (is_char_boundary s) [?start..<Suc (length s)] \<noteq> None"
    using False by (auto simp: find_idx_None_iff)
  then obtain k where "find_idx (is_char_boundary s) [?start..<Suc (length s)] = Some k" by auto
  then show ?thesis using False assms by (simp add: shorten_def)
qed (simp add: shorten_def)

end
