(* ===== verification/Spec2Isabelle.thy ===== *)
theory Spec2Isabelle
  imports Brace_Spec Workers Npy Tenbin Filters_Spec Mixing Caching Codecs_Spec Writer_Spec Asynch_Dataset Gopen_Spec Image_Datasets Commands_Spec
begin

text \<open>
  A verification development of webdataset-rs: the Rust reading and writing of WebDataset
  shards, tar archives in which consecutive files that share a base name are the fields of one
  sample.  The theories model the crates \<^verbatim>\<open>webdataset-core\<close>, \<^verbatim>\<open>webdataset-io\<close>,
  \<^verbatim>\<open>webdataset-tenbin\<close>, \<^verbatim>\<open>webdataset-shard\<close>, \<^verbatim>\<open>webdataset\<close> and \<^verbatim>\<open>webdataset-cli\<close> as executable
  functions, in the order in which data flows through them.

  \<^bold>\<open>How the program works.\<close>
  A shard specification is expanded into URLs (brace expansion, YAML, a directory of claims,
  resampling), the URLs are divided among nodes and worker threads, opened (file, cache, pipe,
  memory), decompressed, parsed as tar, selected and renamed, grouped into samples, decoded field
  by field, and passed through the stages of a pipeline that shuffle, filter, map, batch and
  repeat; a loader runs one copy of the pipeline per thread.  The asynchronous half of the code
  does the same over streams.  The writer is the way back: samples are encoded field by field
  into members of archives that roll over at limits of count and size.

  \<^bold>\<open>Which theory models which file\<close> (all under \<^verbatim>\<open>src/crates\<close>).
  \<^item> Shared: \<open>Prelude\<close> (strings, lists, the collections of simplification rules), \<open>Numbers\<close>
    (printing and parsing of integers), \<open>Texts\<close> (UTF-8, trimming, \<^verbatim>\<open>f64\<close> on bits), \<open>Errors\<close>
    (\<^verbatim>\<open>webdataset-core/src/error.rs\<close>, \<^verbatim>\<open>handlers.rs\<close>), \<open>Streams\<close> (byte sources), \<open>Iterators\<close> (pull
    iterators, the locales their clients use).
  \<^item> \<^verbatim>\<open>webdataset-core\<close>: \<open>FieldMap\<close> (\<^verbatim>\<open>fields.rs\<close>), \<open>Tensors\<close> and \<open>Floats\<close> (\<^verbatim>\<open>tensor.rs\<close>),
    \<open>Samples\<close> (\<^verbatim>\<open>value.rs\<close>, \<^verbatim>\<open>sample.rs\<close>), \<open>Json\<close> (the JSON conversions of \<^verbatim>\<open>value.rs\<close>),
    \<open>Brace\<close> and \<open>Brace_Spec\<close> (\<^verbatim>\<open>braceexpand.rs\<close>), \<open>Names\<close> (\<^verbatim>\<open>utils.rs\<close>), \<open>Workers\<close>
    (\<^verbatim>\<open>workers.rs\<close>), \<open>Npy\<close> (\<^verbatim>\<open>npy.rs\<close>).
  \<^item> \<^verbatim>\<open>webdataset-tenbin\<close>: \<open>Tenbin\<close> (\<^verbatim>\<open>lib.rs\<close>).
  \<^item> \<^verbatim>\<open>webdataset-io\<close>: \<open>Urls\<close> (\<^verbatim>\<open>url.rs\<close>), \<open>Pipes\<close> (\<^verbatim>\<open>pipe.rs\<close>), \<open>Gopen\<close> and \<open>Gopen_Spec\<close>
    (\<^verbatim>\<open>gopen.rs\<close>), \<open>Caching\<close> (\<^verbatim>\<open>cache.rs\<close>).
  \<^item> \<^verbatim>\<open>webdataset-shard\<close>: \<open>Tar\<close> and \<open>Tar_Spec\<close> (\<^verbatim>\<open>sync.rs\<close>), \<open>Reader\<close>, \<open>Grouping\<close> and
    \<open>Expanding\<close> (\<^verbatim>\<open>reader.rs\<close>), \<open>Writer\<close> and \<open>Writer_Spec\<close> (\<^verbatim>\<open>writer.rs\<close>, \<^verbatim>\<open>compress.rs\<close>),
    \<open>Asynch_Shard\<close> (\<^verbatim>\<open>asynch.rs\<close>, \<^verbatim>\<open>compress.rs\<close>).
  \<^item> \<^verbatim>\<open>webdataset\<close>: \<open>Shards\<close> and \<open>ShardSpecs\<close> (\<^verbatim>\<open>shardlists.rs\<close>), \<open>Sources\<close> (\<^verbatim>\<open>sources.rs\<close>),
    \<open>Codecs\<close> and \<open>Codecs_Spec\<close> (\<^verbatim>\<open>decode.rs\<close>, \<^verbatim>\<open>encode.rs\<close>), \<open>Float_Ops\<close>, \<open>Images\<close> and
    \<open>Images_Spec\<close> (\<^verbatim>\<open>images.rs\<close>), \<open>Batching\<close> (\<^verbatim>\<open>batch.rs\<close>), \<open>Filters\<close> and \<open>Filters_Spec\<close>
    (\<^verbatim>\<open>filters.rs\<close>), \<open>Mixing\<close> (\<^verbatim>\<open>mix.rs\<close>), \<open>Pipeline\<close> (\<^verbatim>\<open>pipeline.rs\<close>), \<open>Stages\<close>
    (\<^verbatim>\<open>stages.rs\<close>), \<open>Dataset\<close> (\<^verbatim>\<open>dataset.rs\<close>), \<open>Loader\<close> (\<^verbatim>\<open>loader.rs\<close>), and the asynchronous half:
    \<open>Asynch_Filters\<close>, \<open>Asynch_Pipeline\<close> and \<open>Asynch_Dataset\<close> (\<^verbatim>\<open>asynch/filters.rs\<close>,
    \<^verbatim>\<open>pipeline.rs\<close>, \<^verbatim>\<open>stages.rs\<close>, \<^verbatim>\<open>sources.rs\<close>, \<^verbatim>\<open>dataset.rs\<close>).  \<open>Image_Datasets\<close> puts the image
    decoder behind both kinds of dataset.  The methods that only set a field of a builder, a stage or
    an opener stand beside its record, under the method's name or with \<open>set_\<close> before it.
  \<^item> \<^verbatim>\<open>webdataset-cli\<close>: \<open>Commands\<close> and \<open>Commands_Spec\<close> (\<^verbatim>\<open>main.rs\<close> and \<^verbatim>\<open>commands/*.rs\<close>).
  \<^item> This theory composes them: archives to samples, the reader over a list of sources, and the
    loader over the standard pipeline.

  \<^bold>\<open>How state and operations correspond.\<close>
  A struct is a record, an enum a datatype, with the source's names where the logic leaves them
  free.  An operation with \<^verbatim>\<open>&mut self\<close> takes the record and returns its result with the record after
  it; an iterator is a function from its state to the item and the next state (\<open>*_next\<close>), and
  \<open>yields\<close> and \<open>drain\<close> say what it delivers.  \<^verbatim>\<open>Result\<close> is \<open>'a res\<close>; a panic (checked overflow, an index
  out of range, an \<^verbatim>\<open>expect\<close>) is the error \<open>Panic\<close>, so the theorems that a function returns \<open>Inr\<close>
  also say that it does not panic.  Integers of the source are natural numbers with the 64-bit or
  32-bit check written where the source computes, or words where it works on bits.  Strings are
  their UTF-8 bytes as characters.  A pipeline stage is a function on the items of one epoch with a
  state threaded through the epochs.  The loader's threads are a step relation that interleaves
  the moves of the workers and of the consumer over a bounded channel; the theorems about it
  quantify over all interleavings.  A stream of the asynchronous half is polled as an iterator is
  pulled; the bytes of a shard arrive in pieces of any sizes.

  \<^bold>\<open>What the lemmas show.\<close>
  \<^item> Reading: the tar parser delivers exactly the regular files of a well-formed archive under their
    GNU or PAX names, stops after its first error, and the composed reader turns the archives of
    several shards into one sample per run of equal base names, with failures confined to their
    shard (\<open>tar_reads_archives\<close>, \<open>expand_delivers\<close>, \<open>grouping_is_runs\<close>, \<open>archives_to_samples\<close>,
    \<open>shard_failures_isolated\<close>); the asynchronous reader agrees however the bytes arrive
    (\<open>async_shard_agrees\<close>).
  \<^item> Writing: samples leave in order, each whole in one archive, cut exactly at the limits, and
    are read back (\<open>shard_writer_rotation\<close>, \<open>written_samples_read_back\<close>).
  \<^item> Formats: brace patterns denote what their syntax trees denote (\<open>braceexpand_spec\<close>); NumPy,
    tenbin, field codecs, batches, images and percent-encoding round trip.
  \<^item> Distribution: nodes and workers partition the shards, loaders read each shard once, lose
    nothing, never hang when dropped and run ahead by a bounded number (\<open>shards_read_once\<close>,
    \<open>loader_reads_shards_once\<close>, \<open>loader_epoch_complete\<close>, \<open>loader_drop_joins\<close>,
    \<open>loader_ahead_bounded\<close>).
  \<^item> Opening: what secure mode refuses, what a cached file is, which is evicted, how the status of a
    child process ends a stream (\<open>secure_mode_stays_remote\<close>, \<open>cached_files_whole\<close>,
    \<open>cleanup_oldest_first\<close>, \<open>pipe_reads_checked\<close>).
  \<^item> Pipelines: adapters conserve or reorder, epochs have the length asked for, a built dataset
    reads all its shards, and the asynchronous dataset agrees with the blocking one
    (\<open>shuffle_conserves\<close>, \<open>with_epoch_exact\<close>, \<open>dataset_reads_all\<close>, \<open>async_dataset_agrees\<close>,
    \<open>async_adapters_agree\<close>, \<open>concurrent_read_conserves\<close>).
  \<^item> The command line: resharding keeps every sample, extraction stays below its directory when no
    key is absolute or steps up, files are grouped by the rule of the reader (\<open>split_reshards\<close>,
    \<open>extract_confined\<close>, \<open>create_groups_files\<close>).
  \<^item> Some lemmas exhibit behaviour that departs from the documentation or the intent, on concrete
    inputs: \<open>extract_escapes\<close>, \<open>underscore_field_dropped\<close>, \<open>nan_encodes_black\<close>,
    \<open>worker_panic_shortens_epoch\<close>, \<open>cache_opens_local_files\<close>, \<open>zero_epochs_differ\<close> and others.

  \<^bold>\<open>Bounds and fuel.\<close>
  Functions are total by structural recursion or a measure wherever the loop ends.  Brace expansion
  has a loop that may not end (a step that is zero after a cast); its result is then \<open>None\<close>; nesting is
  given the length of the pattern as fuel (\<open>braceexpand_n\<close>); and
  \<open>braceexpand_spec\<close> says that every well-formed pattern has one.  \<open>drain n\<close> pulls at most \<open>n\<close> items; \<open>yields\<close> says that some \<open>n\<close> exhausts the
  iterator, and the readers have explicit bounds (\<open>event_bound\<close>, \<open>tar_left\<close>: every step of the parser
  consumes a block or ends).  \<open>rewrite_loop 16\<close> is the source's own limit.  Endless lists and epochs
  (resampling, repetition without a count) are read up to a wanted number of items, an argument.
  The loader's theorems bound the number of moves of a schedule.

  \<^bold>\<open>Parameters.\<close>
  What is not in the repository is an argument: decompressors and compressors, the zip, JSON,
  MessagePack, CBOR, YAML and image formats, glob matching, random generators (their draws), the
  environment, the disk, the clock and the process table, child processes, the tar writer's sinks,
  \<^verbatim>\<open>flatten_unordered\<close> of the futures crate, the Unicode tables.  Where a theorem relies on one of
  them, a named hypothesis states the documented behaviour, and the witness instantiates it.

  \<^bold>\<open>Not modelled.\<close>
  The Python bindings (\<^verbatim>\<open>webdataset-python\<close>: conversions to Python objects and calls into the modelled
  code), \<^verbatim>\<open>webdataset-tools\<close> (a dump for comparing implementations), benchmarks, examples and tests,
  the re-exports of the \<^verbatim>\<open>lib.rs\<close> and \<^verbatim>\<open>mod.rs\<close> files; \<^verbatim>\<open>Debug\<close> and \<^verbatim>\<open>Display\<close> texts beyond the static
  part of a message; logging; the waits between retries; wakers and executors; the read-ahead
  thread of the blocking reader (it is the inline iterator); \<^verbatim>\<open>to_f32_vec\<close> of a tensor; the sums of
  \<^verbatim>\<open>f64\<close> weights in \<^verbatim>\<open>mix.rs\<close> (rationals here); a replacement of a worker slot as two separate atomic
  steps; memory exhaustion; big-endian targets.
\<close>

section \<open>From shards to samples\<close>

text \<open>C1: from the bytes of tar archives to samples: when the sources are well-formed archives and the
  handler continues, the composed reader yields, shard by shard and in order, one sample for each run of
  selected members with the same base name; no sample mixes members of two shards.\<close>
theorem archives_to_samples:
  assumes "list_all2 (source_ok dec) srcs mss" and "\<And>e. h e = Continue"
  shows "\<exists>evs. yields (expand_next dec) (expand_new (map Inr srcs) sel h) evs \<and>
    group_all evs h =
      concat (map2 (\<lambda>src ms. map (Inr \<circ> run_sample) (runs (map File (member_files sel src ms)))) srcs mss)"
proof -
  have "concat (map (\<lambda>src. map (Inr \<circ> run_sample) (runs (map File (source_files dec sel src)))) srcs) =
      concat (map2 (\<lambda>src ms. map (Inr \<circ> run_sample) (runs (map File (member_files sel src ms)))) srcs mss)"
    using assms(1) by (induction rule: list_all2_induct) (simp_all add: source_files_ok)
  then show ?thesis
    using yields_expand_new [of dec "map Inr srcs" sel h]
      group_all_sources [where h = h and dec = dec and sel = sel and ss = "map Inr srcs", OF assms(2)] by auto
qed

text \<open>The reader on one archive with a member named \<^verbatim>\<open>a\<close>, renamed to \<^verbatim>\<open>a.txt\<close>.\<close>

definition demo_source :: shard_source where
  "demo_source =
     \<lparr>src_url = ''u'', src_path = None,
      src_stream = stream_of (archive [Regular (header_with 0x30 ''00000000003'' ''0001644'') [1, 2, 3]])\<rparr>"

definition demo_selection :: selection where
  "demo_selection = \<lparr>sel_select = None, sel_rename = Some (\<lambda>n. n @ ''.txt''), sel_skip = True\<rparr>"

lemma demo_source_ok:
  "source_ok Inr demo_source [Regular (header_with 0x30 ''00000000003'' ''0001644'') [1, 2, 3]]"
proof -
  let ?h = "header_with 0x30 ''00000000003'' ''0001644''"
  have "header_ok ?h 0x30 (Suc (Suc (Suc 0)))" "TYPEFLAG ?h = 0x30" "header_name ?h = Inr ''a''"
    using header_with_instances(1) header_with_name by (simp_all add: header_ok_def eval_nat_numeral)
  then show ?thesis
    by (auto simp: source_ok_def regular_at_def is_regular_def demo_source_def stream_of_def
        intro: exI [of _ "[]"])
qed

lemma demo_files:
  "member_files demo_selection demo_source
     [Regular (header_with 0x30 ''00000000003'' ''0001644'') [1, 2, 3]] =
   [\<lparr>file_name = ''a.txt'', file_data = [1, 2, 3], file_url = Some ''u'', file_path = None\<rparr>]"
proof -
  have "is_shard_metadata ''a'' = False" by code_simp
  then show ?thesis
    using header_with_name
    by (simp add: member_files_def selection_apply_def demo_selection_def demo_source_def Let_def)
qed

theorem archives_to_samples_witness:
  "\<exists>evs. yields (expand_next Inr) (expand_new [Inr demo_source] demo_selection ignore_and_continue) evs \<and>
    group_all evs ignore_and_continue =
      [Inr [(KEY, Text ''a''), (URL, Text ''u''), (''txt'', Bytes [1, 2, 3])]]"
proof -
  let ?f = "\<lparr>file_name = ''a.txt'', file_data = [1, 2, 3], file_url = Some ''u'', file_path = None\<rparr>"
  have "map (Inr \<circ> run_sample) (runs [File ?f]) =
    [Inr [(KEY, Text ''a''), (URL, Text ''u''), (''txt'', Bytes [1, 2, 3])] :: sample res]"
    by code_simp
  then show ?thesis
    using archives_to_samples [of Inr "[demo_source]"
        "[[Regular (header_with 0x30 ''00000000003'' ''0001644'') [1, 2, 3]]]"
        ignore_and_continue demo_selection] demo_source_ok
    by (simp add: demo_files)
qed

text \<open>C13: failures stay inside their shard: for arbitrary sources (unopenable, not decompressable,
  truncated or corrupt archives among them) and a handler that continues, the samples are those of the
  files each source delivers before its own first error, source by source.\<close>
theorem shard_failures_isolated:
  assumes "\<And>e. h e = Continue"
  shows "\<exists>evs. yields (expand_next dec) (expand_new ss sel h) evs \<and>
    group_all evs h =
      concat (map (\<lambda>src. map (Inr \<circ> run_sample) (runs (map File (source_files dec sel src)))) (rights ss))"
  using yields_expand_new [of dec ss sel h]
    group_all_sources [where h = h and dec = dec and sel = sel and ss = ss, OF assms] by auto

theorem shard_failures_isolated_witness:
  "\<exists>evs. yields (expand_next Inr)
      (expand_new [Inl (Format ''closed''), Inr demo_source] demo_selection ignore_and_continue) evs \<and>
    group_all evs ignore_and_continue =
      [Inr [(KEY, Text ''a''), (URL, Text ''u''), (''txt'', Bytes [1, 2, 3])]]"
proof -
  let ?f = "\<lparr>file_name = ''a.txt'', file_data = [1, 2, 3], file_url = Some ''u'', file_path = None\<rparr>"
  have "map (Inr \<circ> run_sample) (runs [File ?f]) =
    [Inr [(KEY, Text ''a''), (URL, Text ''u''), (''txt'', Bytes [1, 2, 3])] :: sample res]"
    by code_simp
  then show ?thesis
    using shard_failures_isolated [of ignore_and_continue Inr "[Inl (Format ''closed''), Inr demo_source]"
        demo_selection] source_files_ok [OF demo_source_ok, of demo_selection]
    by (simp add: demo_files)
qed

section \<open>A distributed pipeline\<close>

text \<open>The pipeline of one worker: the shard list, dealt out by node and by worker, read through an opener.
  None of its stages keeps a state across epochs.\<close>

definition worker_pipeline ::
  "(stream \<Rightarrow> stream res) \<Rightarrow> shards_to_samples \<Rightarrow> string list \<Rightarrow> worker_info \<Rightarrow> unit data_pipeline" where
  "worker_pipeline dec st urls wi =
     with_stage (\<lambda>w xs. (shards_to_samples_apply dec st xs, w))
       (with_stage (\<lambda>w xs. (split_by_worker wi xs, w))
         (with_stage (\<lambda>w xs. (split_by_node wi xs, w))
           (with_stage (\<lambda>w xs. (fst (simple_apply (\<lambda>seed us. us) (simple_verbatim urls)), w))
             pipeline_new)))"

definition nth_worker :: "nat \<Rightarrow> nat \<Rightarrow> nat \<Rightarrow> nat \<Rightarrow> worker_info" where
  "nth_worker w n r k = \<lparr>rank = r, world_size = Suc w, worker = k, num_workers = Suc n\<rparr>"

lemma run_worker_pipeline:
  assumes "\<And>e. ss_handler st e = Continue" and "r < Suc w" "k < Suc n"
  shows "fst (run_once (worker_pipeline dec st urls (nth_worker w n r k)) ()) =
    map Inr (concat (map (url_samples dec st) (every (Suc n) k (every (Suc w) r urls))))"
proof -
  have "split_by_node (nth_worker w n r k) xs = every (Suc w) r xs" for xs :: "sample res list"
    using assms by (subst split_by_node_every) (simp_all add: nth_worker_def)
  moreover have "split_by_worker (nth_worker w n r k) xs = every (Suc n) k xs" for xs :: "sample res list"
    using assms by (subst split_by_worker_every) (simp_all add: nth_worker_def)
  ultimately show ?thesis
    using shards_to_samples_urls [of st, OF assms(1)]
    by (simp add: run_once_def worker_pipeline_def with_stage_def pipeline_push_def pipeline_new_def simple_apply_def
        simple_verbatim_def every_map)
qed

lemma sum_mset_parts: "finite I \<Longrightarrow> (\<Sum>i\<in>I. \<Sum>x\<in>#M i. (g x :: 'b multiset)) = (\<Sum>x\<in>#(\<Sum>i\<in>I. M i). g x)"
  by (induction I rule: finite_induct) simp_all

lemma deal_sum:
  "0 < m \<Longrightarrow> (\<Sum>r<m. \<Sum>u\<in>#mset (every m r us). (g u :: 'b multiset)) = (\<Sum>u\<in>#mset us. g u)"
  by (simp only: sum_mset_parts [OF finite_lessThan] deal_partition [symmetric])

lemma mset_concat_map: "mset (map Inr (concat (map F us))) = (\<Sum>u\<in>#mset us. mset (map Inr (F u)))"
  by (induction us) simp_all

text \<open>C2: across a distributed run every sample is read exactly once: the samples that the pipelines of all
  workers of all nodes deliver in an epoch are, taken together, those of every shard of the list, each
  shard once, for any numbers of nodes and workers and any content of the shards.\<close>
theorem shards_read_once:
  assumes "\<And>e. ss_handler st e = Continue"
  shows "(\<Sum>r<Suc w. \<Sum>k<Suc n. mset (fst (run_once (worker_pipeline dec st urls (nth_worker w n r k)) ()))) =
    mset (map Inr (concat (map (url_samples dec st) urls)))"
proof -
  let ?g = "\<lambda>u. mset (map Inr (url_samples dec st u) :: sample res list)"
  have "(\<Sum>r<Suc w. \<Sum>k<Suc n. mset (fst (run_once (worker_pipeline dec st urls (nth_worker w n r k)) ()))) =
      (\<Sum>r<Suc w. \<Sum>k<Suc n. \<Sum>u\<in>#mset (every (Suc n) k (every (Suc w) r urls)). ?g u)"
    using run_worker_pipeline [of st, OF assms] by (intro sum.cong refl) (simp only: mset_concat_map lessThan_iff)
  also have "\<dots> = (\<Sum>r<Suc w. \<Sum>u\<in>#mset (every (Suc w) r urls). ?g u)"
    by (intro sum.cong refl deal_sum) simp
  also have "\<dots> = (\<Sum>u\<in>#mset urls. ?g u)"
    by (rule deal_sum) simp
  finally show ?thesis by (simp only: mset_concat_map)
qed

definition demo_reader :: shards_to_samples where
  "demo_reader = \<lparr>opener = (\<lambda>url. Inr demo_source), ss_selection = demo_selection, ss_handler = ignore_and_continue\<rparr>"

lemma demo_url_samples:
  "url_samples Inr demo_reader u = [[(KEY, Text ''a''), (URL, Text ''u''), (''txt'', Bytes [1, 2, 3])]]"
proof -
  have "map run_sample (runs [File \<lparr>file_name = ''a.txt'', file_data = [1, 2, 3], file_url = Some ''u'', file_path = None\<rparr>]) =
    [[(KEY, Text ''a''), (URL, Text ''u''), (''txt'', Bytes [1, 2, 3])]]"
    by code_simp
  then show ?thesis
    using source_files_ok [OF demo_source_ok, of demo_selection]
    by (simp add: url_samples_def demo_reader_def demo_files)
qed

theorem shards_read_once_witness:
  "(\<Sum>r<Suc 1. \<Sum>k<Suc 0. mset (fst (run_once (worker_pipeline Inr demo_reader [''u'', ''u''] (nth_worker 1 0 r k)) ()))) =
    mset (replicate 2 (Inr [(KEY, Text ''a''), (URL, Text ''u''), (''txt'', Bytes [1, 2, 3])]))"
proof -
  have "mset (map Inr (concat (map (url_samples Inr demo_reader) [''u'', ''u'']))) =
      mset (replicate 2 (Inr [(KEY, Text ''a''), (URL, Text ''u''), (''txt'', Bytes [1, 2, 3])] :: sample res))"
    by (simp add: numeral_2_eq_2 demo_url_samples)
  then show ?thesis
    using shards_read_once [where st = demo_reader and w = 1 and n = 0 and dec = Inr and urls = "[''u'', ''u'']"] by (simp only:) (simp add: demo_reader_def)
qed

section \<open>Worker threads\<close>

text \<open>The iterator of a worker of a loader on node \<open>r\<close> of \<open>Suc w\<close>: the loader sets the worker's index and
  the number of workers, the pipeline deals out the shards.\<close>
definition worker_items ::
  "(stream \<Rightarrow> stream res) \<Rightarrow> shards_to_samples \<Rightarrow> string list \<Rightarrow> nat \<Rightarrow> nat \<Rightarrow> nat \<Rightarrow> nat \<Rightarrow> sample res list" where
  "worker_items dec st urls w r index workers =
     pipeline_items (length (fst (run_once (worker_pipeline dec st urls (nth_worker w (workers - 1) r index)) ())))
       (worker_pipeline dec st urls (nth_worker w (workers - 1) r index)) ()"

lemma worker_items_run:
  "worker_items dec st urls w r k n = fst (run_once (worker_pipeline dec st urls (nth_worker w (n - 1) r k)) ())"
  by (simp add: worker_items_def pipeline_items_def worker_pipeline_def with_stage_def pipeline_push_def pipeline_new_def)

lemma worker_items_samples:
  assumes "\<And>e. ss_handler st e = Continue" "r < Suc w" "k < n"
  shows "worker_items dec st urls w r k n =
    concat (map (\<lambda>u. map Inr (url_samples dec st u)) (every n k (every (Suc w) r urls)))"
  using run_worker_pipeline [of st r w k "n - 1" dec urls, OF assms(1,2)] assms(3)
  by (simp add: worker_items_run map_concat comp_def)

lemma deal_list:
  "0 < m \<Longrightarrow> sum_list (map (\<lambda>k. mset (concat (map g (every m k us)))) [0..<m]) = mset (concat (map g us))"
proof -
  have eq: "mset (concat (map g vs)) = (\<Sum>u\<in>#mset vs. mset (g u))" for vs by (induction vs) simp_all
  show "0 < m \<Longrightarrow> ?thesis"
    by (simp add: eq interv_sum_list_conv_sum_set_nat atLeast0LessThan deal_sum)
qed

text \<open>C10: a loader reads each shard of its node once: over any number of worker threads and any
  interleaving of them, what the consumer has received when the channel is closed are the
  samples of the shards that fall to the node, each shard once.\<close>
theorem loader_reads_shards_once:
  assumes cont: "\<And>e. ss_handler st e = Continue" and r: "r < Suc w" and room: "0 < prefetch ld"
    and spawn: "spawn (worker_items dec st urls w r) here ld = Inr (Threaded p)"
    and run: "(pool_step list_next ^^ n) p q" and closed: "receive q = Closed"
  shows "mset (delivered q) = mset (map Inr (concat (map (url_samples dec st) (every (Suc w) r urls))))"
proof -
  let ?N = "loader_workers ld"
  have N: "1 < ?N" by (rule spawn_Threaded [OF spawn])
  have it: "worker_items dec st urls w r k ?N = concat (map (\<lambda>u. map Inr (url_samples dec st u)) (every ?N k (every (Suc w) r urls)))"
    if "k < ?N" for k
    using worker_items_samples [OF cont r that] .
  have "yields list_next (worker_items dec st urls w r k ?N) (worker_items dec st urls w r k ?N) \<and>
      calm (worker_items dec st urls w r k ?N)" if "k < ?N" for k
    using that yields_list by (auto simp: it calm_def list_all_iff)
  from epoch_complete [OF spawn room this run]
  have "merges (map (\<lambda>k. worker_items dec st urls w r k ?N) [0..<?N]) (delivered q)" using closed by simp
  from merges_mset [OF this]
  have "mset (delivered q) = sum_list (map (\<lambda>k. mset (worker_items dec st urls w r k ?N)) [0..<?N])"
    by (simp add: comp_def)
  also have "\<dots> = sum_list (map (\<lambda>k. mset (concat (map (\<lambda>u. map Inr (url_samples dec st u)) (every ?N k (every (Suc w) r urls))))) [0..<?N])"
    by (intro arg_cong [of _ _ sum_list] map_cong refl) (simp add: it)
  also have "\<dots> = mset (concat (map (\<lambda>u. map Inr (url_samples dec st u)) (every (Suc w) r urls)))"
    using N by (intro deal_list) simp
  finally show ?thesis by (simp add: map_concat comp_def)
qed

text \<open>Two threads, one shard: the first thread reads it.\<close>
theorem loader_reads_shards_once_witness:
  "\<exists>p q. spawn (worker_items Inr demo_reader [''u''] 0 0) [] demo_loader = Inr (Threaded p) \<and>
     (pool_step list_next ^^ 6) p q \<and> receive q = Closed \<and>
     mset (delivered q) = {#Inr [(KEY, Text ''a''), (URL, Text ''u''), (''txt'', Bytes [1, 2, 3])]#}"
proof -
  let ?s = "[(KEY, Text ''a''), (URL, Text ''u''), (''txt'', Bytes [1, 2, 3])]"
  let ?p = "\<lparr>pool_workers = [Running [Inr ?s], Running []], channel = [], capacity = 2, stop_flag = False,
      delivered = []\<rparr>"
  let ?q = "?p\<lparr>pool_workers := [Finished, Finished], delivered := [Inr ?s]\<rparr>"
  have cont: "ss_handler demo_reader e = Continue" for e by (simp add: demo_reader_def)
  have e: "every 2 0 [''u''] = [''u'']" "every 2 1 [''u''] = []" "every (Suc 0) 0 [''u''] = [''u'']" by code_simp+
  have "worker_items Inr demo_reader [''u''] 0 0 0 2 = [Inr ?s]" "worker_items Inr demo_reader [''u''] 0 0 1 2 = []"
    using worker_items_samples [of demo_reader 0 0 _ 2, OF cont] by (simp_all add: e demo_url_samples del: One_nat_def)
  then have sp: "spawn (worker_items Inr demo_reader [''u''] 0 0) [] demo_loader = Inr (Threaded ?p)"
    by (simp add: spawn_def demo_loader_def with_prefetch_def with_workers_def loader_new_def upt_2)
  have "schedule list_next [Worker 0, Worker 0, Worker 0, Worker 1, Consumer, Worker 0] ?p = Some ?q"
    by (simp add: list_next_def receive_def)
  then have run: "(pool_step list_next ^^ 6) ?p ?q" by (rule schedule_steps) simp
  have closed: "receive ?q = Closed" by (simp add: receive_def)
  have "0 < prefetch demo_loader" by (simp add: demo_loader_def with_prefetch_def)
  from loader_reads_shards_once [OF cont _ this sp run closed]
  have "mset (delivered ?q) = {#Inr ?s#}" by simp
  with sp run closed show ?thesis by blast
qed

end
